(* ===== verification/Prelude.thy ===== *)
theory Prelude
  imports Main "HOL-Library.Word" "HOL-Library.Multiset" "HOL-Library.Char_ord"
    "HOL-Library.List_Lexorder" "HOL-Library.Sublist" "HOL-Library.AList"
begin

text \<open>
  Shared ground of the development: the named collections of facts, Go's 64-bit signed
  arithmetic, Go's \<open>time.Duration\<close> and \<open>time.Time\<close>, Go maps as association lists,
  and the generic list lemmas the component theories use.
\<close>

section \<open>Fact collections\<close>

named_theorems go_str \<open>equations and rules for the models of Go's string functions\<close>
named_theorems cache_inv \<open>operations that keep the invariant of the memory backend\<close>
named_theorems frame \<open>fields an operation does not write\<close>

section \<open>64-bit signed integers, durations and instants\<close>

text \<open>
  Go's \<open>int\<close> and \<open>int64\<close> wrap around at 64 bits. A value of such a type is an \<open>int\<close>
  in range; \<open>i64\<close> is applied to the result of each operation that can leave the range.
\<close>

definition i64 :: "int \<Rightarrow> int" where
  "i64 x = (x + 2 ^ 63) mod 2 ^ 64 - 2 ^ 63"

abbreviation min_i64 :: int where "min_i64 \<equiv> - (2 ^ 63)"
abbreviation max_i64 :: int where "max_i64 \<equiv> 2 ^ 63 - 1"

lemma i64_id [simp]: "min_i64 \<le> x \<Longrightarrow> x \<le> max_i64 \<Longrightarrow> i64 x = x"
  by (simp add: i64_def)

lemma i64_range: "min_i64 \<le> i64 x \<and> i64 x \<le> max_i64"
proof -
  have "0 \<le> (x + 2 ^ 63) mod 2 ^ 64" "(x + 2 ^ 63) mod 2 ^ 64 < (2::int) ^ 64"
    by simp_all
  then show ?thesis by (simp add: i64_def)
qed

lemma i64_mod: "i64 x mod 2 ^ 64 = x mod 2 ^ 64"
proof -
  have "i64 x mod 2 ^ 64 = (x + 2 ^ 63 - 2 ^ 63) mod 2 ^ 64"
    unfolding i64_def by (rule mod_diff_left_eq)
  then show ?thesis by simp
qed

text \<open>\<open>i64\<close> is the value a 64-bit two's complement register holds.\<close>

lemma i64_eq_sint: "i64 x = sint (word_of_int x :: 64 word)"
  by (simp add: i64_def sint_sbintrunc' signed_take_bit_eq_take_bit_shift take_bit_eq_mod)

type_synonym duration = int \<comment> \<open>\<open>time.Duration\<close>: nanoseconds as an int64\<close>
type_synonym instant = int  \<comment> \<open>\<open>time.Time\<close>: a reading of the monotonic clock, in ns\<close>

definition Millisecond :: duration where "Millisecond = 1000000"
definition Second :: duration where "Second = 1000 * Millisecond"
definition Minute :: duration where "Minute = 60 * Second"

text \<open>\<open>time.Since(t)\<close> at time \<open>now\<close>: a difference that saturates at the ends of int64.\<close>

definition time_since :: "instant \<Rightarrow> instant \<Rightarrow> duration" where
  "time_since now t = max min_i64 (min max_i64 (now - t))"

lemma time_since_exact: "\<bar>now - t\<bar> \<le> max_i64 \<Longrightarrow> time_since now t = now - t"
  by (simp add: time_since_def)

section \<open>Go maps\<close>

text \<open>
  A Go map is an association list with distinct keys: \<open>map_of\<close> looks a key up,
  \<open>AList.update\<close> assigns, \<open>AList.delete\<close> deletes. The order of the list is the order in
  which \<open>range\<close> happens to visit the map; the language leaves it open.
\<close>

abbreviation distinct_keys :: "('k \<times> 'v) list \<Rightarrow> bool" where
  "distinct_keys m \<equiv> distinct (map fst m)"

lemma map_of_delete [simp]: "map_of (AList.delete k m) = (map_of m)(k := None)"
  by (simp add: AList.delete_conv')

lemma map_of_update [simp]: "map_of (AList.update k v m) = (map_of m)(k \<mapsto> v)"
  by (simp add: AList.update_conv')

lemma delete_filter: "AList.delete k m = filter (\<lambda>x. fst x \<noteq> k) m"
  by (induction m) (auto simp: AList.delete_eq)

section \<open>Lists\<close>

lemma sum_list_filter_split:
  "(\<Sum>x\<leftarrow>xs. f x) = (\<Sum>x\<leftarrow>filter P xs. f x) + (\<Sum>x\<leftarrow>filter (\<lambda>x. \<not> P x) xs. (f x :: int))"
  by (induction xs) simp_all

lemma sum_list_nonneg_int: "(\<And>x. x \<in> set xs \<Longrightarrow> 0 \<le> f x) \<Longrightarrow> 0 \<le> (\<Sum>x\<leftarrow>xs. (f x :: int))"
  by (induction xs) simp_all

lemma sort_sort [simp]: "sort (sort xs) = sort (xs :: 'a::linorder list)"
  by (simp add: sorted_sort_id)

lemma sort_eq_mset_iff:
  fixes xs ys :: "'a::linorder list"
  shows "sort xs = sort ys \<longleftrightarrow> mset xs = mset ys"
  by (metis mset_sort sorted_list_of_multiset_mset)

lemma find_in: "find P xs = Some x \<Longrightarrow> x \<in> set xs"
  by (induction xs) (auto split: if_splits)

end
