(* ===== verification/GoStrings.thy ===== *)
theory GoStrings
  imports Prelude
begin

text \<open>
  The functions of Go's \<open>strings\<close> and \<open>sort\<close> packages that the proxy calls, on byte
  strings. A Go string is a sequence of bytes, here a list of \<open>char\<close>. Case mapping and
  space trimming are the ones of ASCII bytes; a byte from 128 on is left as it is.
\<close>

section \<open>Prefixes, suffixes, searching\<close>

definition HasPrefix :: "string \<Rightarrow> string \<Rightarrow> bool" where
  "HasPrefix s p \<longleftrightarrow> take (length p) s = p"

definition HasSuffix :: "string \<Rightarrow> string \<Rightarrow> bool" where
  "HasSuffix s p \<longleftrightarrow> HasPrefix (rev s) (rev p)"

definition TrimPrefix :: "string \<Rightarrow> string \<Rightarrow> string" where
  "TrimPrefix s p = (if HasPrefix s p then drop (length p) s else s)"

fun Index :: "string \<Rightarrow> string \<Rightarrow> nat option" where
  "Index [] sub = (if sub = [] then Some 0 else None)"
| "Index (c # cs) sub =
     (if HasPrefix (c # cs) sub then Some 0 else map_option Suc (Index cs sub))"

definition Contains :: "string \<Rightarrow> string \<Rightarrow> bool" where
  "Contains s sub \<longleftrightarrow> Index s sub \<noteq> None"

fun IndexAny :: "string \<Rightarrow> string \<Rightarrow> nat option" where
  "IndexAny [] chars = None"
| "IndexAny (c # cs) chars = (if c \<in> set chars then Some 0 else map_option Suc (IndexAny cs chars))"

lemma HasPrefix_iff [go_str]: "HasPrefix s p \<longleftrightarrow> prefix p s"
  by (metis HasPrefix_def append_eq_conv_conj prefix_def)

lemma HasPrefix_Nil [simp]: "HasPrefix s []"
  by (simp add: HasPrefix_def)

lemma HasPrefix_append [simp]: "HasPrefix (p @ s) p"
  by (simp add: HasPrefix_def)

lemma HasPrefix_char: "HasPrefix s [c] \<longleftrightarrow> s \<noteq> [] \<and> hd s = c"
  by (cases s) (auto simp: HasPrefix_def)

lemma HasSuffix_char: "HasSuffix s [c] \<longleftrightarrow> s \<noteq> [] \<and> last s = c"
  by (cases s rule: rev_cases) (auto simp: HasSuffix_def HasPrefix_def)

lemma Index_Some: "Index s sub = Some i \<Longrightarrow> i \<le> length s \<and> HasPrefix (drop i s) sub"
  by (induction s arbitrary: i) (auto split: if_splits)

lemma Index_None: "Index s sub = None \<longleftrightarrow> (\<forall>i \<le> length s. \<not> HasPrefix (drop i s) sub)"
proof (induction s)
  case Nil
  then show ?case by (auto simp: HasPrefix_def)
next
  case (Cons c cs)
  show ?case
  proof
    assume none: "Index (c # cs) sub = None"
    then have h: "\<not> HasPrefix (c # cs) sub" "Index cs sub = None"
      by (auto split: if_splits)
    show "\<forall>i \<le> length (c # cs). \<not> HasPrefix (drop i (c # cs)) sub"
    proof (intro allI impI)
      fix i assume "i \<le> length (c # cs)"
      then show "\<not> HasPrefix (drop i (c # cs)) sub"
        using h Cons.IH by (cases i) auto
    qed
  next
    assume all: "\<forall>i \<le> length (c # cs). \<not> HasPrefix (drop i (c # cs)) sub"
    have "\<not> HasPrefix (c # cs) sub" using all [rule_format, of 0] by simp
    moreover have "\<forall>i \<le> length cs. \<not> HasPrefix (drop i cs) sub"
      using all by (metis Suc_le_mono drop_Suc_Cons length_Cons)
    ultimately show "Index (c # cs) sub = None" using Cons.IH by simp
  qed
qed

lemma Contains_iff [go_str]: "Contains s sub \<longleftrightarrow> (\<exists>a b. s = a @ sub @ b)"
proof
  assume "Contains s sub"
  then obtain i where "Index s sub = Some i" by (auto simp: Contains_def)
  from Index_Some [OF this] obtain b where "drop i s = sub @ b"
    by (auto simp: HasPrefix_iff prefix_def)
  then have "s = take i s @ sub @ b" by (metis append_take_drop_id)
  then show "\<exists>a b. s = a @ sub @ b" by blast
next
  assume "\<exists>a b. s = a @ sub @ b"
  then obtain a b where s: "s = a @ sub @ b" by blast
  have "HasPrefix (drop (length a) s) sub" using s by simp
  moreover have "length a \<le> length s" using s by simp
  ultimately show "Contains s sub" unfolding Contains_def using Index_None by blast
qed

section \<open>Splitting and joining\<close>

text \<open>\<open>strings.Split\<close> with a one-byte separator; the loop forms of the source are
  compared with it in the theories that have them.\<close>

fun Split :: "char \<Rightarrow> string \<Rightarrow> string list" where
  "Split d [] = [[]]"
| "Split d (c # cs) =
     (if c = d then [] # Split d cs
      else (case Split d cs of [] \<Rightarrow> [[c]] | p # ps \<Rightarrow> (c # p) # ps))"

fun Join :: "string list \<Rightarrow> string \<Rightarrow> string" where
  "Join [] sep = []"
| "Join [p] sep = p"
| "Join (p # ps) sep = p @ sep @ Join ps sep"

text \<open>\<open>strings.Cut(s, sep)\<close> for a one-byte separator: what is before it, what is after
  it, and whether it was found.\<close>

fun Cut :: "char \<Rightarrow> string \<Rightarrow> string \<times> string \<times> bool" where
  "Cut d [] = ([], [], False)"
| "Cut d (c # cs) =
     (if c = d then ([], cs, True)
      else (case Cut d cs of (a, b, f) \<Rightarrow> (c # a, b, f)))"

text \<open>\<open>strings.SplitN(s, sep, 2)\<close>.\<close>

definition SplitN2 :: "char \<Rightarrow> string \<Rightarrow> string list" where
  "SplitN2 d s = (case Cut d s of (a, b, found) \<Rightarrow> if found then [a, b] else [a])"

lemma Split_not_Nil [simp]: "Split d s \<noteq> []"
  by (cases s) (auto split: list.splits)

lemma Split_cases: obtains p ps where "Split d s = p # ps"
  by (cases "Split d s") auto

lemma Split_no_sep: "p \<in> set (Split d s) \<Longrightarrow> d \<notin> set p"
proof (induction s arbitrary: p)
  case (Cons c cs)
  show ?case by (rule Split_cases [of d cs]) (use Cons in \<open>auto split: if_splits\<close>)
qed simp

lemma Split_subset: "p \<in> set (Split d s) \<Longrightarrow> set p \<subseteq> set s"
proof (induction s arbitrary: p)
  case (Cons c cs)
  show ?case by (rule Split_cases [of d cs]) (use Cons in \<open>fastforce split: if_splits\<close>)
qed simp

lemma Join_Cons: "ps \<noteq> [] \<Longrightarrow> Join (p # ps) sep = p @ sep @ Join ps sep"
  by (cases ps) simp_all

lemma Join_snoc: "ps \<noteq> [] \<Longrightarrow> Join (ps @ [p]) sep = Join ps sep @ sep @ p"
  by (induction ps sep rule: Join.induct) auto

lemma Join_Split [go_str]: "Join (Split d s) [d] = s"
proof (induction s)
  case (Cons c cs)
  obtain x xs where x: "Split d cs = x # xs" by (rule Split_cases)
  show ?case using Cons x by (cases xs) (auto simp: Join_Cons)
qed simp

lemma Split_append_sep: "d \<notin> set p \<Longrightarrow> Split d (p @ d # s) = p # Split d s"
  by (induction p) auto

lemma Split_no: "d \<notin> set p \<Longrightarrow> Split d p = [p]"
  by (induction p) auto

lemma Split_Join [go_str]:
  "ps \<noteq> [] \<Longrightarrow> (\<And>p. p \<in> set ps \<Longrightarrow> d \<notin> set p) \<Longrightarrow> Split d (Join ps [d]) = ps"
proof (induction ps)
  case (Cons p ps)
  show ?case
  proof (cases "ps = []")
    case True
    with Cons.prems show ?thesis by (simp add: Split_no)
  next
    case False
    with Cons show ?thesis by (simp add: Join_Cons Split_append_sep)
  qed
qed simp

lemma Split_append: "Split d (a @ d # s) = Split d a @ Split d s"
  by (induction a) (auto split: list.splits)

lemma set_Join: "set (Join ps sep) \<subseteq> \<Union> (set ` set ps) \<union> set sep"
  by (induction ps sep rule: Join.induct) auto

lemma Cut_found [go_str]: "d \<notin> set a \<Longrightarrow> Cut d (a @ d # b) = (a, b, True)"
  by (induction a) auto

lemma Cut_not_found [go_str]: "d \<notin> set a \<Longrightarrow> Cut d a = (a, [], False)"
  by (induction a) auto

lemma Cut_split: "Cut d s = (a, b, f) \<Longrightarrow> s = (if f then a @ d # b else a) \<and> d \<notin> set a"
  by (induction s arbitrary: a b f) (auto split: if_splits prod.splits)

section \<open>Case, spaces, equality under folding\<close>

definition ascii_lower :: "char \<Rightarrow> char" where
  "ascii_lower c =
     (if CHR ''A'' \<le> c \<and> c \<le> CHR ''Z'' then char_of (of_char c + 32 :: nat) else c)"

definition ascii_upper :: "char \<Rightarrow> char" where
  "ascii_upper c =
     (if CHR ''a'' \<le> c \<and> c \<le> CHR ''z'' then char_of (of_char c - 32 :: nat) else c)"

definition ToLower :: "string \<Rightarrow> string" where "ToLower s = map ascii_lower s"
definition ToUpper :: "string \<Rightarrow> string" where "ToUpper s = map ascii_upper s"

definition EqualFold :: "string \<Rightarrow> string \<Rightarrow> bool" where
  "EqualFold s t \<longleftrightarrow> ToLower s = ToLower t"

definition is_space :: "char \<Rightarrow> bool" where
  "is_space c \<longleftrightarrow> c \<in> {CHR '' '', CHR 0x09, CHR 0x0A, CHR 0x0B, CHR 0x0C, CHR 0x0D}"

definition TrimSpace :: "string \<Rightarrow> string" where
  "TrimSpace s = rev (dropWhile is_space (rev (dropWhile is_space s)))"

definition is_digit :: "char \<Rightarrow> bool" where
  "is_digit c \<longleftrightarrow> CHR ''0'' \<le> c \<and> c \<le> CHR ''9''"

definition digit_val :: "char \<Rightarrow> int" where
  "digit_val c = of_char c - 48"

abbreviation ord :: "char \<Rightarrow> nat" where "ord \<equiv> of_char"

lemma ord_less_256: "ord c < 256"
  by (metis of_char_mod_256 mod_less_divisor zero_less_numeral)

lemma char_eq_ord: "c = d \<longleftrightarrow> ord c = ord d"
  by simp

lemma ord_ascii_lower [go_str]:
  "ord (ascii_lower c) = (if 65 \<le> ord c \<and> ord c \<le> 90 then ord c + 32 else ord c)"
  by (simp add: ascii_lower_def less_eq_char_def)

lemma ord_ascii_upper [go_str]:
  "ord (ascii_upper c) = (if 97 \<le> ord c \<and> ord c \<le> 122 then ord c - 32 else ord c)"
  by (auto simp: ascii_upper_def less_eq_char_def)

lemma ascii_lower_idem [simp]: "ascii_lower (ascii_lower c) = ascii_lower c"
  by (simp add: char_eq_ord ord_ascii_lower del: of_char_eq_iff)

lemma ascii_lower_upper [simp]: "ascii_lower (ascii_upper c) = ascii_lower c"
  by (simp add: char_eq_ord ord_ascii_lower ord_ascii_upper del: of_char_eq_iff) linarith

lemma ascii_upper_lower [simp]: "ascii_upper (ascii_lower c) = ascii_upper c"
  by (simp add: char_eq_ord ord_ascii_lower ord_ascii_upper del: of_char_eq_iff)

lemma ToLower_idem [simp]: "ToLower (ToLower s) = ToLower s"
  by (simp add: ToLower_def)

lemma ToUpper_ToLower [simp]: "ToUpper (ToLower s) = ToUpper s"
  by (simp add: ToLower_def ToUpper_def)

lemma EqualFold_refl [simp]: "EqualFold s s"
  by (simp add: EqualFold_def)

lemma EqualFold_ToUpper: "EqualFold s t \<longleftrightarrow> ToUpper s = ToUpper t"
proof
  assume "EqualFold s t"
  then show "ToUpper s = ToUpper t" unfolding EqualFold_def by (metis ToUpper_ToLower)
next
  assume "ToUpper s = ToUpper t"
  then have "ToLower (ToUpper s) = ToLower (ToUpper t)" by simp
  then show "EqualFold s t" by (simp add: EqualFold_def ToLower_def ToUpper_def comp_def)
qed

lemma TrimSpace_subset: "set (TrimSpace s) \<subseteq> set s"
  unfolding TrimSpace_def by (metis set_dropWhileD set_rev subsetI)

lemma dropWhile_idem_hd: "xs \<noteq> [] \<Longrightarrow> \<not> P (hd xs) \<Longrightarrow> dropWhile P xs = xs"
  by (cases xs) auto

lemma TrimSpace_idem [simp]: "TrimSpace (TrimSpace s) = TrimSpace s"
proof -
  let ?a = "dropWhile is_space s"
  let ?b = "dropWhile is_space (rev ?a)"
  have trim: "TrimSpace s = rev ?b" by (simp add: TrimSpace_def)
  show ?thesis
  proof (cases "?b = []")
    case True
    then have "TrimSpace s = []" unfolding trim by (simp only: rev.simps)
    moreover have "TrimSpace [] = []" by (simp add: TrimSpace_def)
    ultimately show ?thesis by simp
  next
    case False
    have "\<not> is_space (hd ?b)" using False by (rule hd_dropWhile)
    moreover have "\<not> is_space (hd (rev ?b))"
    proof -
      have "last ?b = last (rev ?a)"
        using False by (metis append_Nil2 dropWhile_eq_Nil_conv last_appendR takeWhile_dropWhile_id)
      moreover have "?a \<noteq> []" using False by (metis dropWhile.simps(1) rev.simps(1))
      ultimately have "hd (rev ?b) = hd ?a" using False by (simp add: hd_rev last_rev)
      then show ?thesis using \<open>?a \<noteq> []\<close> hd_dropWhile [of is_space s] by simp
    qed
    ultimately have "dropWhile is_space ?b = ?b" "dropWhile is_space (rev ?b) = rev ?b"
      using False by (auto intro: dropWhile_idem_hd)
    then show ?thesis unfolding trim by (simp add: TrimSpace_def)
  qed
qed

end
