(* ===== verification/GoUrl.thy ===== *)
theory GoUrl
  imports GoStrings "HOL-Library.Product_Lexorder"
begin

text \<open>
  The parts of Go's \<open>net/url\<close> and \<open>path\<close> packages that the proxy calls: percent
  decoding and encoding, \<open>url.ParseQuery\<close>, \<open>path.Clean\<close>. The interface of a reversible
  encoding is the locale \<open>codec\<close>, interpreted here on the query encoding.
\<close>

section \<open>Percent encoding\<close>

datatype encoding = EncodePath | EncodePathSegment | EncodeQueryComponent

definition ishex :: "char \<Rightarrow> bool" where
  "ishex c \<longleftrightarrow> is_digit c \<or> (CHR ''a'' \<le> c \<and> c \<le> CHR ''f'') \<or> (CHR ''A'' \<le> c \<and> c \<le> CHR ''F'')"

definition unhex :: "char \<Rightarrow> nat" where
  "unhex c =
     (if is_digit c then ord c - 48
      else if CHR ''a'' \<le> c \<and> c \<le> CHR ''f'' then ord c - 97 + 10
      else if CHR ''A'' \<le> c \<and> c \<le> CHR ''F'' then ord c - 65 + 10 else 0)"

definition upperhex :: "nat \<Rightarrow> char" where
  "upperhex n = ''0123456789ABCDEF'' ! n"

text \<open>\<open>url.unescape\<close>: \<open>None\<close> is the \<open>EscapeError\<close> of a percent sign that two
  hexadecimal digits do not follow.\<close>

fun unescape :: "encoding \<Rightarrow> string \<Rightarrow> string option" where
  "unescape mode [] = Some []"
| "unescape mode (CHR ''%'' # cs) =
     (case cs of
        a # b # rest \<Rightarrow>
          if ishex a \<and> ishex b
          then map_option (Cons (char_of (16 * unhex a + unhex b))) (unescape mode rest)
          else None
      | _ \<Rightarrow> None)"
| "unescape mode (c # cs) =
     map_option (Cons (if c = CHR ''+'' \<and> mode = EncodeQueryComponent then CHR '' '' else c))
       (unescape mode cs)"

abbreviation PathUnescape :: "string \<Rightarrow> string option" where
  "PathUnescape \<equiv> unescape EncodePathSegment"
abbreviation QueryUnescape :: "string \<Rightarrow> string option" where
  "QueryUnescape \<equiv> unescape EncodeQueryComponent"

definition unreserved :: "char \<Rightarrow> bool" where
  "unreserved c \<longleftrightarrow> is_digit c \<or> (CHR ''a'' \<le> c \<and> c \<le> CHR ''z'')
     \<or> (CHR ''A'' \<le> c \<and> c \<le> CHR ''Z'') \<or> c \<in> set ''-_.~''"

definition shouldEscape :: "encoding \<Rightarrow> char \<Rightarrow> bool" where
  "shouldEscape mode c =
     (if unreserved c then False
      else if c \<in> set ''$&+,/:;=?@''
      then (case mode of
              EncodePath \<Rightarrow> c = CHR ''?''
            | EncodePathSegment \<Rightarrow> c \<in> set ''/;,?''
            | EncodeQueryComponent \<Rightarrow> True)
      else True)"

definition escape_char :: "encoding \<Rightarrow> char \<Rightarrow> string" where
  "escape_char mode c =
     (if shouldEscape mode c
      then if c = CHR '' '' \<and> mode = EncodeQueryComponent then ''+''
           else [CHR ''%'', upperhex (ord c div 16), upperhex (ord c mod 16)]
      else [c])"

definition escape :: "encoding \<Rightarrow> string \<Rightarrow> string" where
  "escape mode s = concat (map (escape_char mode) s)"

abbreviation QueryEscape :: "string \<Rightarrow> string" where
  "QueryEscape \<equiv> escape EncodeQueryComponent"

lemma upperhex_ok: "n < 16 \<Longrightarrow> ishex (upperhex n) \<and> unhex (upperhex n) = n"
proof -
  have "list_all (\<lambda>n. ishex (upperhex n) \<and> unhex (upperhex n) = n) [0..<16]" by code_simp
  then show "n < 16 \<Longrightarrow> ?thesis" by (simp add: list_all_iff)
qed

lemma upperhex_unreserved: "n < 16 \<Longrightarrow> unreserved (upperhex n)"
proof -
  have "list_all (\<lambda>n. unreserved (upperhex n)) [0..<16]" by code_simp
  then show "n < 16 \<Longrightarrow> ?thesis" by (simp add: list_all_iff)
qed

lemma unescape_plain:
  "c \<noteq> CHR ''%'' \<Longrightarrow> unescape mode (c # cs) =
     map_option (Cons (if c = CHR ''+'' \<and> mode = EncodeQueryComponent then CHR '' '' else c))
       (unescape mode cs)"
  by (cases "(mode, c # cs)" rule: unescape.cases) simp_all

lemma not_unreserved: "\<not> unreserved (CHR ''%'')" "\<not> unreserved (CHR ''+'')"
  by (simp_all add: unreserved_def is_digit_def less_eq_char_def)

lemma shouldEscape_percent: "shouldEscape mode (CHR ''%'')"
  by (simp add: shouldEscape_def not_unreserved)

lemma shouldEscape_plus: "shouldEscape EncodeQueryComponent (CHR ''+'')"
  by (simp add: shouldEscape_def not_unreserved)

lemma unescape_escape_char:
  "unescape mode (escape_char mode c @ s) = map_option (Cons c) (unescape mode s)"
proof (cases "shouldEscape mode c")
  case False
  then have "c \<noteq> CHR ''%''" and plus: "\<not> (c = CHR ''+'' \<and> mode = EncodeQueryComponent)"
    using shouldEscape_percent shouldEscape_plus by auto
  then have "unescape mode (c # s) = map_option (Cons c) (unescape mode s)"
    using plus \<open>c \<noteq> CHR ''%''\<close> by (simp only: unescape_plain if_False)
  then show ?thesis using False by (simp add: escape_char_def)
next
  case True
  show ?thesis
  proof (cases "c = CHR '' '' \<and> mode = EncodeQueryComponent")
    case True
    with \<open>shouldEscape mode c\<close> show ?thesis by (simp add: escape_char_def)
  next
    case False
    have "ord c div 16 < 16" "ord c mod 16 < 16" using ord_less_256 [of c] by linarith+
    note hex = this [THEN upperhex_ok]
    have "char_of (16 * (ord c div 16) + ord c mod 16) = c" by simp
    with True False hex show ?thesis by (auto simp: escape_char_def)
  qed
qed

lemma unescape_escape: "unescape mode (escape mode s) = Some s"
  by (induction s) (simp_all add: escape_def unescape_escape_char)

lemma set_escape_char:
  "set (escape_char EncodeQueryComponent c) \<subseteq> {c. unreserved c} \<union> set ''%+''"
proof -
  have "ord c div 16 < 16" "ord c mod 16 < 16" using ord_less_256 [of c] by linarith+
  note hex = this [THEN upperhex_unreserved]
  have "\<not> shouldEscape EncodeQueryComponent c \<Longrightarrow> unreserved c"
    by (auto simp: shouldEscape_def split: if_splits)
  then show ?thesis using hex by (simp add: escape_char_def)
qed

lemma set_QueryEscape: "set (QueryEscape s) \<subseteq> {c. unreserved c} \<union> set ''%+''"
  using set_escape_char by (fastforce simp: escape_def)

lemma QueryEscape_safe [go_str]:
  "CHR ''&'' \<notin> set (QueryEscape s)" "CHR ''='' \<notin> set (QueryEscape s)"
  "CHR '';'' \<notin> set (QueryEscape s)" "CHR ''?'' \<notin> set (QueryEscape s)"
  "CHR ''|'' \<notin> set (QueryEscape s)"
  using set_QueryEscape [of s]
  by (auto simp: unreserved_def is_digit_def less_eq_char_def)

section \<open>Reversible encodings\<close>

text \<open>An encoding, its partial inverse, and the separator bytes that never occur in an
  encoded value: what a format that separates encoded fields by those bytes relies on.\<close>

locale codec =
  fixes enc :: "'a \<Rightarrow> string" and dec :: "string \<Rightarrow> 'a option" and seps :: "char set"
  assumes dec_enc: "dec (enc x) = Some x"
    and enc_safe: "d \<in> seps \<Longrightarrow> d \<notin> set (enc x)"
begin

lemma enc_inj: "enc x = enc y \<Longrightarrow> x = y"
  by (metis dec_enc option.inject)

lemma fields_recovered:
  assumes "d \<in> seps" "xs \<noteq> []"
  shows "map dec (Split d (Join (map enc xs) [d])) = map Some xs"
proof -
  have "Split d (Join (map enc xs) [d]) = map enc xs"
    using assms by (intro Split_Join) (auto simp: enc_safe)
  then show ?thesis by (simp add: dec_enc)
qed

lemma pair_recovered: "d \<in> seps \<Longrightarrow> Cut d (enc x @ d # enc y) = (enc x, enc y, True)"
  by (simp add: Cut_found enc_safe)

end

interpretation query_codec: codec QueryEscape QueryUnescape "set ''&=;?|''"
  by unfold_locales (auto simp: unescape_escape QueryEscape_safe)

section \<open>Query strings\<close>

text \<open>\<open>url.Values\<close>: for each key the values in order of appearance.\<close>

type_synonym url_values = "(string \<times> string list) list"

definition add_value :: "string \<Rightarrow> string \<Rightarrow> url_values \<Rightarrow> url_values" where
  "add_value k v m =
     AList.update k (case map_of m k of None \<Rightarrow> [v] | Some vs \<Rightarrow> vs @ [v]) m"

text \<open>One segment between ampersands: nothing, a pair, or an error.\<close>

datatype query_item = QSkip | QPair string string | QBad

definition query_item :: "string \<Rightarrow> query_item" where
  "query_item seg =
     (if Contains seg '';'' then QBad
      else if seg = '''' then QSkip
      else case Cut (CHR ''='') seg of (k, v, _) \<Rightarrow>
        (case QueryUnescape k of
           None \<Rightarrow> QBad
         | Some k' \<Rightarrow> (case QueryUnescape v of None \<Rightarrow> QBad | Some v' \<Rightarrow> QPair k' v')))"

text \<open>The loop of \<open>url.ParseQuery\<close>: an error is remembered and the loop goes on. The
  second component says whether \<open>err\<close> is non-nil at the end.\<close>

fun parse_items :: "query_item list \<Rightarrow> url_values \<Rightarrow> bool \<Rightarrow> url_values \<times> bool" where
  "parse_items [] m err = (m, err)"
| "parse_items (QSkip # is) m err = parse_items is m err"
| "parse_items (QBad # is) m err = parse_items is m True"
| "parse_items (QPair k v # is) m err = parse_items is (add_value k v m) err"

definition ParseQuery :: "string \<Rightarrow> url_values \<times> bool" where
  "ParseQuery q = parse_items (map query_item (Split (CHR ''&'') q)) [] False"

text \<open>The pairs of a query in order, and whether it has an ill-formed segment.\<close>

fun item_pairs :: "query_item list \<Rightarrow> (string \<times> string) list" where
  "item_pairs [] = []"
| "item_pairs (QPair k v # is) = (k, v) # item_pairs is"
| "item_pairs (_ # is) = item_pairs is"

definition query_pairs :: "string \<Rightarrow> (string \<times> string) list" where
  "query_pairs q = item_pairs (map query_item (Split (CHR ''&'') q))"

definition query_bad :: "string \<Rightarrow> bool" where
  "query_bad q \<longleftrightarrow> QBad \<in> set (map query_item (Split (CHR ''&'') q))"

definition values_of :: "url_values \<Rightarrow> string \<Rightarrow> string list" where
  "values_of m k = (case map_of m k of None \<Rightarrow> [] | Some vs \<Rightarrow> vs)"

lemma parse_items_err: "snd (parse_items is m err) \<longleftrightarrow> err \<or> QBad \<in> set is"
  by (induction "is" m err rule: parse_items.induct) auto

lemma ParseQuery_err: "snd (ParseQuery q) \<longleftrightarrow> query_bad q"
  by (simp add: ParseQuery_def parse_items_err query_bad_def)

lemma add_value_facts [simp]:
  "set (map fst (add_value k v m)) = insert k (set (map fst m))"
  "distinct_keys m \<Longrightarrow> distinct_keys (add_value k v m)"
  "values_of (add_value k v m) j = values_of m j @ (if j = k then [v] else [])"
  by (simp_all add: add_value_def values_of_def dom_update distinct_update split: option.split)

lemma parse_items_values:
  "values_of (fst (parse_items is m err)) k
     = values_of m k @ map snd (filter (\<lambda>p. fst p = k) (item_pairs is))"
  by (induction "is" m err rule: parse_items.induct) auto

lemma parse_items_keys:
  "set (map fst (fst (parse_items is m err))) = set (map fst m) \<union> fst ` set (item_pairs is)"
  by (induction "is" m err rule: parse_items.induct) (auto simp del: set_map)

lemma parse_items_distinct:
  "distinct_keys m \<Longrightarrow> distinct_keys (fst (parse_items is m err))"
  by (induction "is" m err rule: parse_items.induct) simp_all

lemma ParseQuery_values:
  "values_of (fst (ParseQuery q)) k = map snd (filter (\<lambda>p. fst p = k) (query_pairs q))"
  by (simp add: ParseQuery_def parse_items_values query_pairs_def) (simp add: values_of_def)

lemma ParseQuery_keys: "set (map fst (fst (ParseQuery q))) = fst ` set (query_pairs q)"
  unfolding ParseQuery_def query_pairs_def by (subst parse_items_keys) simp

lemma ParseQuery_distinct: "distinct_keys (fst (ParseQuery q))"
  by (simp add: ParseQuery_def parse_items_distinct)

section \<open>Cleaning paths\<close>

text \<open>
  \<open>path.Clean\<close> by segments: empty and \<open>.\<close> segments vanish, a \<open>..\<close> segment removes the
  one before it, a \<open>..\<close> at the start is dropped from a rooted path and kept in a relative
  one. The stack holds the kept segments, the last one first.
\<close>

definition clean_seg :: "bool \<Rightarrow> string \<Rightarrow> string list \<Rightarrow> string list" where
  "clean_seg rooted seg st =
     (if seg = '''' \<or> seg = ''.'' then st
      else if seg = ''..''
      then (case st of
              [] \<Rightarrow> if rooted then [] else [''..'']
            | seg' # below \<Rightarrow> if seg' = ''..'' then ''..'' # st else below)
      else seg # st)"

definition clean_segs :: "string \<Rightarrow> string list" where
  "clean_segs p = rev (fold (clean_seg (HasPrefix p ''/'')) (Split (CHR ''/'') p) [])"

definition Clean :: "string \<Rightarrow> string" where
  "Clean p =
     (if p = '''' then ''.''
      else if HasPrefix p ''/'' then CHR ''/'' # Join (clean_segs p) ''/''
      else if clean_segs p = [] then ''.''
      else Join (clean_segs p) ''/'')"

definition plain_seg :: "string \<Rightarrow> bool" where
  "plain_seg s \<longleftrightarrow> s \<noteq> '''' \<and> s \<noteq> ''.'' \<and> s \<noteq> ''..'' \<and> CHR ''/'' \<notin> set s"

lemma clean_seg_plain:
  "list_all plain_seg st \<Longrightarrow> CHR ''/'' \<notin> set seg \<Longrightarrow> list_all plain_seg (clean_seg True seg st)"
  by (auto simp: clean_seg_def plain_seg_def split: list.splits)

lemma fold_clean_plain:
  "list_all plain_seg st \<Longrightarrow> (\<And>s. s \<in> set segs \<Longrightarrow> CHR ''/'' \<notin> set s)
     \<Longrightarrow> list_all plain_seg (fold (clean_seg True) segs st)"
  by (induction segs arbitrary: st) (simp_all add: clean_seg_plain)

lemma clean_segs_plain: "HasPrefix p ''/'' \<Longrightarrow> list_all plain_seg (clean_segs p)"
  by (simp add: clean_segs_def fold_clean_plain Split_no_sep)

text \<open>Plain segments survive cleaning unchanged.\<close>

lemma fold_clean_id:
  "list_all plain_seg segs \<Longrightarrow> fold (clean_seg r) segs st = rev segs @ st"
  by (induction segs arbitrary: st) (auto simp: clean_seg_def plain_seg_def)

end
