(* ===== verification/Normalize.thy ===== *)
theory Normalize
  imports GoUrl
begin

text \<open>
  \<open>proxy/internal/normalize/normalize.go\<close>: the normal forms of path, query and
  Accept-Encoding header, and the cache key built from them. Shown here: which requests
  share a normal form, that normal forms are stable where they are, and that no rooted
  path keeps a dot segment.
\<close>

section \<open>Path\<close>

definition decode_path :: "string \<Rightarrow> string" where
  "decode_path p = (case PathUnescape p of None \<Rightarrow> p | Some decoded \<Rightarrow> decoded)"

definition Path :: "string \<Rightarrow> string" where
  "Path p =
     (if p = '''' then ''/''
      else
        let decoded = decode_path p;
            cleaned = Clean decoded;
            cleaned = (if \<not> HasPrefix cleaned ''/'' then ''/'' @ cleaned else cleaned)
        in if HasSuffix p ''/'' \<and> \<not> HasSuffix cleaned ''/'' \<and> cleaned \<noteq> ''/''
           then cleaned @ ''/'' else cleaned)"

section \<open>Query\<close>

definition Query :: "string \<Rightarrow> string" where
  "Query q =
     (if q = '''' then ''''
      else
        let q = TrimPrefix q ''?'';
            (vals, err) = ParseQuery q
        in if err then q
           else
             let keys = sort (map fst vals);
                 parts = concat (map (\<lambda>k. map (\<lambda>v. QueryEscape k @ ''='' @ QueryEscape v)
                                             (sort (values_of vals k))) keys)
             in Join parts ''&'')"

section \<open>Accept-Encoding\<close>

definition AcceptEncoding :: "string \<Rightarrow> string" where
  "AcceptEncoding ae =
     (if ae = '''' then ''identity''
      else
        let parts = Split (CHR '','') (ToLower ae);
            encodings = filter (\<lambda>enc. enc \<noteq> '''')
                          (map (\<lambda>p. TrimSpace (hd (Split (CHR '';'') p))) parts)
        in Join (sort encodings) '','')"

section \<open>Cache key\<close>

definition CacheKey :: "string \<Rightarrow> string \<Rightarrow> string \<Rightarrow> string \<Rightarrow> string \<Rightarrow> string" where
  "CacheKey method host reqPath query acceptEncoding =
     (let m = ToUpper method;
          m = (if m = ''HEAD'' then ''GET'' else m);
          h = ToLower host;
          p = Path reqPath;
          q = Query query;
          ae = AcceptEncoding acceptEncoding
      in m @ ''|'' @ h @ ''|'' @ p @ ''|'' @ q @ ''|'' @ ae)"

section \<open>Lemmas on paths\<close>

lemma Clean_rooted: "HasPrefix p ''/'' \<Longrightarrow> Clean p = CHR ''/'' # Join (clean_segs p) ''/''"
  by (auto simp: Clean_def HasPrefix_def)

lemma Join_plain_last:
  "list_all plain_seg segs \<Longrightarrow> segs \<noteq> [] \<Longrightarrow> Join segs ''/'' \<noteq> [] \<and> last (Join segs ''/'') \<noteq> CHR ''/''"
proof (induction segs)
  case (Cons s segs)
  show ?case
  proof (cases "segs = []")
    case True
    with Cons.prems show ?thesis by (auto simp: plain_seg_def dest: last_in_set)
  next
    case False
    with Cons show ?thesis by (simp add: Join_Cons)
  qed
qed simp

lemma not_HasSuffix_rooted:
  assumes "list_all plain_seg segs" "segs \<noteq> []"
  shows "\<not> HasSuffix (CHR ''/'' # Join segs ''/'') ''/''"
  using Join_plain_last [OF assms] by (simp add: HasSuffix_char)

text \<open>The result of \<^const>\<open>Path\<close> for a rooted path, in terms of the kept segments.\<close>

lemma Path_rooted:
  assumes "HasPrefix (decode_path p) ''/''"
  shows "Path p = CHR ''/'' # Join (clean_segs (decode_path p)) ''/''
           @ (if HasSuffix p ''/'' \<and> clean_segs (decode_path p) \<noteq> [] then ''/'' else '''')"
proof -
  let ?segs = "clean_segs (decode_path p)"
  have "p \<noteq> ''''" using assms by (auto simp: decode_path_def HasPrefix_def)
  moreover have "list_all plain_seg ?segs" using assms by (rule clean_segs_plain)
  ultimately show ?thesis using assms
    by (cases "?segs = []")
      (auto simp: Path_def Clean_rooted HasPrefix_char HasSuffix_char Join_plain_last)
qed

lemma Path_starts_slash: "HasPrefix (Path p) ''/''"
  by (auto simp: Path_def Let_def HasPrefix_char)

lemma clean_segs_Join:
  assumes "list_all plain_seg segs"
  shows "clean_segs (CHR ''/'' # Join segs ''/'') = segs"
    and "segs \<noteq> [] \<Longrightarrow> clean_segs (CHR ''/'' # Join segs ''/'' @ ''/'') = segs"
proof -
  have no: "s \<in> set segs \<Longrightarrow> CHR ''/'' \<notin> set s" for s
    using assms by (auto simp: list_all_iff plain_seg_def)
  have no': "s \<in> set (segs @ ['''']) \<Longrightarrow> CHR ''/'' \<notin> set s" for s
    using no by auto
  have empty: "clean_seg True '''' st = st" for st by (simp add: clean_seg_def)
  have root: "HasPrefix (CHR ''/'' # s) ''/''" for s by (simp add: HasPrefix_def)
  show "clean_segs (CHR ''/'' # Join segs ''/'') = segs"
  proof (cases "segs = []")
    case False
    then show ?thesis
      using Split_Join [OF False no] fold_clean_id [OF assms, of True "[]"]
      by (simp add: clean_segs_def root empty)
  qed (simp add: clean_segs_def root empty)
  assume ne: "segs \<noteq> []"
  have "Join (segs @ ['''']) ''/'' = Join segs ''/'' @ ''/''"
    using ne by (simp add: Join_snoc)
  then have "Split (CHR ''/'') (Join segs ''/'' @ ''/'') = segs @ ['''']"
    using Split_Join [of "segs @ ['''']" "CHR ''/''", OF _ no'] by simp
  then show "clean_segs (CHR ''/'' # Join segs ''/'' @ ''/'') = segs"
    using fold_clean_id [OF assms, of True "[]"] by (simp add: clean_segs_def root empty)
qed

text \<open>The segments of such a result.\<close>

lemma Split_rooted:
  assumes "list_all plain_seg segs"
  shows "Split (CHR ''/'') (CHR ''/'' # Join segs ''/'' @ (if b \<and> segs \<noteq> [] then ''/'' else ''''))
    = [] # (if segs = [] then [[]] else segs @ (if b then [[]] else []))"
proof -
  have no: "s \<in> set segs \<Longrightarrow> CHR ''/'' \<notin> set s" for s
    using assms by (auto simp: list_all_iff plain_seg_def)
  then show ?thesis
    using Split_Join [of segs "CHR ''/''"] by (auto simp: Split_append)
qed

lemma unescape_no_percent: "CHR ''%'' \<notin> set s \<Longrightarrow> PathUnescape s = Some s"
  by (induction s) (auto simp: unescape_plain)

lemma decode_path_no_percent: "CHR ''%'' \<notin> set s \<Longrightarrow> decode_path s = s"
  by (simp add: decode_path_def unescape_no_percent)

lemma Path_fixpoint:
  assumes "list_all plain_seg segs"
    and p: "p = CHR ''/'' # Join segs ''/'' @ (if b \<and> segs \<noteq> [] then ''/'' else '''')"
    and "CHR ''%'' \<notin> set p"
  shows "Path p = p"
proof -
  have d: "decode_path p = p" using assms(3) by (rule decode_path_no_percent)
  have root: "HasPrefix p ''/''" by (simp add: p HasPrefix_def)
  have segs: "clean_segs p = segs" using clean_segs_Join [OF assms(1)] by (auto simp: p)
  have suffix: "HasSuffix p ''/'' \<and> segs \<noteq> [] \<longleftrightarrow> b \<and> segs \<noteq> []"
    using Join_plain_last [OF assms(1)] by (auto simp: p HasSuffix_char)
  have "Path p = CHR ''/'' # Join segs ''/'' @ (if HasSuffix p ''/'' \<and> segs \<noteq> [] then ''/'' else '''')"
    using Path_rooted [of p] root by (simp add: d segs)
  then show ?thesis unfolding suffix using p by simp
qed

text \<open>Normalised rooted paths have plain segments only.\<close>

lemma Path_plain:
  assumes "HasPrefix (decode_path p) ''/''"
  shows "HasPrefix (Path p) ''/'' \<and> ''.'' \<notin> set (Split (CHR ''/'') (Path p))
    \<and> ''..'' \<notin> set (Split (CHR ''/'') (Path p)) \<and> \<not> Contains (Path p) ''//''"
proof -
  let ?segs = "clean_segs (decode_path p)"
  have plain: "list_all plain_seg ?segs" using assms by (rule clean_segs_plain)
  have split: "Split (CHR ''/'') (Path p) = [] # (if ?segs = [] then [[]]
      else ?segs @ (if HasSuffix p ''/'' then [[]] else []))"
    unfolding Path_rooted [OF assms] by (rule Split_rooted [OF plain])
  have "\<not> Contains (Path p) ''//''"
  proof
    assume "Contains (Path p) ''//''"
    then obtain a b where "Path p = a @ CHR ''/'' # CHR ''/'' # b"
      by (auto simp: Contains_iff)
    then have "[] \<in> set (butlast (tl (Split (CHR ''/'') (Path p))))"
      by (cases "Split (CHR ''/'') a") (auto simp: Split_append butlast_append)
    then show False using plain
      by (auto simp: split butlast_append list_all_iff plain_seg_def split: if_splits dest: in_set_butlastD)
  qed
  then show ?thesis using plain Path_starts_slash
    by (auto simp: split list_all_iff plain_seg_def)
qed

lemma decode_path_rooted: "HasPrefix p ''/'' \<Longrightarrow> HasPrefix (decode_path p) ''/''"
  by (cases p) (auto simp: decode_path_def HasPrefix_def split: option.splits)

section \<open>Lemmas on queries\<close>














section \<open>Lemmas on Accept-Encoding\<close>

text \<open>The encodings a header names, in order, without their parameters.\<close>

definition ae_tokens :: "string \<Rightarrow> string list" where
  "ae_tokens ae =
     filter (\<lambda>enc. enc \<noteq> '''')
       (map (\<lambda>p. TrimSpace (hd (Split (CHR '';'') p))) (Split (CHR '','') (ToLower ae)))"

lemma AcceptEncoding_tokens: "ae \<noteq> '''' \<Longrightarrow> AcceptEncoding ae = Join (sort (ae_tokens ae)) '',''"
  by (simp add: AcceptEncoding_def ae_tokens_def)

lemma hd_Split_no: "d \<notin> set (hd (Split d s))"
  using Split_no_sep [of "hd (Split d s)" d s] by simp

lemma hd_Split_subset: "set (hd (Split d s)) \<subseteq> set s"
  using Split_subset [of "hd (Split d s)" d s] by simp

lemma ToLower_subset: "c \<in> set (ToLower s) \<Longrightarrow> ascii_lower c = c"
  by (auto simp: ToLower_def)

lemma ae_token_shape:
  assumes "t \<in> set (ae_tokens ae)"
  shows "t \<noteq> ''''" "CHR '','' \<notin> set t" "CHR '';'' \<notin> set t" "TrimSpace t = t" "ToLower t = t"
proof -
  obtain p where p: "p \<in> set (Split (CHR '','') (ToLower ae))"
    and t: "t = TrimSpace (hd (Split (CHR '';'') p))" and "t \<noteq> ''''"
    using assms by (auto simp: ae_tokens_def)
  have sub: "set t \<subseteq> set (hd (Split (CHR '';'') p))" unfolding t by (rule TrimSpace_subset)
  show "t \<noteq> ''''" by fact
  show "CHR '','' \<notin> set t" using sub hd_Split_subset Split_no_sep [OF p] by blast
  show "CHR '';'' \<notin> set t" using sub hd_Split_no by blast
  show "TrimSpace t = t" by (simp add: t)
  have "set t \<subseteq> set (ToLower ae)" using sub hd_Split_subset Split_subset [OF p] by blast
  then show "ToLower t = t"
    unfolding ToLower_def [of t] by (intro map_idI) (auto dest: ToLower_subset)
qed

lemma Join_tokens_lower:
  "(\<And>t. t \<in> set ts \<Longrightarrow> ToLower t = t) \<Longrightarrow> ToLower (Join ts '','') = Join ts '',''"
proof (induction ts)
  case (Cons t ts)
  have "ascii_lower (CHR '','') = CHR '',''" by code_simp
  with Cons show ?case by (cases "ts = []") (simp_all add: Join_Cons ToLower_def)
qed (simp add: ToLower_def)

lemma Join_eq_Nil: "ts \<noteq> [] \<Longrightarrow> (\<And>t. t \<in> set ts \<Longrightarrow> t \<noteq> []) \<Longrightarrow> Join ts sep \<noteq> []"
  by (induction ts sep rule: Join.induct) auto

lemma sorted_tokens_ne: "ae_tokens ae \<noteq> [] \<Longrightarrow> sort (ae_tokens ae) \<noteq> []"
  by (metis set_empty set_sort)

lemma Split_sorted_tokens:
  "ae_tokens ae \<noteq> [] \<Longrightarrow>
   Split (CHR '','') (Join (sort (ae_tokens ae)) '','') = sort (ae_tokens ae)"
  by (intro Split_Join sorted_tokens_ne) (auto simp: ae_token_shape)

lemma tokens_of_normal_form:
  assumes "ae_tokens ae \<noteq> []"
  shows "ae_tokens (Join (sort (ae_tokens ae)) '','') = sort (ae_tokens ae)"
proof -
  have "map (\<lambda>p. TrimSpace (hd (Split (CHR '';'') p))) (sort (ae_tokens ae)) = sort (ae_tokens ae)"
    by (rule map_idI) (simp add: Split_no ae_token_shape)
  moreover have "filter (\<lambda>t. t \<noteq> '''') (sort (ae_tokens ae)) = sort (ae_tokens ae)"
    by (rule filter_True) (simp add: ae_token_shape)
  moreover have "ToLower (Join (sort (ae_tokens ae)) '','') = Join (sort (ae_tokens ae)) '',''"
    by (rule Join_tokens_lower) (simp add: ae_token_shape(5))
  ultimately show ?thesis
    unfolding ae_tokens_def [of "Join (sort (ae_tokens ae)) '',''"]
    by (simp only: Split_sorted_tokens [OF assms])
qed

lemma joined_tokens_eq_iff:
  "Join (sort (ae_tokens a)) '','' = Join (sort (ae_tokens b)) '',''
     \<longleftrightarrow> sort (ae_tokens a) = sort (ae_tokens b)"
proof
  assume eq: "Join (sort (ae_tokens a)) '','' = Join (sort (ae_tokens b)) '',''"
  have ne: "Join (sort (ae_tokens x)) '','' \<noteq> []" if "ae_tokens x \<noteq> []" for x
    using sorted_tokens_ne [OF that] by (rule Join_eq_Nil) (auto simp: ae_token_shape)
  show "sort (ae_tokens a) = sort (ae_tokens b)"
  proof (cases "ae_tokens a = [] \<or> ae_tokens b = []")
    case True
    with eq ne show ?thesis by (metis Join.simps(1) sort_key_simps(1))
  next
    case False
    then show ?thesis using eq Split_sorted_tokens by metis
  qed
qed simp

section \<open>Properties\<close>

text \<open>No dot segment survives. When the once-decoded path is rooted, the normalised path
  starts with a slash, has no \<open>.\<close> and no \<open>..\<close> segment and no double slash, whatever
  the client sent.\<close>

theorem Path_no_dot_segments:
  assumes "HasPrefix (decode_path p) ''/''"
  shows "HasPrefix (Path p) ''/'' \<and> ''.'' \<notin> set (Split (CHR ''/'') (Path p))
    \<and> ''..'' \<notin> set (Split (CHR ''/'') (Path p)) \<and> \<not> Contains (Path p) ''//''"
  by (rule Path_plain [OF assms])

theorem Path_no_dot_segments_witness:
  "HasPrefix (decode_path ''/a/%2e%2e//../b/'') ''/''
   \<and> ''..'' \<notin> set (Split (CHR ''/'') (Path ''/a/%2e%2e//../b/''))"
proof -
  have h: "HasPrefix (decode_path ''/a/%2e%2e//../b/'') ''/''" by code_simp
  show ?thesis using h Path_no_dot_segments [OF h] by blast
qed

text \<open>Normalisation is stable. A rooted path whose normal form has no percent sign
  left is not changed by normalising it again.\<close>

theorem Path_idempotent:
  assumes "HasPrefix (decode_path p) ''/''" and "CHR ''%'' \<notin> set (Path p)"
  shows "Path (Path p) = Path p"
  by (rule Path_fixpoint [OF clean_segs_plain [OF assms(1)] Path_rooted [OF assms(1)] assms(2)])

theorem Path_idempotent_witness:
  "HasPrefix (decode_path ''/a//b/%2E/c/'') ''/'' \<and> CHR ''%'' \<notin> set (Path ''/a//b/%2E/c/'')
   \<and> Path (Path ''/a//b/%2E/c/'') = Path ''/a//b/%2E/c/''"
proof -
  have h: "HasPrefix (decode_path ''/a//b/%2E/c/'') ''/''" by code_simp
  have n: "CHR ''%'' \<notin> set (Path ''/a//b/%2E/c/'')" by code_simp
  show ?thesis using h n Path_idempotent [OF h n] by blast
qed

text \<open>Where the percent sign does survive, every further call decodes once more: a
  doubly encoded dot segment is text after the first call and is resolved by the
  second, which is the one \<open>CacheKey\<close> makes.\<close>

theorem Path_decodes_on_every_call:
  "Path ''/%252e%252e/x'' = ''/%2e%2e/x'' \<and> Path (Path ''/%252e%252e/x'') = ''/x''"
  by code_simp

text \<open>A path that is not rooted keeps a leading \<open>..\<close> (or \<open>.\<close>) segment, since the
  slash is put in front after the cleaning.\<close>

theorem Path_relative_keeps_dots:
  "Path ''../etc/passwd'' = ''/../etc/passwd'' \<and> Path ''.'' = ''/.''"
  by code_simp





text \<open>Two Accept-Encoding headers get the same normal form exactly when they name the same
  encodings with the same multiplicities; letter case, order, spaces and parameters do
  not count.\<close>

theorem AcceptEncoding_same_iff:
  assumes "a \<noteq> ''''" "b \<noteq> ''''"
  shows "AcceptEncoding a = AcceptEncoding b \<longleftrightarrow> mset (ae_tokens a) = mset (ae_tokens b)"
  using assms by (simp add: AcceptEncoding_tokens joined_tokens_eq_iff sort_eq_mset_iff)

theorem AcceptEncoding_same_iff_witness:
  "AcceptEncoding ''br;q=0.8, gzip;q=1.0'' = AcceptEncoding ''GZIP , BR''"
proof -
  have "ae_tokens ''br;q=0.8, gzip;q=1.0'' = [''br'', ''gzip'']" by code_simp
  moreover have "ae_tokens ''GZIP , BR'' = [''gzip'', ''br'']" by code_simp
  ultimately have m: "mset (ae_tokens ''br;q=0.8, gzip;q=1.0'') = mset (ae_tokens ''GZIP , BR'')"
    by simp
  have ne: "''br;q=0.8, gzip;q=1.0'' \<noteq> ''''" "''GZIP , BR'' \<noteq> ''''" by simp_all
  show ?thesis using m AcceptEncoding_same_iff [OF ne] by blast
qed

text \<open>The normal form of Accept-Encoding is stable as long as the header names an encoding
  at all (the header \<open>,\<close> has the empty normal form, whose own normal form is
  \<open>identity\<close>).\<close>

theorem AcceptEncoding_idempotent:
  assumes "ae_tokens ae \<noteq> []"
  shows "AcceptEncoding (AcceptEncoding ae) = AcceptEncoding ae"
proof -
  have "ae \<noteq> ''''" using assms by (auto simp: ae_tokens_def ToLower_def TrimSpace_def)
  moreover have "Join (sort (ae_tokens ae)) '','' \<noteq> []"
    using sorted_tokens_ne [OF assms] by (rule Join_eq_Nil) (auto simp: ae_token_shape)
  ultimately show ?thesis
    by (simp add: AcceptEncoding_tokens tokens_of_normal_form [OF assms])
qed

theorem AcceptEncoding_idempotent_witness:
  "ae_tokens '',GZIP;q=0,br'' \<noteq> []
   \<and> AcceptEncoding (AcceptEncoding '',GZIP;q=0,br'') = AcceptEncoding '',GZIP;q=0,br''"
proof -
  have h: "ae_tokens '',GZIP;q=0,br'' \<noteq> []" by code_simp
  show ?thesis using h AcceptEncoding_idempotent [OF h] by blast
qed

end
