(* ===== verification/Http.thy ===== *)
theory Http
  imports GoUrl
begin

text \<open>
  The parts of Go's \<open>net/http\<close> that the handlers see: headers, requests with their body
  readers, and the response writer. The contract every \<open>http.ResponseWriter\<close> keeps is
  the locale \<open>response_writer\<close>, interpreted here on the server's own writer and in
  \<open>Middleware\<close> on the wrapper of the access log.
\<close>

section \<open>Headers\<close>

text \<open>\<open>http.Header\<close>: a Go map from canonical names to lists of values.\<close>

type_synonym header = "(string \<times> string list) list"

definition validHeaderFieldByte :: "char \<Rightarrow> bool" where
  "validHeaderFieldByte c \<longleftrightarrow> is_digit c \<or> (CHR ''a'' \<le> c \<and> c \<le> CHR ''z'')
     \<or> (CHR ''A'' \<le> c \<and> c \<le> CHR ''Z'') \<or> c \<in> set ''!#$%&*+-.^_|~`'' \<or> c = CHR 0x27"

fun canonical_from :: "bool \<Rightarrow> string \<Rightarrow> string" where
  "canonical_from upper [] = []"
| "canonical_from upper (c # cs) =
     (let d = (if upper then ascii_upper c else ascii_lower c)
      in d # canonical_from (d = CHR ''-'') cs)"

definition CanonicalHeaderKey :: "string \<Rightarrow> string" where
  "CanonicalHeaderKey k = (if list_all validHeaderFieldByte k then canonical_from True k else k)"

definition header_Get :: "header \<Rightarrow> string \<Rightarrow> string" where
  "header_Get h k =
     (case map_of h (CanonicalHeaderKey k) of Some (v # _) \<Rightarrow> v | _ \<Rightarrow> '''')"

definition header_Set :: "string \<Rightarrow> string \<Rightarrow> header \<Rightarrow> header" where
  "header_Set k v h = AList.update (CanonicalHeaderKey k) [v] h"

definition header_Add :: "string \<Rightarrow> string \<Rightarrow> header \<Rightarrow> header" where
  "header_Add k v h =
     AList.update (CanonicalHeaderKey k)
       ((case map_of h (CanonicalHeaderKey k) of None \<Rightarrow> [] | Some vs \<Rightarrow> vs) @ [v]) h"

lemma header_Get_Set:
  "header_Get (header_Set k v h) j
     = (if CanonicalHeaderKey j = CanonicalHeaderKey k then v else header_Get h j)"
  by (simp add: header_Get_def header_Set_def)

lemma header_Get_Set_same [simp]: "header_Get (header_Set k v h) k = v"
  by (simp add: header_Get_Set)

lemma distinct_header_Set [simp]: "distinct_keys h \<Longrightarrow> distinct_keys (header_Set k v h)"
  by (simp add: header_Set_def distinct_update)

lemma distinct_header_Add [simp]: "distinct_keys h \<Longrightarrow> distinct_keys (header_Add k v h)"
  by (simp add: header_Add_def distinct_update)

section \<open>URLs and requests\<close>

record url =
  u_Scheme :: string
  u_Opaque :: string
  u_User :: "string option"
  u_Host :: string
  u_Path :: string
  u_RawPath :: string
  u_RawQuery :: string

text \<open>A request body is a reader: it delivers its bytes and then ends, or fails.\<close>

record body_reader =
  br_data :: string
  br_fails :: bool

record request =
  r_Method :: string
  r_URL :: url
  r_Host :: string
  r_Header :: header
  r_RemoteAddr :: string
  r_ContentLength :: int
  r_Body :: "body_reader option"
  r_TLS :: bool
  r_RequestID :: "string option"  \<comment> \<open>the value of the context under \<open>RequestIDKey\<close>\<close>

text \<open>\<open>io.ReadAll(io.LimitReader(b, n))\<close>: a reader that is cut off at the limit does not
  get to report its failure. \<open>None\<close> is the error.\<close>

definition read_limited :: "int \<Rightarrow> body_reader \<Rightarrow> string option" where
  "read_limited n b =
     (if int (length (br_data b)) < n \<and> br_fails b then None
      else Some (take (nat n) (br_data b)))"

definition read_all :: "body_reader \<Rightarrow> string option" where
  "read_all b = (if br_fails b then None else Some (br_data b))"

section \<open>The response writer\<close>

text \<open>
  The server's writer: the header map the handler edits, the status once written, the
  header that went out with it, the body. \<open>WriteHeader\<close> panics on a code outside 100..999,
  sends an interim response for 1xx codes other than 101, and does nothing once the status
  is out. \<open>Write\<close> sends status 200 first if none was sent; it drops the bytes where the
  status or a HEAD request allows no body.
\<close>

record response =
  rw_Header :: header
  rw_Status :: "int option"
  rw_Sent :: header
  rw_Body :: string
  rw_HEAD :: bool

definition new_response :: "bool \<Rightarrow> response" where
  "new_response head = \<lparr>rw_Header = [], rw_Status = None, rw_Sent = [], rw_Body = [], rw_HEAD = head\<rparr>"

text \<open>A call that returns or panics, with the state of the writer at that point.\<close>

datatype 'w call = Returns 'w | Panics 'w

fun and_then :: "'w call \<Rightarrow> ('w \<Rightarrow> 'w call) \<Rightarrow> 'w call" where
  "and_then (Returns w) f = f w"
| "and_then (Panics w) f = Panics w"

definition rw_set :: "string \<Rightarrow> string \<Rightarrow> response \<Rightarrow> response" where
  "rw_set k v w = w\<lparr>rw_Header := header_Set k v (rw_Header w)\<rparr>"

definition rw_add :: "string \<Rightarrow> string \<Rightarrow> response \<Rightarrow> response" where
  "rw_add k v w = w\<lparr>rw_Header := header_Add k v (rw_Header w)\<rparr>"

definition WriteHeader :: "int \<Rightarrow> response \<Rightarrow> response call" where
  "WriteHeader code w =
     (if rw_Status w \<noteq> None then Returns w
      else if code < 100 \<or> 999 < code then Panics w
      else if 100 \<le> code \<and> code \<le> 199 \<and> code \<noteq> 101 then Returns w
      else Returns (w\<lparr>rw_Status := Some code, rw_Sent := rw_Header w\<rparr>))"

definition bodyAllowedForStatus :: "int \<Rightarrow> bool" where
  "bodyAllowedForStatus code \<longleftrightarrow> \<not> (100 \<le> code \<and> code \<le> 199) \<and> code \<noteq> 204 \<and> code \<noteq> 304"

definition Write :: "string \<Rightarrow> response \<Rightarrow> response" where
  "Write b w =
     (let w = (if rw_Status w = None then w\<lparr>rw_Status := Some 200, rw_Sent := rw_Header w\<rparr> else w)
      in if bodyAllowedForStatus (the (rw_Status w)) \<and> \<not> rw_HEAD w
         then w\<lparr>rw_Body := rw_Body w @ b\<rparr> else w)"

subsection \<open>The interface\<close>

text \<open>\<open>http.ResponseWriter\<close> as a method table; \<open>w.Header()\<close> is used to set, to add and to
  read.\<close>

record 'w ResponseWriter =
  wo_Header :: "'w \<Rightarrow> header"
  wo_Set :: "string \<Rightarrow> string \<Rightarrow> 'w \<Rightarrow> 'w"
  wo_Add :: "string \<Rightarrow> string \<Rightarrow> 'w \<Rightarrow> 'w"
  wo_WriteHeader :: "int \<Rightarrow> 'w \<Rightarrow> 'w call"
  wo_Write :: "string \<Rightarrow> 'w \<Rightarrow> 'w"

definition server_Writer :: "response ResponseWriter" where
  "server_Writer =
     \<lparr>wo_Header = rw_Header, wo_Set = rw_set, wo_Add = rw_add, wo_WriteHeader = WriteHeader, wo_Write = Write\<rparr>"

text \<open>\<open>WriteHeader\<close> followed by one \<open>Write\<close>, and \<open>http.Error(w, msg, code)\<close>.\<close>

definition respond :: "'w ResponseWriter \<Rightarrow> int \<Rightarrow> string \<Rightarrow> 'w \<Rightarrow> 'w call" where
  "respond W code b w = and_then (wo_WriteHeader W code w) (\<lambda>w. Returns (wo_Write W b w))"

definition http_Error :: "'w ResponseWriter \<Rightarrow> string \<Rightarrow> int \<Rightarrow> 'w \<Rightarrow> 'w call" where
  "http_Error W msg code w =
     respond W code (msg @ [CHR 0x0A])
       (wo_Set W ''X-Content-Type-Options'' ''nosniff''
         (wo_Set W ''Content-Type'' ''text/plain; charset=utf-8'' w))"

text \<open>What a handler may rely on, whichever writer it was handed: setting headers sends
  nothing, the first final status stays, and body bytes are only ever appended. A valid
  final code does not panic.\<close>

locale response_writer =
  fixes W :: "'w ResponseWriter" and status :: "'w \<Rightarrow> int option" and body :: "'w \<Rightarrow> string"
  assumes set_frame: "status (wo_Set W k v w) = status w" "body (wo_Set W k v w) = body w"
    and add_frame: "status (wo_Add W k v w) = status w" "body (wo_Add W k v w) = body w"
    and header_no_body: "wo_WriteHeader W code w \<in> {Returns w', Panics w'} \<Longrightarrow> body w' = body w"
    and status_kept: "wo_WriteHeader W code w \<in> {Returns w', Panics w'} \<Longrightarrow> status w = Some s \<Longrightarrow> status w' = Some s"
    and panic_no_status: "wo_WriteHeader W code w = Panics w' \<Longrightarrow> status w' = status w"
    and valid_code: "200 \<le> code \<Longrightarrow> code \<le> 999 \<Longrightarrow> \<exists>w'. wo_WriteHeader W code w = Returns w'
          \<and> status w' = Some (case status w of None \<Rightarrow> code | Some s \<Rightarrow> s)"
    and write_status: "status (wo_Write W b w) = Some (case status w of None \<Rightarrow> 200 | Some s \<Rightarrow> s)"
    and write_body: "\<exists>c. body (wo_Write W b w) = body w @ c \<and> (c = b \<or> c = [])"
begin

lemma respond_status:
  assumes "200 \<le> code" "code \<le> 999"
  shows "\<exists>w'. respond W code b w = Returns w' \<and> status w' = Some (case status w of None \<Rightarrow> code | Some s \<Rightarrow> s)"
proof -
  obtain w' where "wo_WriteHeader W code w = Returns w'"
      "status w' = Some (case status w of None \<Rightarrow> code | Some s \<Rightarrow> s)"
    using valid_code [OF assms] by blast
  then show ?thesis using write_status [of b w'] by (simp add: respond_def)
qed

lemma error_status:
  assumes "200 \<le> code" "code \<le> 999"
  shows "\<exists>w'. http_Error W msg code w = Returns w' \<and> status w' = Some (case status w of None \<Rightarrow> code | Some s \<Rightarrow> s)"
  using respond_status [OF assms, of "msg @ [CHR 0x0A]"] by (metis http_Error_def set_frame(1))

text \<open>The body after a response is what was there, followed by the new bytes or by nothing.\<close>

lemma respond_body:
  assumes "respond W code b w = Returns w'"
  shows "body w' = body w \<or> body w' = body w @ b"
proof (cases "wo_WriteHeader W code w")
  case (Returns v)
  then have "w' = wo_Write W b v" "body v = body w"
    using assms header_no_body [of code w v] by (simp_all add: respond_def)
  then show ?thesis using write_body [of b v] by auto
qed (use assms in \<open>simp add: respond_def\<close>)

end

interpretation server_writer: response_writer server_Writer rw_Status rw_Body
  by unfold_locales
    (auto simp: server_Writer_def rw_set_def rw_add_def WriteHeader_def Write_def Let_def
      split: if_splits option.splits)

lemma rw_set_status [simp]: "rw_Status (rw_set k v w) = rw_Status w"
  and rw_set_body [simp]: "rw_Body (rw_set k v w) = rw_Body w"
  and rw_add_status [simp]: "rw_Status (rw_add k v w) = rw_Status w"
  and rw_add_body [simp]: "rw_Body (rw_add k v w) = rw_Body w"
  by (simp_all add: rw_set_def rw_add_def)

lemma server_Writer_simps [simp]:
  "wo_Set server_Writer = rw_set" "wo_Add server_Writer = rw_add" "wo_Header server_Writer = rw_Header"
  "wo_WriteHeader server_Writer = WriteHeader" "wo_Write server_Writer = Write"
  by (simp_all add: server_Writer_def)

end
