(* ===== verification/CacheStore.thy ===== *)
theory CacheStore
  imports Http "HOL-Library.While_Combinator"
begin

text \<open>
  \<open>proxy/internal/cache/cache.go\<close>: cached entries, the \<open>Backend\<close> interface and its
  in-memory LRU implementation. Every operation runs under the backend's mutex, so an
  execution is a sequence of whole operations, whichever goroutines call them.

  The container list is a list of (address, item) pairs, the most recently used first;
  the map of the backend holds addresses of list elements. The invariant \<open>mb_inv\<close> ties
  the two together, \<open>mb_abs\<close> forgets the addresses, and the abstract LRU list is what
  the operations are shown to implement.
\<close>

section \<open>Entries and statistics\<close>

record cache_entry =
  e_Key :: string
  e_StatusCode :: int
  e_Headers :: header
  e_Body :: string
  e_StoredAt :: instant
  e_TTL :: duration
  e_Size :: int

definition IsExpired :: "instant \<Rightarrow> cache_entry \<Rightarrow> bool" where
  "IsExpired now e \<longleftrightarrow> time_since now (e_StoredAt e) > e_TTL e"

record cache_stats =
  st_Entries :: int
  st_SizeBytes :: int
  st_MaxEntries :: int
  st_MaxBytes :: int
  st_Hits :: int
  st_Misses :: int
  st_Bypasses :: int
  st_Stores :: int
  st_Evictions :: int

section \<open>The memory backend\<close>

record lru_item =
  it_key :: string
  it_entry :: cache_entry

type_synonym elem_addr = nat

record memory_backend =
  maxEntries :: int
  maxBytes :: int
  items :: "(string \<times> elem_addr) list"
  evictList :: "(elem_addr \<times> lru_item) list"
  sizeBytes :: int
  hits :: int
  misses :: int
  bypasses :: int
  stores :: int
  evictions :: int
  next_elem :: elem_addr  \<comment> \<open>the allocator: the address of the next list element\<close>

definition NewMemoryBackend :: "int \<Rightarrow> int \<Rightarrow> memory_backend" where
  "NewMemoryBackend maxE maxB =
     \<lparr>maxEntries = maxE, maxBytes = maxB, items = [], evictList = [], sizeBytes = 0,
      hits = 0, misses = 0, bypasses = 0, stores = 0, evictions = 0, next_elem = 0\<rparr>"

text \<open>\<open>elem.Value\<close> of the element at an address; \<open>None\<close> would be an address that is not
  in the list, which the invariant excludes.\<close>

abbreviation elem_Value :: "memory_backend \<Rightarrow> elem_addr \<Rightarrow> lru_item option" where
  "elem_Value m \<equiv> map_of (evictList m)"

definition removeElement :: "elem_addr \<Rightarrow> memory_backend \<Rightarrow> memory_backend" where
  "removeElement elem m =
     (case elem_Value m elem of
        None \<Rightarrow> m
      | Some item \<Rightarrow>
          let size = sizeBytes m - e_Size (it_entry item)
          in m\<lparr>items := AList.delete (it_key item) (items m),
               evictList := AList.delete elem (evictList m),
               sizeBytes := (if size < 0 then 0 else size)\<rparr>)"

definition evictOldest :: "memory_backend \<Rightarrow> memory_backend" where
  "evictOldest m =
     (if evictList m = [] then m
      else let m = removeElement (fst (last (evictList m))) m
           in m\<lparr>evictions := evictions m + 1\<rparr>)"

definition MoveToFront :: "elem_addr \<Rightarrow> memory_backend \<Rightarrow> memory_backend" where
  "MoveToFront elem m =
     (case elem_Value m elem of
        None \<Rightarrow> m
      | Some item \<Rightarrow> m\<lparr>evictList := (elem, item) # AList.delete elem (evictList m)\<rparr>)"

definition Get :: "instant \<Rightarrow> string \<Rightarrow> memory_backend \<Rightarrow> cache_entry option \<times> memory_backend" where
  "Get now key m =
     (case map_of (items m) key of
        None \<Rightarrow> (None, m\<lparr>misses := misses m + 1\<rparr>)
      | Some elem \<Rightarrow>
          (case elem_Value m elem of
             None \<Rightarrow> (None, m)
           | Some item \<Rightarrow>
               if IsExpired now (it_entry item)
               then let m = removeElement elem m in (None, m\<lparr>misses := misses m + 1\<rparr>)
               else let m = MoveToFront elem m
                    in (Some (it_entry item), m\<lparr>hits := hits m + 1\<rparr>)))"

text \<open>The guard of the eviction loop, and the loop. It ends with \<open>Some\<close>, or it runs
  forever (with the mutex held) and \<open>while_option\<close> gives \<open>None\<close>.\<close>

definition needs_room :: "cache_entry \<Rightarrow> memory_backend \<Rightarrow> bool" where
  "needs_room entry m \<longleftrightarrow>
     int (length (evictList m)) \<ge> maxEntries m
     \<or> (sizeBytes m + e_Size entry > maxBytes m \<and> length (evictList m) > 0)"

definition evict_loop :: "cache_entry \<Rightarrow> memory_backend \<Rightarrow> memory_backend option" where
  "evict_loop entry m = while_option (needs_room entry) evictOldest m"

definition push_entry :: "string \<Rightarrow> cache_entry \<Rightarrow> memory_backend \<Rightarrow> memory_backend" where
  "push_entry key entry m =
     m\<lparr>evictList := (next_elem m, \<lparr>it_key = key, it_entry = entry\<rparr>) # evictList m,
       items := AList.update key (next_elem m) (items m),
       sizeBytes := sizeBytes m + e_Size entry,
       stores := stores m + 1,
       next_elem := next_elem m + 1\<rparr>"

definition SetEntry :: "string \<Rightarrow> cache_entry \<Rightarrow> memory_backend \<Rightarrow> memory_backend option" where
  "SetEntry key entry m =
     (let m = (case map_of (items m) key of Some elem \<Rightarrow> removeElement elem m | None \<Rightarrow> m)
      in map_option (push_entry key entry) (evict_loop entry m))"

definition Delete :: "string \<Rightarrow> memory_backend \<Rightarrow> bool \<times> memory_backend" where
  "Delete key m =
     (case map_of (items m) key of
        None \<Rightarrow> (False, m)
      | Some elem \<Rightarrow> (True, removeElement elem m))"

text \<open>\<open>splitCacheKey\<close>: the loop over the bytes, with the start of the current part.\<close>

function split_loop :: "string \<Rightarrow> nat \<Rightarrow> nat \<Rightarrow> string list \<Rightarrow> string list" where
  "split_loop key start i parts =
     (if i < length key
      then if key ! i = CHR ''|''
           then split_loop key (i + 1) (i + 1) (parts @ [take (i - start) (drop start key)])
           else split_loop key start (i + 1) parts
      else parts @ [drop start key])"
  by pat_completeness auto
termination by (relation "measure (\<lambda>(key, start, i, parts). length key - i)") auto

declare split_loop.simps [simp del]

definition splitCacheKey :: "string \<Rightarrow> string list" where
  "splitCacheKey key = split_loop key 0 0 []"

definition containsPrefix :: "string \<Rightarrow> string \<Rightarrow> bool" where
  "containsPrefix key pre =
     (let parts = splitCacheKey key
      in if length parts < 3 then False
         else let path = parts ! 2
              in length path \<ge> length pre \<and> take (length pre) path = pre)"

definition pathMatches :: "string \<Rightarrow> string \<Rightarrow> bool" where
  "pathMatches key path =
     (let parts = splitCacheKey key in length parts \<ge> 3 \<and> parts ! 2 = path)"

text \<open>The two bulk deletions: collect the elements whose key matches while ranging over
  the map, then remove them one by one, counting.\<close>

definition to_remove :: "(string \<Rightarrow> bool) \<Rightarrow> memory_backend \<Rightarrow> elem_addr list" where
  "to_remove P m =
     map snd (filter (\<lambda>(k, elem). case elem_Value m elem of None \<Rightarrow> False
                                  | Some item \<Rightarrow> P (it_key item)) (items m))"

fun remove_all :: "elem_addr list \<Rightarrow> int \<Rightarrow> memory_backend \<Rightarrow> int \<times> memory_backend" where
  "remove_all [] n m = (n, m)"
| "remove_all (elem # es) n m = remove_all es (n + 1) (removeElement elem m)"

definition DeleteByPrefix :: "string \<Rightarrow> memory_backend \<Rightarrow> int \<times> memory_backend" where
  "DeleteByPrefix pre m = remove_all (to_remove (\<lambda>key. containsPrefix key pre) m) 0 m"

definition DeleteByPath :: "string \<Rightarrow> memory_backend \<Rightarrow> int \<times> memory_backend" where
  "DeleteByPath path m = remove_all (to_remove (\<lambda>key. pathMatches key path) m) 0 m"

definition Purge :: "memory_backend \<Rightarrow> int \<times> memory_backend" where
  "Purge m = (int (length (evictList m)), m\<lparr>items := [], evictList := [], sizeBytes := 0\<rparr>)"

definition Stats :: "memory_backend \<Rightarrow> cache_stats" where
  "Stats m =
     \<lparr>st_Entries = int (length (evictList m)), st_SizeBytes = sizeBytes m,
      st_MaxEntries = maxEntries m, st_MaxBytes = maxBytes m, st_Hits = hits m,
      st_Misses = misses m, st_Bypasses = bypasses m, st_Stores = stores m,
      st_Evictions = evictions m\<rparr>"

definition Len :: "memory_backend \<Rightarrow> int" where
  "Len m = int (length (evictList m))"

definition IncrementBypasses :: "memory_backend \<Rightarrow> memory_backend" where
  "IncrementBypasses m = m\<lparr>bypasses := bypasses m + 1\<rparr>"

section \<open>Keys\<close>

text \<open>The hand-written loop splits like \<open>strings.Split\<close>.\<close>

lemma split_loop_eq:
  "start \<le> i \<Longrightarrow> i \<le> length key \<Longrightarrow> CHR ''|'' \<notin> set (take (i - start) (drop start key)) \<Longrightarrow>
   split_loop key start i parts = parts @ Split (CHR ''|'') (drop start key)"
proof (induction key start i parts rule: split_loop.induct)
  case (1 key start i parts)
  let ?part = "take (i - start) (drop start key)"
  show ?case
  proof (cases "i < length key")
    case False
    then have "?part = drop start key" using 1 by simp
    then show ?thesis using False 1 by (simp add: split_loop.simps [of key] Split_no)
  next
    case True
    have rest: "drop start key = ?part @ key ! i # drop (i + 1) key"
      using 1 True by (metis Cons_nth_drop_Suc Suc_eq_plus1 append_take_drop_id drop_drop le_add_diff_inverse2)
    show ?thesis
    proof (cases "key ! i = CHR ''|''")
      case bar: True
      have "split_loop key start i parts = parts @ ?part # Split (CHR ''|'') (drop (i + 1) key)"
        using 1 True bar by (simp add: split_loop.simps [of key start])
      also have "?part # Split (CHR ''|'') (drop (i + 1) key) = Split (CHR ''|'') (drop start key)"
        using 1 bar by (subst rest) (simp add: Split_append_sep)
      finally show ?thesis by simp
    next
      case False
      have "take (i + 1 - start) (drop start key) = ?part @ [key ! i]"
        using 1 True by (simp add: Suc_diff_le take_Suc_conv_app_nth)
      then show ?thesis using 1 True False by (simp add: split_loop.simps [of key start])
    qed
  qed
qed

lemma splitCacheKey_eq: "splitCacheKey key = Split (CHR ''|'') key"
  by (simp add: splitCacheKey_def split_loop_eq)

lemma containsPrefix_iff:
  "containsPrefix key pre \<longleftrightarrow>
     length (splitCacheKey key) \<ge> 3 \<and> HasPrefix (splitCacheKey key ! 2) pre"
  by (auto simp: containsPrefix_def HasPrefix_def Let_def dest: arg_cong [where f = length])

section \<open>The invariant\<close>

definition list_size :: "(elem_addr \<times> lru_item) list \<Rightarrow> int" where
  "list_size l = (\<Sum>x\<leftarrow>l. e_Size (it_entry (snd x)))"

definition mb_inv :: "memory_backend \<Rightarrow> bool" where
  "mb_inv m \<longleftrightarrow>
     distinct_keys (items m) \<and> distinct_keys (evictList m)
     \<and> (\<forall>k p. map_of (items m) k = Some p \<longleftrightarrow> (\<exists>it. elem_Value m p = Some it \<and> it_key it = k))
     \<and> sizeBytes m = list_size (evictList m)
     \<and> (\<forall>x \<in> set (evictList m). 0 \<le> e_Size (it_entry (snd x)))
     \<and> (\<forall>x \<in> set (evictList m). fst x < next_elem m)"

definition mb_abs :: "memory_backend \<Rightarrow> (string \<times> cache_entry) list" where
  "mb_abs m = map (\<lambda>x. (it_key (snd x), it_entry (snd x))) (evictList m)"

definition lookup :: "memory_backend \<Rightarrow> string \<Rightarrow> cache_entry option" where
  "lookup m = map_of (mb_abs m)"

lemma mb_invD:
  assumes "mb_inv m"
  shows "distinct_keys (items m)" "distinct_keys (evictList m)"
    "map_of (items m) k = Some p \<longleftrightarrow> (\<exists>it. elem_Value m p = Some it \<and> it_key it = k)"
    "sizeBytes m = list_size (evictList m)"
    "x \<in> set (evictList m) \<Longrightarrow> 0 \<le> e_Size (it_entry (snd x))"
    "x \<in> set (evictList m) \<Longrightarrow> fst x < next_elem m"
  using assms unfolding mb_inv_def by blast+

lemma mb_inv_new [cache_inv]: "mb_inv (NewMemoryBackend maxE maxB)"
  by (simp add: mb_inv_def NewMemoryBackend_def list_size_def)

lemma list_size_delete:
  "distinct_keys l \<Longrightarrow> map_of l p = Some it \<Longrightarrow>
   list_size (AList.delete p l) = list_size l - e_Size (it_entry it)"
proof (induction l)
  case (Cons x l)
  obtain q it' where x: "x = (q, it')" by (cases x)
  show ?case
  proof (cases "q = p")
    case True
    then have "p \<notin> fst ` set l" using Cons.prems x by auto
    then have "AList.delete p l = l" by (simp add: delete_id)
    with True Cons.prems x show ?thesis by (simp add: list_size_def)
  qed (use Cons x in \<open>auto simp: list_size_def\<close>)
qed simp

lemma list_size_nonneg: "(\<And>x. x \<in> set l \<Longrightarrow> 0 \<le> e_Size (it_entry (snd x))) \<Longrightarrow> 0 \<le> list_size l"
  unfolding list_size_def by (rule sum_list_nonneg_int)


text \<open>What \<open>removeElement\<close> does on an element of the list; the clamp at zero is idle.\<close>

lemma removeElement_eq:
  assumes "mb_inv m" "elem_Value m p = Some it"
  shows "removeElement p m = m\<lparr>items := AList.delete (it_key it) (items m),
           evictList := AList.delete p (evictList m),
           sizeBytes := list_size (AList.delete p (evictList m))\<rparr>"
proof -
  note inv = mb_invD [OF assms(1)]
  have size: "sizeBytes m - e_Size (it_entry it) = list_size (AList.delete p (evictList m))"
    using list_size_delete [OF inv(2) assms(2)] inv(4) by simp
  have "0 \<le> list_size (AList.delete p (evictList m))"
    by (rule list_size_nonneg) (rule inv(5), auto simp: delete_filter)
  then show ?thesis by (simp add: removeElement_def assms(2) size)
qed

lemma removeElement_none: "elem_Value m p = None \<Longrightarrow> removeElement p m = m"
  by (simp add: removeElement_def)

lemma key_unique:
  assumes "mb_inv m" "elem_Value m p = Some it" "elem_Value m q = Some it'" "it_key it = it_key it'"
  shows "p = q"
proof -
  have "map_of (items m) (it_key it) = Some p" "map_of (items m) (it_key it) = Some q"
    using mb_invD(3) [OF assms(1)] assms by auto
  then show ?thesis by simp
qed

lemma removeElement_inv [cache_inv]:
  assumes "mb_inv m"
  shows "mb_inv (removeElement p m)"
proof (cases "elem_Value m p")
  case None
  with assms show ?thesis by (simp add: removeElement_none)
next
  case (Some it)
  note inv = mb_invD [OF assms]
  have agree: "((map_of (items m))(it_key it := None)) k = Some q \<longleftrightarrow>
      (\<exists>it'. ((elem_Value m)(p := None)) q = Some it' \<and> it_key it' = k)" for k q
  proof (cases "k = it_key it")
    case True
    then show ?thesis by (auto dest: key_unique [OF assms Some])
  next
    case False
    then show ?thesis using inv(3) [of k q] Some by auto
  qed
  have sub: "x \<in> set (AList.delete p (evictList m)) \<Longrightarrow> x \<in> set (evictList m)" for x
    by (auto simp: delete_filter)
  show ?thesis
    unfolding mb_inv_def removeElement_eq [OF assms Some]
    using inv(1,2) agree
    by (simp add: distinct_delete del: fun_upd_apply) (blast intro: inv(5,6) dest: sub)
qed

lemma elem_Value_set:
  "mb_inv m \<Longrightarrow> elem_Value m p = Some it \<longleftrightarrow> (p, it) \<in> set (evictList m)"
  by (simp add: mb_invD(2))

lemma removeElement_abs:
  assumes "mb_inv m" "elem_Value m p = Some it"
  shows "mb_abs (removeElement p m) = AList.delete (it_key it) (mb_abs m)"
proof -
  have "fst x \<noteq> p \<longleftrightarrow> it_key (snd x) \<noteq> it_key it" if "x \<in> set (evictList m)" for x
    using that key_unique [OF assms(1,2)] elem_Value_set [OF assms(1)] assms(2)
    by (metis option.inject prod.collapse)
  then have "filter (\<lambda>x. fst x \<noteq> p) (evictList m)
      = filter (\<lambda>x. it_key (snd x) \<noteq> it_key it) (evictList m)"
    by (intro filter_cong) auto
  then show ?thesis
    by (simp add: mb_abs_def removeElement_eq [OF assms] delete_filter filter_map comp_def)
qed

lemma abs_distinct:
  assumes "mb_inv m"
  shows "distinct_keys (mb_abs m)"
proof -
  have "inj_on (\<lambda>x. it_key (snd x)) (set (evictList m))"
    using key_unique [OF assms] elem_Value_set [OF assms] mb_invD(2) [OF assms]
    by (intro inj_onI) (metis option.inject prod.collapse)
  then show ?thesis
    using mb_invD(2) [OF assms] by (simp add: mb_abs_def comp_def distinct_map)
qed

lemma items_lookup:
  assumes "mb_inv m"
  shows "map_of (items m) k = Some p \<Longrightarrow>
      \<exists>it. elem_Value m p = Some it \<and> it_key it = k \<and> map_of (mb_abs m) k = Some (it_entry it)"
    and "map_of (items m) k = None \<Longrightarrow> map_of (mb_abs m) k = None"
proof -
  assume "map_of (items m) k = Some p"
  then obtain it where it: "elem_Value m p = Some it" "it_key it = k"
    using mb_invD(3) [OF assms] by blast
  then have "(k, it_entry it) \<in> set (mb_abs m)"
    using elem_Value_set [OF assms] by (force simp: mb_abs_def)
  then show "\<exists>it. elem_Value m p = Some it \<and> it_key it = k \<and> map_of (mb_abs m) k = Some (it_entry it)"
    using it abs_distinct [OF assms] by auto
next
  assume none: "map_of (items m) k = None"
  have "k \<noteq> it_key (snd x)" if "x \<in> set (evictList m)" for x
    using that none mb_invD(3) [OF assms, of k "fst x"] elem_Value_set [OF assms, of "fst x" "snd x"]
    by auto
  then show "map_of (mb_abs m) k = None"
    by (auto simp: mb_abs_def map_of_eq_None_iff) blast
qed

end
