(* ===== verification/CacheLru.thy ===== *)
theory CacheLru
  imports CacheStore
begin

text \<open>
  What the memory backend promises, stated on the plain list of (key, entry) pairs from
  the most to the least recently used, and the lemmas that each operation of
  \<open>CacheStore\<close> implements its abstract counterpart and keeps the invariant.
\<close>

section \<open>The abstract LRU list\<close>

type_synonym lru = "(string \<times> cache_entry) list"

definition lru_size :: "lru \<Rightarrow> int" where
  "lru_size L = (\<Sum>x\<leftarrow>L. e_Size (snd x))"

definition lru_get :: "instant \<Rightarrow> string \<Rightarrow> lru \<Rightarrow> cache_entry option \<times> lru" where
  "lru_get now key L =
     (case map_of L key of
        None \<Rightarrow> (None, L)
      | Some e \<Rightarrow> if IsExpired now e then (None, AList.delete key L)
                  else (Some e, (key, e) # AList.delete key L))"

text \<open>The first \<open>n\<close> entries can stay next to a new entry \<open>e\<close>.\<close>

definition lru_fits :: "int \<Rightarrow> int \<Rightarrow> cache_entry \<Rightarrow> lru \<Rightarrow> nat \<Rightarrow> bool" where
  "lru_fits maxE maxB e L n \<longleftrightarrow>
     int n < maxE \<and> (n = 0 \<or> lru_size (take n L) + e_Size e \<le> maxB)"

text \<open>The largest such number up to a bound (zero if there is none).\<close>

primrec lru_keep :: "(nat \<Rightarrow> bool) \<Rightarrow> nat \<Rightarrow> nat" where
  "lru_keep fits 0 = 0"
| "lru_keep fits (Suc n) = (if fits (Suc n) then Suc n else lru_keep fits n)"

definition lru_set :: "int \<Rightarrow> int \<Rightarrow> string \<Rightarrow> cache_entry \<Rightarrow> lru \<Rightarrow> lru" where
  "lru_set maxE maxB key e L =
     (let rest = AList.delete key L
      in (key, e) # take (lru_keep (lru_fits maxE maxB e rest) (length rest)) rest)"

lemma lru_keep_le: "lru_keep fits n \<le> n"
  by (induction n) (auto intro: le_SucI)

lemma lru_keep_fits: "fits 0 \<Longrightarrow> fits (lru_keep fits n)"
  by (induction n) auto

lemma lru_keep_max: "lru_keep fits n < j \<Longrightarrow> j \<le> n \<Longrightarrow> \<not> fits j"
  by (induction n) (auto simp: le_Suc_eq split: if_splits)

lemma lru_keep_cong: "(\<And>j. j \<le> n \<Longrightarrow> f j = g j) \<Longrightarrow> lru_keep f n = lru_keep g n"
  by (induction n) auto

section \<open>Get\<close>

lemma MoveToFront_inv:
  assumes "mb_inv m"
  shows "mb_inv (MoveToFront p m)"
proof (cases "elem_Value m p")
  case None
  with assms show ?thesis by (simp add: MoveToFront_def)
next
  case (Some it)
  note inv = mb_invD [OF assms]
  let ?l = "(p, it) # AList.delete p (evictList m)"
  have same: "map_of ?l = elem_Value m" using Some by (auto simp: fun_eq_iff)
  have "set ?l = set (evictList m)"
    using Some elem_Value_set [OF assms] inv(2) by (auto simp: delete_filter dest: map_of_SomeD)
      (metis elem_Value_set [OF assms] option.inject)
  moreover have "list_size ?l = list_size (evictList m)"
    using list_size_delete [OF inv(2) Some] by (simp add: list_size_def)
  moreover have "distinct_keys ?l"
    using inv(2) by (auto simp: delete_filter distinct_map_filter)
  ultimately show ?thesis
    using assms same unfolding mb_inv_def MoveToFront_def Some by (simp del: map_of.simps)
qed

lemma MoveToFront_abs:
  assumes "mb_inv m" "elem_Value m p = Some it"
  shows "mb_abs (MoveToFront p m) = (it_key it, it_entry it) # AList.delete (it_key it) (mb_abs m)"
  using removeElement_abs [OF assms]
  by (simp add: MoveToFront_def assms(2) mb_abs_def removeElement_eq [OF assms])

lemma counters_inv [simp]:
  "mb_inv (m\<lparr>hits := h\<rparr>) = mb_inv m" "mb_inv (m\<lparr>misses := i\<rparr>) = mb_inv m"
  "mb_inv (m\<lparr>bypasses := j\<rparr>) = mb_inv m" "mb_inv (m\<lparr>stores := k\<rparr>) = mb_inv m"
  "mb_inv (m\<lparr>evictions := l\<rparr>) = mb_inv m"
  by (simp_all add: mb_inv_def)

lemma counters_abs [simp]:
  "mb_abs (m\<lparr>hits := h\<rparr>) = mb_abs m" "mb_abs (m\<lparr>misses := i\<rparr>) = mb_abs m"
  "mb_abs (m\<lparr>bypasses := j\<rparr>) = mb_abs m" "mb_abs (m\<lparr>stores := k\<rparr>) = mb_abs m"
  "mb_abs (m\<lparr>evictions := l\<rparr>) = mb_abs m"
  by (simp_all add: mb_abs_def)

lemma Get_inv [cache_inv]: "mb_inv m \<Longrightarrow> mb_inv (snd (Get now key m))"
  by (simp add: Get_def Let_def removeElement_inv MoveToFront_inv split: option.split)

lemma Get_refines:
  assumes "mb_inv m"
  shows "lru_get now key (mb_abs m) = (fst (Get now key m), mb_abs (snd (Get now key m)))"
proof (cases "map_of (items m) key")
  case None
  then show ?thesis using items_lookup(2) [OF assms] by (simp add: Get_def lru_get_def)
next
  case (Some p)
  then obtain it where it: "elem_Value m p = Some it" "it_key it = key"
    and abs: "map_of (mb_abs m) key = Some (it_entry it)"
    using items_lookup(1) [OF assms] by blast
  show ?thesis
    using removeElement_abs [OF assms it(1)] MoveToFront_abs [OF assms it(1)]
    by (simp add: Get_def lru_get_def Some it abs Let_def)
qed

section \<open>Set\<close>

lemma sizeBytes_abs: "mb_inv m \<Longrightarrow> sizeBytes m = lru_size (mb_abs m)"
  by (simp add: mb_invD(4) list_size_def lru_size_def mb_abs_def comp_def)

lemma length_abs [simp]: "length (mb_abs m) = length (evictList m)"
  by (simp add: mb_abs_def)

lemma needs_room_iff:
  "mb_inv m \<Longrightarrow> maxEntries m \<ge> 1 \<Longrightarrow>
   needs_room e m \<longleftrightarrow> \<not> lru_fits (maxEntries m) (maxBytes m) e (mb_abs m) (length (mb_abs m))"
  by (auto simp: needs_room_def lru_fits_def sizeBytes_abs)

lemma removeElement_frame [frame]:
  "maxEntries (removeElement p m) = maxEntries m" "maxBytes (removeElement p m) = maxBytes m"
  "hits (removeElement p m) = hits m" "misses (removeElement p m) = misses m"
  "bypasses (removeElement p m) = bypasses m" "stores (removeElement p m) = stores m"
  "next_elem (removeElement p m) = next_elem m"
  by (simp_all add: removeElement_def Let_def split: option.split)

lemma evictOldest_frame [frame]:
  "maxEntries (evictOldest m) = maxEntries m" "maxBytes (evictOldest m) = maxBytes m"
  "hits (evictOldest m) = hits m" "misses (evictOldest m) = misses m"
  "bypasses (evictOldest m) = bypasses m" "stores (evictOldest m) = stores m"
  "next_elem (evictOldest m) = next_elem m"
  by (simp_all add: evictOldest_def frame Let_def)

lemma evictOldest_inv [cache_inv]: "mb_inv m \<Longrightarrow> mb_inv (evictOldest m)"
  by (simp add: evictOldest_def removeElement_inv Let_def)

lemma delete_last:
  "distinct_keys L \<Longrightarrow> L \<noteq> [] \<Longrightarrow> AList.delete (fst (last L)) L = butlast L"
proof (induction L rule: rev_induct)
  case (snoc x L)
  then have "fst x \<notin> fst ` set L" by simp
  then have "\<forall>y \<in> set L. fst y \<noteq> fst x" by (metis image_eqI)
  then show ?case by (simp add: delete_filter filter_id_conv)
qed simp

lemma evictOldest_abs: 
  assumes "mb_inv m"
  shows "mb_abs (evictOldest m) = butlast (mb_abs m)"
proof (cases "evictList m = []")
  case True
  then show ?thesis by (simp add: evictOldest_def mb_abs_def)
next
  case False
  have "elem_Value m (fst (last (evictList m))) = Some (snd (last (evictList m)))"
    using False elem_Value_set [OF assms] by simp
  from removeElement_abs [OF assms this]
  have "mb_abs (evictOldest m) = AList.delete (fst (last (mb_abs m))) (mb_abs m)"
    using False by (simp add: evictOldest_def mb_abs_def last_map Let_def)
  also have "\<dots> = butlast (mb_abs m)"
    using False by (intro delete_last abs_distinct [OF assms]) (simp add: mb_abs_def)
  finally show ?thesis .
qed

lemma evict_loop_unfold:
  "evict_loop e m = (if needs_room e m then evict_loop e (evictOldest m) else Some m)"
  unfolding evict_loop_def by (rule while_option_unfold)

lemma evict_loop_stop: "\<not> needs_room e m \<Longrightarrow> evict_loop e m = Some m"
  and evict_loop_step: "needs_room e m \<Longrightarrow> evict_loop e m = evict_loop e (evictOldest m)"
  by (subst evict_loop_unfold, simp)+

text \<open>With room for at least one entry the loop ends, with the longest prefix that fits.\<close>

lemma evict_loop_total:
  assumes "mb_inv m" "maxEntries m \<ge> 1"
  shows "\<exists>m'. evict_loop e m = Some m' \<and> mb_inv m' \<and> maxEntries m' = maxEntries m
    \<and> maxBytes m' = maxBytes m \<and> hits m' = hits m \<and> misses m' = misses m
    \<and> bypasses m' = bypasses m \<and> stores m' = stores m \<and> next_elem m' = next_elem m
    \<and> mb_abs m' = take (lru_keep (lru_fits (maxEntries m) (maxBytes m) e (mb_abs m))
                          (length (mb_abs m))) (mb_abs m)"
  using assms
proof (induction "length (mb_abs m)" arbitrary: m)
  case 0
  then have "\<not> needs_room e m" by (simp add: needs_room_def)
  with 0 show ?case by (simp add: evict_loop_stop mb_abs_def)
next
  case (Suc n)
  let ?fits = "lru_fits (maxEntries m) (maxBytes m) e (mb_abs m)"
  show ?case
  proof (cases "needs_room e m")
    case False
    then have "?fits (Suc n)" using Suc by (simp add: needs_room_iff del: length_abs)
    then show ?thesis
      using Suc.prems False by (simp add: evict_loop_stop Suc.hyps(2) [symmetric] del: length_abs)
  next
    case True
    let ?m = "evictOldest m"
    have inv: "mb_inv ?m" "maxEntries ?m \<ge> 1"
      using Suc.prems by (simp_all add: evictOldest_inv frame)
    have abs: "mb_abs ?m = take n (mb_abs m)"
      using evictOldest_abs [OF Suc.prems(1)] Suc.hyps(2) [symmetric] by (simp add: butlast_conv_take)
    have len: "n = length (mb_abs ?m)"
      using Suc.hyps(2) [symmetric] unfolding abs by simp
    have "\<not> ?fits (length (mb_abs m))"
      using True Suc.prems by (simp add: needs_room_iff)
    then have keep: "lru_keep ?fits (length (mb_abs m)) = lru_keep ?fits n"
      unfolding Suc.hyps(2) [symmetric] by simp
    have same: "lru_keep (lru_fits (maxEntries m) (maxBytes m) e (take n (mb_abs m))) n = lru_keep ?fits n"
      by (rule lru_keep_cong) (simp add: lru_fits_def)
    have le: "lru_keep ?fits n \<le> n" by (rule lru_keep_le)
    obtain m' where m': "evict_loop e ?m = Some m'" "mb_inv m'"
        "mb_abs m' = take (lru_keep (lru_fits (maxEntries ?m) (maxBytes ?m) e (mb_abs ?m))
                          (length (mb_abs ?m))) (mb_abs ?m)"
      and fr: "maxEntries m' = maxEntries ?m" "maxBytes m' = maxBytes ?m" "hits m' = hits ?m"
        "misses m' = misses ?m" "bypasses m' = bypasses ?m" "stores m' = stores ?m"
        "next_elem m' = next_elem ?m"
      using Suc.hyps(1) [OF len inv] by blast
    have len': "length (take n (mb_abs m)) = n" using len abs by metis
    have "mb_abs m' = take (lru_keep ?fits n) (take n (mb_abs m))"
      using m'(3) by (simp only: frame abs len' same)
    then have "mb_abs m' = take (lru_keep ?fits (length (mb_abs m))) (mb_abs m)"
      using le by (simp only: take_take keep min_def if_True)
    then show ?thesis
      using m' fr True by (simp add: evict_loop_step frame)
  qed
qed

text \<open>With no room for any entry the guard never fails: the list is at least as long as a
  bound that is zero or negative.\<close>

lemma evict_loop_diverges:
  assumes "maxEntries m \<le> 0"
  shows "evict_loop e m = None"
proof -
  have "maxEntries ((evictOldest ^^ k) m) = maxEntries m" for k
    by (induction k) (simp_all add: frame)
  then have "needs_room e ((evictOldest ^^ k) m)" for k
    using assms by (simp add: needs_room_def)
  then show ?thesis by (simp add: evict_loop_def while_option_def)
qed

lemma push_entry_inv:
  assumes "mb_inv m" "0 \<le> e_Size e" "map_of (mb_abs m) key = None"
  shows "mb_inv (push_entry key e m)"
proof -
  note inv = mb_invD [OF assms(1)]
  have fresh: "elem_Value m (next_elem m) = None"
    using inv(6) by (force simp: map_of_eq_None_iff)
  have nokey: "map_of (items m) key = None"
    using items_lookup(1) [OF assms(1), of key] assms(3) by (cases "map_of (items m) key") force+
  have noitem: "elem_Value m p = Some it \<Longrightarrow> it_key it \<noteq> key" for p it
    using inv(3) [of "it_key it" p] nokey by auto
  have agree: "((map_of (items m))(key \<mapsto> next_elem m)) k = Some p \<longleftrightarrow>
      (\<exists>it. ((elem_Value m)(next_elem m \<mapsto> \<lparr>it_key = key, it_entry = e\<rparr>)) p = Some it \<and> it_key it = k)" for k p
    using inv(3) [of k p] fresh noitem [of p] by (cases "k = key"; cases "p = next_elem m") auto
  have "next_elem m \<notin> fst ` set (evictList m)"
    using fresh by (simp add: map_of_eq_None_iff)
  then show ?thesis
    using inv(1,2,4,5,6) agree assms(2)
    unfolding mb_inv_def push_entry_def
    by (auto simp: distinct_update list_size_def less_SucI)
qed

lemma push_entry_abs: "mb_abs (push_entry key e m) = (key, e) # mb_abs m"
  by (simp add: mb_abs_def push_entry_def)

lemma push_entry_frame [frame]:
  "maxEntries (push_entry key e m) = maxEntries m" "maxBytes (push_entry key e m) = maxBytes m"
  "hits (push_entry key e m) = hits m" "misses (push_entry key e m) = misses m"
  "bypasses (push_entry key e m) = bypasses m" "stores (push_entry key e m) = stores m + 1"
  by (simp_all add: push_entry_def)

text \<open>The entry that \<open>Set\<close> starts from: the old one under the key is gone.\<close>

lemma drop_old:
  fixes key :: string
  assumes "mb_inv m"
  defines "m1 \<equiv> (case map_of (items m) key of Some elem \<Rightarrow> removeElement elem m | None \<Rightarrow> m)"
  shows "mb_inv m1" "mb_abs m1 = AList.delete key (mb_abs m)"
    "maxEntries m1 = maxEntries m" "maxBytes m1 = maxBytes m" "hits m1 = hits m"
    "misses m1 = misses m" "bypasses m1 = bypasses m" "stores m1 = stores m"
proof -
  show "mb_abs m1 = AList.delete key (mb_abs m)"
  proof (cases "map_of (items m) key")
    case None
    then have "key \<notin> fst ` set (mb_abs m)"
      using items_lookup(2) [OF assms(1)] by (simp add: map_of_eq_None_iff)
    with None show ?thesis by (simp add: m1_def delete_id)
  next
    case (Some p)
    then show ?thesis
      using items_lookup(1) [OF assms(1) Some] removeElement_abs [OF assms(1)] by (auto simp: m1_def)
  qed
qed (use assms(1) in \<open>auto simp: m1_def removeElement_inv frame split: option.split\<close>)

text \<open>With a positive entry bound \<open>Set\<close> returns, implements \<open>lru_set\<close> and keeps the
  invariant.\<close>

lemma SetEntry_refines:
  assumes "mb_inv m" "maxEntries m \<ge> 1" "0 \<le> e_Size e"
  shows "\<exists>m'. SetEntry key e m = Some m' \<and> mb_inv m' \<and> maxEntries m' = maxEntries m
    \<and> maxBytes m' = maxBytes m \<and> hits m' = hits m \<and> misses m' = misses m
    \<and> bypasses m' = bypasses m \<and> stores m' = stores m + 1
    \<and> mb_abs m' = lru_set (maxEntries m) (maxBytes m) key e (mb_abs m)"
proof -
  let ?m1 = "case map_of (items m) key of Some elem \<Rightarrow> removeElement elem m | None \<Rightarrow> m"
  note old = drop_old [OF assms(1), of key]
  obtain m' where m': "evict_loop e ?m1 = Some m'" "mb_inv m'"
      "mb_abs m' = take (lru_keep (lru_fits (maxEntries ?m1) (maxBytes ?m1) e (mb_abs ?m1))
                          (length (mb_abs ?m1))) (mb_abs ?m1)"
    and fr: "maxEntries m' = maxEntries ?m1" "maxBytes m' = maxBytes ?m1" "hits m' = hits ?m1"
      "misses m' = misses ?m1" "bypasses m' = bypasses ?m1" "stores m' = stores ?m1"
    using evict_loop_total [OF old(1), of e] old(3) assms(2) by auto
  have abs: "(key, e) # mb_abs m' = lru_set (maxEntries m) (maxBytes m) key e (mb_abs m)"
    using m'(3) unfolding old(2-4) lru_set_def Let_def by simp
  have "key \<notin> fst ` set (AList.delete key (mb_abs m))" by (simp add: delete_filter image_iff)
  then have "map_of (mb_abs m') key = None"
    using m'(3) unfolding old(2-4) by (auto simp: map_of_eq_None_iff dest!: in_set_takeD)
  then have "mb_inv (push_entry key e m')"
    using m'(2) assms(3) by (intro push_entry_inv)
  then show ?thesis
    using m'(1) fr old(3-8) abs
    by (intro exI [of _ "push_entry key e m'"]) (simp add: SetEntry_def Let_def frame push_entry_abs)
qed

lemma SetEntry_diverges:
  assumes "mb_inv m" "maxEntries m \<le> 0"
  shows "SetEntry key e m = None"
  using drop_old(3) [OF assms(1), of key] assms(2)
  by (simp add: SetEntry_def Let_def evict_loop_diverges)

section \<open>Deletions\<close>

lemma Delete_refines:
  assumes "mb_inv m"
  shows "Delete key m = (map_of (mb_abs m) key \<noteq> None, snd (Delete key m))
    \<and> mb_abs (snd (Delete key m)) = AList.delete key (mb_abs m)"
  using drop_old(2) [OF assms, of key] items_lookup [OF assms, of key]
  by (cases "map_of (items m) key") (auto simp: Delete_def)

lemma Delete_inv [cache_inv]: "mb_inv m \<Longrightarrow> mb_inv (snd (Delete key m))"
  by (simp add: Delete_def removeElement_inv split: option.split)

lemma removeElement_evictList:
  "mb_inv m \<Longrightarrow> evictList (removeElement p m) = filter (\<lambda>x. fst x \<noteq> p) (evictList m)"
  by (cases "elem_Value m p")
    (auto simp: removeElement_none removeElement_eq delete_filter map_of_eq_None_iff
        intro!: filter_True [symmetric])

lemma remove_all_facts:
  "mb_inv m \<Longrightarrow> mb_inv (snd (remove_all es n m))
    \<and> fst (remove_all es n m) = n + int (length es)
    \<and> evictList (snd (remove_all es n m)) = filter (\<lambda>x. fst x \<notin> set es) (evictList m)"
proof (induction es arbitrary: n m)
  case (Cons p es)
  show ?case
    using Cons.IH [OF removeElement_inv [OF Cons.prems, of p], of "n + 1"]
    by (auto simp: removeElement_evictList [OF Cons.prems] intro!: filter_cong)
qed simp

lemma remove_all_frame [frame]:
  "maxEntries (snd (remove_all es n m)) = maxEntries m"
  "maxBytes (snd (remove_all es n m)) = maxBytes m"
  "hits (snd (remove_all es n m)) = hits m" "misses (snd (remove_all es n m)) = misses m"
  "bypasses (snd (remove_all es n m)) = bypasses m" "stores (snd (remove_all es n m)) = stores m"
  by (induction es n m rule: remove_all.induct) (simp_all add: frame)

lemma to_remove_set:
  assumes "mb_inv m"
  shows "set (to_remove P m) = fst ` {x \<in> set (evictList m). P (it_key (snd x))}"
    and "distinct (to_remove P m)"
proof -
  note inv = mb_invD [OF assms]
  have item: "(k, p) \<in> set (items m) \<longleftrightarrow> (\<exists>it. (p, it) \<in> set (evictList m) \<and> it_key it = k)" for k p
    using inv(3) [of k p] by (simp add: inv(1,2))
  have "p \<in> set (to_remove P m) \<longleftrightarrow>
      (\<exists>k. (k, p) \<in> set (items m) \<and> (\<exists>it. elem_Value m p = Some it \<and> P (it_key it)))" for p
    by (force simp: to_remove_def split: option.splits)
  then have "p \<in> set (to_remove P m) \<longleftrightarrow> (\<exists>it. (p, it) \<in> set (evictList m) \<and> P (it_key it))" for p
    unfolding elem_Value_set [OF assms] item by blast
  then show "set (to_remove P m) = fst ` {x \<in> set (evictList m). P (it_key (snd x))}"
    by (auto simp: image_iff)
  have "inj_on snd (set (items m))"
  proof (rule inj_onI)
    fix x y assume "x \<in> set (items m)" "y \<in> set (items m)" "snd x = snd y"
    then show "x = y"
      using item [of "fst x" "snd x"] item [of "fst y" "snd y"] elem_Value_set [OF assms, of "snd x"]
      by (metis option.inject prod.collapse)
  qed
  then show "distinct (to_remove P m)"
    unfolding to_remove_def using inv(1)
    by (auto simp: distinct_map intro: inj_on_subset)
qed

text \<open>Both bulk deletions remove exactly the matching entries and report how many.\<close>

lemma bulk_delete:
  assumes "mb_inv m"
  shows "mb_abs (snd (remove_all (to_remove P m) 0 m)) = filter (\<lambda>x. \<not> P (fst x)) (mb_abs m)"
    and "fst (remove_all (to_remove P m) 0 m) = int (length (filter (\<lambda>x. P (fst x)) (mb_abs m)))"
    and "mb_inv (snd (remove_all (to_remove P m) 0 m))"
proof -
  note rem = remove_all_facts [OF assms, of "to_remove P m" 0] and set = to_remove_set [OF assms, of P]
  note dist = mb_invD(2) [OF assms]
  have iff: "fst x \<in> set (to_remove P m) \<longleftrightarrow> P (it_key (snd x))" if "x \<in> set (evictList m)" for x
  proof -
    have uniq: "y = x" if "y \<in> set (evictList m)" "fst y = fst x" for y
      using that \<open>x \<in> set (evictList m)\<close> dist by (metis eq_key_imp_eq_value prod.collapse)
    show ?thesis unfolding set(1)
    proof
      assume "fst x \<in> fst ` {y \<in> set (evictList m). P (it_key (snd y))}"
      then obtain y where "y \<in> set (evictList m)" "P (it_key (snd y))" "fst y = fst x"
        by (elim imageE) (metis (mono_tags, lifting) mem_Collect_eq)
      then show "P (it_key (snd x))" using uniq [of y] by metis
    next
      assume "P (it_key (snd x))"
      with \<open>x \<in> set (evictList m)\<close>
      have "x \<in> {y \<in> set (evictList m). P (it_key (snd y))}" by simp
      then show "fst x \<in> fst ` {y \<in> set (evictList m). P (it_key (snd y))}" by (rule imageI)
    qed
  qed
  have "evictList (snd (remove_all (to_remove P m) 0 m))
      = filter (\<lambda>x. fst x \<notin> set (to_remove P m)) (evictList m)"
    using rem by blast
  also have "\<dots> = filter (\<lambda>x. \<not> P (it_key (snd x))) (evictList m)"
    by (rule filter_cong) (simp_all add: iff)
  finally show "mb_abs (snd (remove_all (to_remove P m) 0 m)) = filter (\<lambda>x. \<not> P (fst x)) (mb_abs m)"
    by (simp add: mb_abs_def filter_map comp_def)
  have "length (to_remove P m) = card (fst ` set (filter (\<lambda>x. P (it_key (snd x))) (evictList m)))"
    using distinct_card [OF set(2)] set(1) by simp
  also have "\<dots> = length (map fst (filter (\<lambda>x. P (it_key (snd x))) (evictList m)))"
    using distinct_card [of "map fst (filter (\<lambda>x. P (it_key (snd x))) (evictList m))"] dist
    by (simp add: distinct_map_filter)
  finally show "fst (remove_all (to_remove P m) 0 m) = int (length (filter (\<lambda>x. P (fst x)) (mb_abs m)))"
    using rem by (simp add: mb_abs_def filter_map comp_def)
  show "mb_inv (snd (remove_all (to_remove P m) 0 m))" using rem by simp
qed

lemma Purge_inv [cache_inv]: "mb_inv (snd (Purge m))"
  by (simp add: Purge_def mb_inv_def list_size_def)

lemma Purge_abs: "mb_abs (snd (Purge m)) = []"
  by (simp add: Purge_def mb_abs_def)

end
