(* ===== verification/CacheBackend.thy ===== *)
theory CacheBackend
  imports CacheLru Normalize
begin

text \<open>
  The interface \<open>cache.Backend\<close> of \<open>cache.go\<close>: its method table as a record, the laws a
  backend owes its callers as the locale \<open>backend_laws\<close>, sequences of calls, and the
  interpretation on the memory backend. The properties of the store follow from the
  refinement lemmas of \<open>CacheLru\<close> and the facts of the locale.
\<close>

section \<open>The interface\<close>

record 'b Backend =
  be_Get :: "instant \<Rightarrow> string \<Rightarrow> 'b \<Rightarrow> cache_entry option \<times> 'b"
  be_Set :: "string \<Rightarrow> cache_entry \<Rightarrow> 'b \<Rightarrow> 'b option"
  be_Delete :: "string \<Rightarrow> 'b \<Rightarrow> bool \<times> 'b"
  be_DeleteByPrefix :: "string \<Rightarrow> 'b \<Rightarrow> int \<times> 'b"
  be_DeleteByPath :: "string \<Rightarrow> 'b \<Rightarrow> int \<times> 'b"
  be_Purge :: "'b \<Rightarrow> int \<times> 'b"
  be_Stats :: "'b \<Rightarrow> cache_stats"
  be_Len :: "'b \<Rightarrow> int"

definition memory_Backend :: "memory_backend Backend" where
  "memory_Backend =
     \<lparr>be_Get = Get, be_Set = SetEntry, be_Delete = Delete, be_DeleteByPrefix = DeleteByPrefix,
      be_DeleteByPath = DeleteByPath, be_Purge = Purge, be_Stats = Stats, be_Len = Len\<rparr>"

text \<open>A call that changes the store, with its arguments.\<close>

datatype backend_op =
    is_OpGet: OpGet instant string
  | is_OpSet: OpSet string cache_entry
  | OpDelete string
  | OpDeleteByPrefix string
  | OpDeleteByPath string
  | OpPurge

fun backend_step :: "'b Backend \<Rightarrow> backend_op \<Rightarrow> 'b \<Rightarrow> 'b option" where
  "backend_step B (OpGet now k) b = Some (snd (be_Get B now k b))"
| "backend_step B (OpSet k e) b = be_Set B k e b"
| "backend_step B (OpDelete k) b = Some (snd (be_Delete B k b))"
| "backend_step B (OpDeleteByPrefix p) b = Some (snd (be_DeleteByPrefix B p b))"
| "backend_step B (OpDeleteByPath p) b = Some (snd (be_DeleteByPath B p b))"
| "backend_step B OpPurge b = Some (snd (be_Purge B b))"

fun backend_run :: "'b Backend \<Rightarrow> backend_op list \<Rightarrow> 'b \<Rightarrow> 'b option" where
  "backend_run B [] b = Some b"
| "backend_run B (x # xs) b = Option.bind (backend_step B x b) (backend_run B xs)"

text \<open>What an unbounded cache without expiry would hold.\<close>

fun ideal_op :: "backend_op \<Rightarrow> (string \<rightharpoonup> cache_entry) \<Rightarrow> (string \<rightharpoonup> cache_entry)" where
  "ideal_op (OpGet now k) M = M"
| "ideal_op (OpSet k e) M = M(k \<mapsto> e)"
| "ideal_op (OpDelete k) M = M(k := None)"
| "ideal_op (OpDeleteByPrefix p) M = (\<lambda>k. if containsPrefix k p then None else M k)"
| "ideal_op (OpDeleteByPath p) M = (\<lambda>k. if pathMatches k p then None else M k)"
| "ideal_op OpPurge M = Map.empty"

fun op_ok :: "backend_op \<Rightarrow> bool" where
  "op_ok (OpSet k e) = (0 \<le> e_Size e)"
| "op_ok _ = True"

section \<open>The laws of a backend\<close>

locale backend_laws =
  fixes B :: "'b Backend" and look :: "'b \<Rightarrow> string \<Rightarrow> cache_entry option" and inv :: "'b \<Rightarrow> bool"
  assumes get_inv: "inv b \<Longrightarrow> inv (snd (be_Get B now k b))"
    and get_hit: "inv b \<Longrightarrow> be_Get B now k b = (Some e, b') \<Longrightarrow>
        look b k = Some e \<and> \<not> IsExpired now e \<and> look b' = look b"
    and get_miss: "inv b \<Longrightarrow> be_Get B now k b = (None, b') \<Longrightarrow>
        look b' = (look b)(k := None) \<and> (look b k = None \<or> IsExpired now (the (look b k)))"
    and set_law: "inv b \<Longrightarrow> 0 \<le> e_Size e \<Longrightarrow> be_Set B k e b = Some b' \<Longrightarrow>
        inv b' \<and> look b' k = Some e \<and> look b' \<subseteq>\<^sub>m (look b)(k \<mapsto> e)"
    and delete_law: "inv b \<Longrightarrow> be_Delete B k b = (r, b') \<Longrightarrow>
        inv b' \<and> r = (look b k \<noteq> None) \<and> look b' = (look b)(k := None)"
    and prefix_law: "inv b \<Longrightarrow> be_DeleteByPrefix B p b = (n, b') \<Longrightarrow>
        inv b' \<and> look b' = (\<lambda>k. if containsPrefix k p then None else look b k)
        \<and> n = int (card {k \<in> dom (look b). containsPrefix k p})"
    and path_law: "inv b \<Longrightarrow> be_DeleteByPath B p b = (n, b') \<Longrightarrow>
        inv b' \<and> look b' = (\<lambda>k. if pathMatches k p then None else look b k)
        \<and> n = int (card {k \<in> dom (look b). pathMatches k p})"
    and purge_law: "inv b \<Longrightarrow> be_Purge B b = (n, b') \<Longrightarrow>
        inv b' \<and> look b' = Map.empty \<and> n = int (card (dom (look b)))"
begin

lemma step_inv:
  assumes "inv b" "op_ok x" "backend_step B x b = Some b'"
  shows "inv b'"
proof (cases x)
  case (OpGet now k)
  then show ?thesis using assms get_inv by auto
next
  case (OpSet k e)
  then show ?thesis using assms set_law by auto
next
  case (OpDelete k)
  then show ?thesis using assms delete_law [OF assms(1), of k] by (cases "be_Delete B k b") auto
next
  case (OpDeleteByPrefix p)
  then show ?thesis using assms prefix_law [OF assms(1), of p] by (cases "be_DeleteByPrefix B p b") auto
next
  case (OpDeleteByPath p)
  then show ?thesis using assms path_law [OF assms(1), of p] by (cases "be_DeleteByPath B p b") auto
next
  case OpPurge
  then show ?thesis using assms purge_law [OF assms(1)] by (cases "be_Purge B b") auto
qed

lemma get_look_le:
  assumes "inv b"
  shows "look (snd (be_Get B now k b)) \<subseteq>\<^sub>m look b"
proof (cases "be_Get B now k b")
  case (Pair r b')
  then show ?thesis
    using get_hit [OF assms, of now k] get_miss [OF assms, of now k]
    by (cases r) (auto simp: map_le_def)
qed

text \<open>The store never holds more than the ideal map: each step keeps it below.\<close>

lemma step_ideal:
  assumes "inv b" "op_ok x" "backend_step B x b = Some b'" "look b \<subseteq>\<^sub>m M"
  shows "look b' \<subseteq>\<^sub>m ideal_op x M"
proof (cases x)
  case (OpGet now k)
  then show ?thesis using assms get_look_le by (auto intro: map_le_trans)
next
  case (OpSet k e)
  then have "look b' \<subseteq>\<^sub>m (look b)(k \<mapsto> e)" using assms set_law by auto
  moreover have "(look b)(k \<mapsto> e) \<subseteq>\<^sub>m M(k \<mapsto> e)" using assms(4) by (rule map_le_upd)
  ultimately show ?thesis using OpSet by (auto intro: map_le_trans)
next
  case (OpDelete k)
  then show ?thesis using assms delete_law [OF assms(1), of k]
    by (cases "be_Delete B k b") (auto simp: map_le_def)
next
  case (OpDeleteByPrefix p)
  then show ?thesis using assms prefix_law [OF assms(1), of p]
    by (cases "be_DeleteByPrefix B p b") (auto simp: map_le_def dom_def)
next
  case (OpDeleteByPath p)
  then show ?thesis using assms path_law [OF assms(1), of p]
    by (cases "be_DeleteByPath B p b") (auto simp: map_le_def dom_def)
next
  case OpPurge
  then show ?thesis using assms purge_law [OF assms(1)] by (cases "be_Purge B b") auto
qed

lemma run_inv:
  "inv b \<Longrightarrow> list_all op_ok xs \<Longrightarrow> backend_run B xs b = Some b' \<Longrightarrow> inv b'"
  by (induction xs arbitrary: b) (auto simp: bind_eq_Some_conv dest: step_inv)

lemma run_ideal:
  "inv b \<Longrightarrow> list_all op_ok xs \<Longrightarrow> backend_run B xs b = Some b' \<Longrightarrow> look b \<subseteq>\<^sub>m M \<Longrightarrow>
   look b' \<subseteq>\<^sub>m fold ideal_op xs M"
proof (induction xs arbitrary: b M)
  case (Cons x xs)
  then obtain c where c: "backend_step B x b = Some c" "backend_run B xs c = Some b'"
    by (auto simp: bind_eq_Some_conv)
  have "inv c" "look c \<subseteq>\<^sub>m ideal_op x M"
    using Cons.prems c(1) by (auto intro: step_inv step_ideal)
  then show ?case using Cons c by simp
qed simp

text \<open>A hit after any calls is what the ideal map holds, and it is fresh.\<close>

lemma hit_after_run:
  assumes "inv b" "look b = Map.empty" "list_all op_ok xs" "backend_run B xs b = Some b'"
    and "fst (be_Get B now k b') = Some e"
  shows "fold ideal_op xs Map.empty k = Some e \<and> \<not> IsExpired now e"
proof -
  have inv': "inv b'" using assms run_inv by blast
  obtain c where "be_Get B now k b' = (Some e, c)" using assms(5) by (cases "be_Get B now k b'") auto
  from get_hit [OF inv' this] have look: "look b' k = Some e" and "\<not> IsExpired now e" by auto
  moreover have "look b' \<subseteq>\<^sub>m fold ideal_op xs Map.empty"
    using assms run_ideal by (metis map_le_empty)
  ultimately show ?thesis by (metis domI map_le_def)
qed

end

section \<open>The memory backend keeps the laws\<close>

lemma lookup_filter:
  "map_of (filter (\<lambda>x. P (fst x)) L) = (\<lambda>k. if P k then map_of L k else None)"
  by (induction L) (auto simp: fun_eq_iff)

lemma length_filter_card:
  "distinct_keys L \<Longrightarrow> length (filter (\<lambda>x. P (fst x)) L) = card {k \<in> dom (map_of L). P k}"
proof -
  assume "distinct_keys L"
  then have "length (filter (\<lambda>x. P (fst x)) L) = card (fst ` set (filter (\<lambda>x. P (fst x)) L))"
    using distinct_card [of "map fst (filter (\<lambda>x. P (fst x)) L)"] by (simp add: distinct_map_filter)
  also have "fst ` set (filter (\<lambda>x. P (fst x)) L) = {k \<in> dom (map_of L). P k}"
    by (auto simp: dom_map_of_conv_image_fst)
  finally show ?thesis .
qed

lemma map_of_take_le: "distinct_keys L \<Longrightarrow> map_of (take n L) \<subseteq>\<^sub>m map_of L"
  unfolding map_le_def by (auto dest!: in_set_takeD simp: distinct_map_filter map_of_eq_Some_iff
      distinct_take simp flip: take_map)

lemma lru_set_map:
  assumes "distinct_keys L"
  shows "map_of (lru_set maxE maxB k e L) k = Some e"
    and "map_of (lru_set maxE maxB k e L) \<subseteq>\<^sub>m (map_of L)(k \<mapsto> e)"
proof -
  show "map_of (lru_set maxE maxB k e L) k = Some e" by (simp add: lru_set_def Let_def)
  have le: "map_of (take n (AList.delete k L)) \<subseteq>\<^sub>m map_of (AList.delete k L)" for n
    using assms by (intro map_of_take_le) (simp add: distinct_delete)
  have "map_of L a = Some v" if "map_of (take n (AList.delete k L)) a = Some v" for n a v
    using le [of n] that by (auto simp: map_le_def dom_def split: if_splits) (metis option.distinct(1))
  then show "map_of (lru_set maxE maxB k e L) \<subseteq>\<^sub>m (map_of L)(k \<mapsto> e)"
    by (auto simp: lru_set_def Let_def map_le_def)
qed

lemma SetEntry_Some:
  assumes "mb_inv m" "0 \<le> e_Size e" "SetEntry key e m = Some m'"
  shows "mb_inv m' \<and> maxEntries m' = maxEntries m \<and> maxBytes m' = maxBytes m \<and> hits m' = hits m
    \<and> misses m' = misses m \<and> bypasses m' = bypasses m \<and> stores m' = stores m + 1
    \<and> mb_abs m' = lru_set (maxEntries m) (maxBytes m) key e (mb_abs m)"
proof (cases "1 \<le> maxEntries m")
  case True
  from SetEntry_refines [OF assms(1) this assms(2), of key] assms(3) show ?thesis by auto
next
  case False
  then show ?thesis using SetEntry_diverges [OF assms(1), of key e] assms(3) by auto
qed

interpretation memory: backend_laws memory_Backend lookup mb_inv
proof (unfold_locales, goal_cases)
  case (1 b now k)
  then show ?case by (simp add: memory_Backend_def Get_inv)
next
  case (2 b now k e b')
  then have "lru_get now k (mb_abs b) = (Some e, mb_abs b')"
    using Get_refines [OF 2(1), of now k] by (simp add: memory_Backend_def)
  then have e: "map_of (mb_abs b) k = Some e" "\<not> IsExpired now e"
    and b': "mb_abs b' = (k, e) # AList.delete k (mb_abs b)"
    by (auto simp: lru_get_def split: option.splits if_splits)
  have "map_of (mb_abs b') = map_of (mb_abs b)" unfolding b' using e by (auto simp: fun_eq_iff)
  with e show ?case by (simp add: lookup_def)
next
  case (3 b now k b')
  then have "lru_get now k (mb_abs b) = (None, mb_abs b')"
    using Get_refines [OF 3(1), of now k] by (simp add: memory_Backend_def)
  then consider "map_of (mb_abs b) k = None" "mb_abs b' = mb_abs b"
    | e where "map_of (mb_abs b) k = Some e" "IsExpired now e" "mb_abs b' = AList.delete k (mb_abs b)"
    by (auto simp: lru_get_def split: option.splits if_splits)
  then show ?case by cases (auto simp: lookup_def)
next
  case (4 b e k b')
  then show ?case using SetEntry_Some [OF 4(1,2), of k b'] lru_set_map [OF abs_distinct [OF 4(1)]]
    by (simp add: memory_Backend_def lookup_def)
next
  case (5 b k r b')
  then show ?case using Delete_refines [OF 5(1), of k] Delete_inv [OF 5(1), of k]
    by (auto simp: memory_Backend_def lookup_def)
next
  case (6 b p n b')
  then show ?case
    using bulk_delete [OF 6(1), of "\<lambda>k. containsPrefix k p"] length_filter_card [OF abs_distinct [OF 6(1)]]
      lookup_filter [of "\<lambda>k. \<not> containsPrefix k p" "mb_abs b"]
    by (auto simp: memory_Backend_def lookup_def DeleteByPrefix_def)
next
  case (7 b p n b')
  then show ?case
    using bulk_delete [OF 7(1), of "\<lambda>k. pathMatches k p"] length_filter_card [OF abs_distinct [OF 7(1)]]
      lookup_filter [of "\<lambda>k. \<not> pathMatches k p" "mb_abs b"]
    by (auto simp: memory_Backend_def lookup_def DeleteByPath_def)
next
  case (8 b n b')
  then show ?case
    using length_filter_card [OF abs_distinct [OF 8(1)], of "\<lambda>_. True"] Purge_inv [of b] Purge_abs [of b]
    by (auto simp: memory_Backend_def lookup_def Purge_def)
qed

section \<open>Limits\<close>

definition within_limits :: "memory_backend \<Rightarrow> bool" where
  "within_limits m \<longleftrightarrow>
     Len m \<le> maxEntries m \<and> (sizeBytes m \<le> maxBytes m \<or> Len m \<le> 1)"

definition lru_within :: "int \<Rightarrow> int \<Rightarrow> lru \<Rightarrow> bool" where
  "lru_within maxE maxB L \<longleftrightarrow> int (length L) \<le> maxE \<and> (lru_size L \<le> maxB \<or> length L \<le> 1)"

lemma within_limits_abs:
  "mb_inv m \<Longrightarrow> within_limits m \<longleftrightarrow> lru_within (maxEntries m) (maxBytes m) (mb_abs m)"
  by (simp add: within_limits_def lru_within_def Len_def sizeBytes_abs)

lemma abs_sizes_nonneg: "mb_inv m \<Longrightarrow> x \<in> set (mb_abs m) \<Longrightarrow> 0 \<le> e_Size (snd x)"
  using mb_invD(5) by (auto simp: mb_abs_def)

lemma lru_size_filter:
  "(\<And>x. x \<in> set L \<Longrightarrow> 0 \<le> e_Size (snd x)) \<Longrightarrow> lru_size (filter P L) \<le> lru_size L"
  unfolding lru_size_def by (induction L) (auto intro: add_increasing)

lemma lru_within_filter:
  assumes "lru_within maxE maxB L" "\<And>x. x \<in> set L \<Longrightarrow> 0 \<le> e_Size (snd x)"
  shows "lru_within maxE maxB (filter P L)"
proof -
  have "lru_size (filter P L) \<le> lru_size L" using assms(2) by (rule lru_size_filter)
  moreover have "int (length (filter P L)) \<le> int (length L)" by simp
  ultimately show ?thesis using assms(1) unfolding lru_within_def by linarith
qed

lemma lru_within_set:
  assumes "1 \<le> maxE"
  shows "lru_within maxE maxB (lru_set maxE maxB k e L)"
proof -
  let ?rest = "AList.delete k L"
  let ?n = "lru_keep (lru_fits maxE maxB e ?rest) (length ?rest)"
  have "lru_fits maxE maxB e ?rest 0" using assms by (simp add: lru_fits_def)
  then have "lru_fits maxE maxB e ?rest ?n" by (rule lru_keep_fits)
  moreover have "?n \<le> length ?rest" by (rule lru_keep_le)
  ultimately show ?thesis using assms
    by (auto simp: lru_within_def lru_set_def lru_fits_def Let_def lru_size_def min_def)
qed

lemma lru_size_delete:
  "distinct_keys L \<Longrightarrow> map_of L k = Some e \<Longrightarrow> lru_size ((k, e) # AList.delete k L) = lru_size L"
proof (induction L)
  case (Cons x L)
  then show ?case by (cases "fst x = k") (auto simp: lru_size_def delete_id dest: map_of_SomeD)
qed simp

lemma length_delete:
  "distinct_keys L \<Longrightarrow> map_of L k = Some e \<Longrightarrow> Suc (length (AList.delete k L)) = length L"
proof (induction L)
  case (Cons x L)
  then show ?case by (cases "fst x = k") (auto simp: delete_id dest: map_of_SomeD)
qed simp

lemma lru_within_get:
  assumes "lru_within maxE maxB L" "distinct_keys L" "\<And>x. x \<in> set L \<Longrightarrow> 0 \<le> e_Size (snd x)"
  shows "lru_within maxE maxB (snd (lru_get now k L))"
  using assms(1) lru_within_filter [OF assms(1,3)] lru_size_delete [OF assms(2), of k] length_delete [OF assms(2), of k]
  by (auto simp: lru_get_def delete_filter lru_within_def split: option.split)

lemma Get_frame [frame]:
  "maxEntries (snd (Get now k m)) = maxEntries m" "maxBytes (snd (Get now k m)) = maxBytes m"
  "stores (snd (Get now k m)) = stores m"
  by (simp_all add: Get_def Let_def frame MoveToFront_def split: option.split)

lemma Delete_frame [frame]:
  "maxEntries (snd (Delete k m)) = maxEntries m" "maxBytes (snd (Delete k m)) = maxBytes m"
  "hits (snd (Delete k m)) = hits m" "misses (snd (Delete k m)) = misses m"
  "stores (snd (Delete k m)) = stores m"
  by (simp_all add: Delete_def frame split: option.split)

lemma Purge_frame [frame]:
  "maxEntries (snd (Purge m)) = maxEntries m" "maxBytes (snd (Purge m)) = maxBytes m"
  "hits (snd (Purge m)) = hits m" "misses (snd (Purge m)) = misses m"
  "stores (snd (Purge m)) = stores m"
  by (simp_all add: Purge_def)

lemma Get_counts:
  "mb_inv m \<Longrightarrow> hits (snd (Get now k m)) + misses (snd (Get now k m)) = hits m + misses m + 1"
  using items_lookup(1) [of m k]
  by (auto simp: Get_def Let_def frame MoveToFront_def split: option.split)

text \<open>One call: limits, bounds and counters.\<close>

lemma memory_step_limits:
  assumes "mb_inv m" "1 \<le> maxEntries m" "op_ok x" "backend_step memory_Backend x m = Some m'"
    and "within_limits m"
  shows "within_limits m'"
proof -
  have inv': "mb_inv m'" using assms memory.step_inv by blast
  have L: "lru_within (maxEntries m) (maxBytes m) (mb_abs m)"
    using assms within_limits_abs by simp
  note filt = lru_within_filter [OF L abs_sizes_nonneg [OF assms(1)]]
  have "lru_within (maxEntries m') (maxBytes m') (mb_abs m')"
  proof (cases x)
    case (OpGet now k)
    then show ?thesis
      using assms(4) lru_within_get [OF L abs_distinct [OF assms(1)] abs_sizes_nonneg [OF assms(1)], of now k]
        Get_refines [OF assms(1), of now k] by (auto simp: memory_Backend_def frame)
  next
    case (OpSet k e)
    then have "0 \<le> e_Size e" "SetEntry k e m = Some m'"
      using assms(3,4) by (simp_all add: memory_Backend_def)
    then show ?thesis using SetEntry_Some [OF assms(1)] lru_within_set [OF assms(2)] by simp
  next
    case (OpDelete k)
    then have "m' = snd (Delete k m)" using assms(4) by (simp add: memory_Backend_def)
    then show ?thesis using filt Delete_refines [OF assms(1), of k]
      by (simp add: frame delete_filter)
  next
    case (OpDeleteByPrefix p)
    then show ?thesis using assms(4) filt bulk_delete(1) [OF assms(1)]
      by (auto simp: memory_Backend_def DeleteByPrefix_def frame)
  next
    case (OpDeleteByPath p)
    then show ?thesis using assms(4) filt bulk_delete(1) [OF assms(1)]
      by (auto simp: memory_Backend_def DeleteByPath_def frame)
  next
    case OpPurge
    then show ?thesis using assms(2,4) Purge_abs [of m]
      by (auto simp: memory_Backend_def frame lru_within_def)
  qed
  then show ?thesis using inv' within_limits_abs by simp
qed

lemma memory_step_frame:
  assumes "mb_inv m" "op_ok x" "backend_step memory_Backend x m = Some m'"
  shows "maxEntries m' = maxEntries m" "maxBytes m' = maxBytes m"
    "hits m' + misses m' = hits m + misses m + (case x of OpGet now k \<Rightarrow> 1 | _ \<Rightarrow> 0)"
    "stores m' = stores m + (case x of OpSet k e \<Rightarrow> 1 | _ \<Rightarrow> 0)"
  using assms Get_counts [OF assms(1)] SetEntry_Some [OF assms(1)]
  by (cases x; force simp: memory_Backend_def frame DeleteByPrefix_def DeleteByPath_def)+

lemma memory_step_total:
  assumes "mb_inv m" "1 \<le> maxEntries m" "op_ok x"
  shows "\<exists>m'. backend_step memory_Backend x m = Some m'"
proof (cases x)
  case (OpSet k e)
  then show ?thesis using assms(3) SetEntry_refines [OF assms(1,2), of e k] by (auto simp: memory_Backend_def)
qed (simp_all add: memory_Backend_def)

text \<open>Any sequence of calls.\<close>

lemma memory_run:
  assumes "mb_inv m" "1 \<le> maxEntries m" "list_all op_ok xs" "within_limits m"
  shows "\<exists>m'. backend_run memory_Backend xs m = Some m' \<and> mb_inv m' \<and> within_limits m'
    \<and> maxEntries m' = maxEntries m \<and> maxBytes m' = maxBytes m
    \<and> hits m' + misses m' = hits m + misses m + int (length (filter (\<lambda>x. is_OpGet x) xs))
    \<and> stores m' = stores m + int (length (filter (\<lambda>x. is_OpSet x) xs))"
  using assms
proof (induction xs arbitrary: m)
  case (Cons x xs)
  then obtain c where c: "backend_step memory_Backend x m = Some c"
    using memory_step_total by fastforce
  have x: "op_ok x" and xs: "list_all op_ok xs" using Cons.prems by simp_all
  note frm = memory_step_frame [OF Cons.prems(1) x c]
  have "mb_inv c" using memory.step_inv Cons.prems(1) x c by blast
  moreover have "within_limits c" using memory_step_limits Cons.prems x c by blast
  moreover have "1 \<le> maxEntries c" using frm Cons.prems(2) by simp
  ultimately obtain m' where "backend_run memory_Backend xs c = Some m' \<and> mb_inv m' \<and> within_limits m'
    \<and> maxEntries m' = maxEntries c \<and> maxBytes m' = maxBytes c
    \<and> hits m' + misses m' = hits c + misses c + int (length (filter (\<lambda>x. is_OpGet x) xs))
    \<and> stores m' = stores c + int (length (filter (\<lambda>x. is_OpSet x) xs))"
    using Cons.IH xs by blast
  then show ?case using c frm by (cases x) simp_all
qed simp

end
