(* ===== verification/CacheProps.thy ===== *)
theory CacheProps
  imports CacheBackend
begin

text \<open>
  The properties of the response cache: what \<open>Get\<close> and \<open>Set\<close> do to the LRU order, when
  \<open>Set\<close> returns, the limits and counters after any calls, coherence with an unbounded
  map, and the correspondence between cache keys and the two path-based deletions.
\<close>

section \<open>Lemmas on keys\<close>

lemma Split_prefix_eq:
  "d \<notin> set a \<Longrightarrow> d \<notin> set b \<Longrightarrow> a @ d # s = b @ d # t \<longleftrightarrow> a = b \<and> s = t"
proof (induction a arbitrary: b)
  case Nil
  then show ?case by (cases b) auto
next
  case (Cons x a)
  then show ?case by (cases b) auto
qed

lemma ascii_bar: "ascii_upper c = CHR ''|'' \<longleftrightarrow> c = CHR ''|''" "ascii_lower c = CHR ''|'' \<longleftrightarrow> c = CHR ''|''"
  unfolding char_eq_ord ord_ascii_upper ord_ascii_lower by auto

lemma set_ToUpper_bar: "CHR ''|'' \<notin> set s \<Longrightarrow> CHR ''|'' \<notin> set (ToUpper s)"
  unfolding ToUpper_def set_map image_iff eq_commute [of "CHR ''|''"] ascii_bar by simp

lemma set_ToLower_bar: "CHR ''|'' \<notin> set s \<Longrightarrow> CHR ''|'' \<notin> set (ToLower s)"
  unfolding ToLower_def set_map image_iff eq_commute [of "CHR ''|''"] ascii_bar by simp

definition key_method :: "string \<Rightarrow> string" where
  "key_method meth = (if ToUpper meth = ''HEAD'' then ''GET'' else ToUpper meth)"

lemma CacheKey_parts:
  "CacheKey meth host p q ae =
     key_method meth @ CHR ''|'' # ToLower host @ CHR ''|'' # Path p @ CHR ''|'' # Query q
       @ CHR ''|'' # AcceptEncoding ae"
  by (simp add: CacheKey_def key_method_def Let_def)

lemma key_method_bar: "CHR ''|'' \<notin> set meth \<Longrightarrow> CHR ''|'' \<notin> set (key_method meth)"
  using set_ToUpper_bar [of meth] by (simp add: key_method_def)

lemma splitCacheKey_CacheKey:
  assumes "CHR ''|'' \<notin> set meth" "CHR ''|'' \<notin> set host" "CHR ''|'' \<notin> set (Path p)"
  shows "splitCacheKey (CacheKey meth host p q ae) =
    [key_method meth, ToLower host, Path p] @ Split (CHR ''|'') (Query q @ CHR ''|'' # AcceptEncoding ae)"
  using assms by (simp add: splitCacheKey_eq CacheKey_parts Split_append_sep key_method_bar set_ToLower_bar)

lemma CacheKey_matches:
  assumes "CHR ''|'' \<notin> set meth" "CHR ''|'' \<notin> set host" "CHR ''|'' \<notin> set (Path p)"
  shows "containsPrefix (CacheKey meth host p q ae) pre = HasPrefix (Path p) pre"
    and "pathMatches (CacheKey meth host p q ae) path = (Path p = path)"
proof -
  obtain r rs where "Split (CHR ''|'') (Query q @ CHR ''|'' # AcceptEncoding ae) = r # rs"
    by (rule Split_cases)
  then show "containsPrefix (CacheKey meth host p q ae) pre = HasPrefix (Path p) pre"
    and "pathMatches (CacheKey meth host p q ae) path = (Path p = path)"
    unfolding containsPrefix_iff pathMatches_def splitCacheKey_CacheKey [OF assms] Let_def
    by (simp_all add: numeral_2_eq_2)
qed

lemma lookup_bulk:
  assumes "mb_inv m"
  shows "lookup (snd (DeleteByPrefix pre m)) k = (if containsPrefix k pre then None else lookup m k)"
    and "lookup (snd (DeleteByPath path m)) k = (if pathMatches k path then None else lookup m k)"
  using bulk_delete(1) [OF assms, of "\<lambda>k. containsPrefix k pre"]
    bulk_delete(1) [OF assms, of "\<lambda>k. pathMatches k path"]
    lookup_filter [of "\<lambda>k. \<not> containsPrefix k pre" "mb_abs m"]
    lookup_filter [of "\<lambda>k. \<not> pathMatches k path" "mb_abs m"]
  by (simp_all add: lookup_def DeleteByPrefix_def DeleteByPath_def)

section \<open>Entries for the concrete instances\<close>

definition sample_entry :: "string \<Rightarrow> int \<Rightarrow> cache_entry" where
  "sample_entry k bytes =
     \<lparr>e_Key = k, e_StatusCode = 200, e_Headers = [], e_Body = ''hello'', e_StoredAt = 0,
      e_TTL = 60 * Second, e_Size = bytes\<rparr>"

definition sample_store :: memory_backend where
  "sample_store = push_entry ''a'' (sample_entry ''a'' 5) (push_entry ''b'' (sample_entry ''b'' 7)
     (NewMemoryBackend 2 100))"

lemma sample_store_abs: "mb_abs sample_store = [(''a'', sample_entry ''a'' 5), (''b'', sample_entry ''b'' 7)]"
proof -
  have "mb_abs (NewMemoryBackend 2 100) = []" by (simp add: mb_abs_def NewMemoryBackend_def)
  then show ?thesis by (simp add: sample_store_def push_entry_abs)
qed

lemma sample_store_inv: "mb_inv sample_store"
proof -
  have new: "mb_abs (NewMemoryBackend 2 100) = []" by (simp add: mb_abs_def NewMemoryBackend_def)
  have b: "mb_inv (push_entry ''b'' (sample_entry ''b'' 7) (NewMemoryBackend 2 100))"
    by (rule push_entry_inv) (simp_all add: mb_inv_new new sample_entry_def)
  show ?thesis unfolding sample_store_def
    by (rule push_entry_inv [OF b]) (simp_all add: new push_entry_abs sample_entry_def)
qed

lemma sample_store_limits: "maxEntries sample_store = 2" "maxBytes sample_store = 100"
  by (simp_all add: sample_store_def frame NewMemoryBackend_def)

section \<open>Set\<close>

text \<open>C3: \<open>Set\<close> returns exactly when the entry bound is at least one. With a bound of
  zero or less (a negative \<open>cache.max_entries\<close> passes the configuration checks) the
  eviction loop never ends: the list length is never below the bound, and
  \<open>evictOldest\<close> does nothing on an empty list. The mutex is held meanwhile.\<close>

theorem SetEntry_returns_iff:
  assumes "mb_inv m" "0 \<le> e_Size e"
  shows "(\<exists>m'. SetEntry key e m = Some m') \<longleftrightarrow> 1 \<le> maxEntries m"
  using SetEntry_refines [OF assms(1) _ assms(2)] SetEntry_diverges [OF assms(1)]
  by (metis int_one_le_iff_zero_less not_less option.distinct(1))

theorem SetEntry_returns_iff_witness:
  "(\<exists>m'. SetEntry ''c'' (sample_entry ''c'' 9) sample_store = Some m')
   \<and> \<not> (\<exists>m'. SetEntry ''c'' (sample_entry ''c'' 9) (NewMemoryBackend (- 1) 100) = Some m')"
  using SetEntry_returns_iff [OF sample_store_inv, of "sample_entry ''c'' 9" "''c''"]
    SetEntry_returns_iff [OF mb_inv_new, of "sample_entry ''c'' 9" "''c''" "- 1" 100]
  by (simp add: sample_store_limits sample_entry_def NewMemoryBackend_def)

text \<open>C4: \<open>Set\<close> evicts only from the least recently used end and no more than it must:
  what stays next to the new entry is the longest prefix of the other entries that leaves
  the entry count within the bound and, unless it is empty, the bytes within the budget.\<close>

theorem SetEntry_evicts_least:
  assumes "mb_inv m" "1 \<le> maxEntries m" "0 \<le> e_Size e"
  shows "\<exists>m' n. SetEntry key e m = Some m' \<and> mb_inv m'
    \<and> mb_abs m' = (key, e) # take n (AList.delete key (mb_abs m))
    \<and> lru_fits (maxEntries m) (maxBytes m) e (AList.delete key (mb_abs m)) n
    \<and> (\<forall>j \<in> {n <.. length (AList.delete key (mb_abs m))}.
          \<not> lru_fits (maxEntries m) (maxBytes m) e (AList.delete key (mb_abs m)) j)"
proof -
  let ?rest = "AList.delete key (mb_abs m)"
  let ?fits = "lru_fits (maxEntries m) (maxBytes m) e ?rest"
  obtain m' where "SetEntry key e m = Some m'" "mb_inv m'"
      "mb_abs m' = (key, e) # take (lru_keep ?fits (length ?rest)) ?rest"
    using SetEntry_refines [OF assms, of key] by (auto simp: lru_set_def Let_def)
  moreover have "?fits 0" using assms(2) by (simp add: lru_fits_def)
  then have "?fits (lru_keep ?fits (length ?rest))" by (rule lru_keep_fits)
  moreover have "\<forall>j \<in> {lru_keep ?fits (length ?rest) <.. length ?rest}. \<not> ?fits j"
    using lru_keep_max [of ?fits "length ?rest"] by auto
  ultimately show ?thesis by blast
qed

theorem SetEntry_evicts_least_witness:
  "\<exists>m' n. SetEntry ''c'' (sample_entry ''c'' 9) sample_store = Some m'
    \<and> mb_abs m' = (''c'', sample_entry ''c'' 9) # take n (mb_abs sample_store)
    \<and> n < 2"
proof -
  have "AList.delete ''c'' (mb_abs sample_store) = mb_abs sample_store"
    by (simp add: sample_store_abs)
  moreover have "1 \<le> maxEntries sample_store" "0 \<le> e_Size (sample_entry ''c'' 9)"
    by (simp_all add: sample_store_limits sample_entry_def)
  ultimately show ?thesis
    using SetEntry_evicts_least [OF sample_store_inv, of "sample_entry ''c'' 9" "''c''"]
    unfolding lru_fits_def sample_store_limits by fastforce
qed

text \<open>An entry larger than the whole byte budget is stored all the same: every other
  entry is evicted for it, and the budget is exceeded.\<close>

theorem SetEntry_oversize:
  assumes "mb_inv m" "1 \<le> maxEntries m" "0 \<le> e_Size e" "maxBytes m < e_Size e"
  shows "\<exists>m'. SetEntry key e m = Some m' \<and> mb_abs m' = [(key, e)]
    \<and> st_SizeBytes (Stats m') = e_Size e \<and> st_MaxBytes (Stats m') < st_SizeBytes (Stats m')"
proof -
  let ?rest = "AList.delete key (mb_abs m)"
  have "0 \<le> lru_size (take n ?rest)" for n
    unfolding lru_size_def
    by (rule sum_list_nonneg_int)
      (use abs_sizes_nonneg [OF assms(1)] in \<open>force simp: delete_filter dest!: in_set_takeD\<close>)
  then have "\<not> lru_fits (maxEntries m) (maxBytes m) e ?rest n" if "0 < n" for n
  proof -
    have "maxBytes m < lru_size (take n ?rest) + e_Size e"
      using \<open>0 \<le> lru_size (take n ?rest)\<close> assms(4) by linarith
    then show ?thesis using that by (simp add: lru_fits_def)
  qed
  then have "lru_keep (lru_fits (maxEntries m) (maxBytes m) e ?rest) k = 0" for k
    by (induction k) simp_all
  then obtain m' where m': "SetEntry key e m = Some m'" "mb_inv m'" "mb_abs m' = [(key, e)]"
      "maxBytes m' = maxBytes m"
    using SetEntry_refines [OF assms(1-3), of key] by (auto simp: lru_set_def Let_def)
  then have "sizeBytes m' = e_Size e" by (simp add: sizeBytes_abs lru_size_def)
  with m' assms(4) show ?thesis by (simp add: Stats_def)
qed

theorem SetEntry_oversize_witness:
  "\<exists>m'. SetEntry ''big'' (sample_entry ''big'' 101) sample_store = Some m'
    \<and> mb_abs m' = [(''big'', sample_entry ''big'' 101)] \<and> st_SizeBytes (Stats m') = 101"
  using SetEntry_oversize [OF sample_store_inv, of "sample_entry ''big'' 101" "''big''"]
  by (simp add: sample_store_limits) (auto simp: sample_entry_def)

section \<open>Get and sequences of calls\<close>

text \<open>C2: \<open>Get\<close> implements the abstract LRU lookup: a fresh entry is returned and becomes
  the most recently used one, an expired entry is removed and is a miss, an absent key is
  a miss, and no other entry moves. It keeps the invariant and counts one hit or miss.\<close>

theorem Get_refines_lru:
  assumes "mb_inv m"
  shows "lru_get now key (mb_abs m) = (fst (Get now key m), mb_abs (snd (Get now key m)))
    \<and> mb_inv (snd (Get now key m))
    \<and> hits (snd (Get now key m)) = hits m + (if fst (Get now key m) = None then 0 else 1)
    \<and> misses (snd (Get now key m)) = misses m + (if fst (Get now key m) = None then 1 else 0)"
proof -
  have "hits (snd (Get now key m)) = hits m + (if fst (Get now key m) = None then 0 else 1)"
    using items_lookup(1) [OF assms, of key]
    by (auto simp: Get_def Let_def frame MoveToFront_def split: option.split)
  then show ?thesis
    using Get_refines [OF assms, of now key] Get_inv [OF assms, of now key] Get_counts [OF assms, of now key]
    by (cases "fst (Get now key m)") auto
qed

theorem Get_refines_lru_witness:
  "fst (Get (30 * Second) ''b'' sample_store) = Some (sample_entry ''b'' 7)
   \<and> mb_abs (snd (Get (30 * Second) ''b'' sample_store))
       = [(''b'', sample_entry ''b'' 7), (''a'', sample_entry ''a'' 5)]
   \<and> fst (Get (61 * Second) ''b'' sample_store) = None
   \<and> mb_abs (snd (Get (61 * Second) ''b'' sample_store)) = [(''a'', sample_entry ''a'' 5)]"
proof -
  have "\<not> IsExpired (30 * Second) (sample_entry ''b'' 7)" "IsExpired (61 * Second) (sample_entry ''b'' 7)"
    by (simp_all add: IsExpired_def sample_entry_def time_since_def Second_def Millisecond_def)
  then have
    "lru_get (30 * Second) ''b'' (mb_abs sample_store) =
       (Some (sample_entry ''b'' 7), [(''b'', sample_entry ''b'' 7), (''a'', sample_entry ''a'' 5)])"
    "lru_get (61 * Second) ''b'' (mb_abs sample_store) = (None, [(''a'', sample_entry ''a'' 5)])"
    unfolding sample_store_abs lru_get_def by simp_all
  then show ?thesis
    using Get_refines_lru [OF sample_store_inv, of "30 * Second" "''b''"]
      Get_refines_lru [OF sample_store_inv, of "61 * Second" "''b''"] by (metis prod.inject)
qed

text \<open>C14: starting from an empty backend with room for one entry, every sequence of calls
  runs to its end, keeps the invariant, respects the entry bound, respects the byte
  budget unless a single entry is left, and the counters of \<open>Stats\<close> are exact: the bytes
  are the sum over the entries, hits and misses add up to the lookups, stores to the \<open>Set\<close>s.\<close>

theorem memory_run_limits:
  assumes "1 \<le> maxE" "list_all op_ok xs"
  shows "\<exists>m. backend_run memory_Backend xs (NewMemoryBackend maxE maxB) = Some m \<and> mb_inv m
    \<and> st_Entries (Stats m) \<le> maxE
    \<and> (st_SizeBytes (Stats m) \<le> maxB \<or> st_Entries (Stats m) \<le> 1)
    \<and> st_SizeBytes (Stats m) = (\<Sum>x\<leftarrow>mb_abs m. e_Size (snd x))
    \<and> st_Hits (Stats m) + st_Misses (Stats m) = int (length (filter (\<lambda>x. is_OpGet x) xs))
    \<and> st_Stores (Stats m) = int (length (filter (\<lambda>x. is_OpSet x) xs))"
proof -
  let ?m = "NewMemoryBackend maxE maxB"
  have new: "mb_inv ?m" "1 \<le> maxEntries ?m" "within_limits ?m"
    "hits ?m = 0" "misses ?m = 0" "stores ?m = 0" "maxEntries ?m = maxE" "maxBytes ?m = maxB"
    using assms(1) by (simp_all add: mb_inv_new within_limits_def Len_def) (simp_all add: NewMemoryBackend_def)
  obtain m where m: "backend_run memory_Backend xs ?m = Some m" "mb_inv m" "within_limits m"
      "maxEntries m = maxE" "maxBytes m = maxB"
      "hits m + misses m = int (length (filter (\<lambda>x. is_OpGet x) xs))"
      "stores m = int (length (filter (\<lambda>x. is_OpSet x) xs))"
    using memory_run [OF new(1,2) assms(2) new(3)] new(4-8) by auto
  then show ?thesis
    using sizeBytes_abs [OF m(2)] by (auto simp: Stats_def within_limits_def Len_def lru_size_def)
qed

theorem memory_run_limits_witness:
  "\<exists>m. backend_run memory_Backend
      [OpSet ''a'' (sample_entry ''a'' 5), OpGet 0 ''a'', OpGet 0 ''b'', OpPurge,
       OpSet ''b'' (sample_entry ''b'' 7)] (NewMemoryBackend 1 100) = Some m
    \<and> st_Entries (Stats m) \<le> 1 \<and> st_Hits (Stats m) + st_Misses (Stats m) = 2
    \<and> st_Stores (Stats m) = 2"
proof -
  have "list_all op_ok [OpSet ''a'' (sample_entry ''a'' 5), OpGet 0 ''a'', OpGet 0 ''b'', OpPurge,
       OpSet ''b'' (sample_entry ''b'' 7)]"
    by (simp add: sample_entry_def)
  from memory_run_limits [OF _ this, of 1 100] show ?thesis by auto
qed

text \<open>C15: a hit is never wrong. After any calls on a fresh backend, an entry that \<open>Get\<close>
  returns is the one that an unbounded map fed with the same calls holds under that key:
  the last one stored there and not deleted or purged since; and it has not expired.\<close>

theorem memory_hit_is_last_set:
  assumes "list_all op_ok xs" "backend_run memory_Backend xs (NewMemoryBackend maxE maxB) = Some m"
    and "fst (Get now key m) = Some e"
  shows "fold ideal_op xs Map.empty key = Some e \<and> time_since now (e_StoredAt e) \<le> e_TTL e"
proof -
  have "lookup (NewMemoryBackend maxE maxB) = Map.empty"
    by (simp add: lookup_def mb_abs_def NewMemoryBackend_def)
  from memory.hit_after_run [OF mb_inv_new this assms(1,2), of now key e] assms(3) show ?thesis
    by (simp add: memory_Backend_def IsExpired_def not_less)
qed

lemma SetEntry_fresh:
  "map_of (items m) key = None \<Longrightarrow> \<not> needs_room e m \<Longrightarrow> SetEntry key e m = Some (push_entry key e m)"
  by (simp add: SetEntry_def evict_loop_stop)

lemma sample_run:
  "backend_run memory_Backend [OpSet ''b'' (sample_entry ''b'' 7), OpSet ''a'' (sample_entry ''a'' 5)]
     (NewMemoryBackend 2 100) = Some sample_store"
  by (simp add: memory_Backend_def sample_store_def SetEntry_fresh needs_room_def push_entry_def
      NewMemoryBackend_def sample_entry_def)

theorem memory_hit_is_last_set_witness:
  "fold ideal_op [OpSet ''b'' (sample_entry ''b'' 7), OpSet ''a'' (sample_entry ''a'' 5)] Map.empty ''b''
     = Some (sample_entry ''b'' 7)"
proof -
  have "fst (Get (30 * Second) ''b'' sample_store) = Some (sample_entry ''b'' 7)"
    using Get_refines [OF sample_store_inv, of "30 * Second" "''b''"]
    unfolding sample_store_abs lru_get_def
    by (simp add: IsExpired_def sample_entry_def time_since_def Second_def Millisecond_def)
  moreover have "list_all op_ok [OpSet ''b'' (sample_entry ''b'' 7), OpSet ''a'' (sample_entry ''a'' 5)]"
    by (simp add: sample_entry_def)
  ultimately show ?thesis using memory_hit_is_last_set [OF _ sample_run] by blast
qed

section \<open>Keys and deletion by path\<close>

text \<open>C24: as long as no bar occurs in the parts, two requests share a cache key exactly when
  they agree on the method (HEAD counting as GET), the host up to case, the normalised path,
  the normalised query and the normalised Accept-Encoding. The last part may hold bars.\<close>

theorem CacheKey_same_iff:
  assumes "CHR ''|'' \<notin> set (meth @ host @ Path p @ Query q)"
    and "CHR ''|'' \<notin> set (meth' @ host' @ Path p' @ Query q')"
  shows "CacheKey meth host p q ae = CacheKey meth' host' p' q' ae' \<longleftrightarrow>
    key_method meth = key_method meth' \<and> ToLower host = ToLower host' \<and> Path p = Path p'
    \<and> Query q = Query q' \<and> AcceptEncoding ae = AcceptEncoding ae'"
  using assms by (simp add: CacheKey_parts Split_prefix_eq key_method_bar set_ToLower_bar)

theorem CacheKey_same_iff_witness:
  "CacheKey ''HEAD'' ''Example.com'' ''/a/../b'' '''' ''gzip, br'' =
   CacheKey ''get'' ''example.COM'' ''/b'' '''' ''br,gzip''"
proof -
  have p: "Path ''/a/../b'' = ''/b''" "Path ''/b'' = ''/b''"
    and q: "Query '''' = ''''" by code_simp+
  have "CHR ''|'' \<notin> set (''HEAD'' @ ''Example.com'' @ Path ''/a/../b'' @ Query '''')"
    "CHR ''|'' \<notin> set (''get'' @ ''example.COM'' @ Path ''/b'' @ Query '''')"
    unfolding p q by simp_all
  moreover have "key_method ''HEAD'' = key_method ''get''" "ToLower ''Example.com'' = ToLower ''example.COM''"
    "AcceptEncoding ''gzip, br'' = AcceptEncoding ''br,gzip''" by code_simp+
  ultimately show ?thesis
    using p by (subst CacheKey_same_iff) simp_all
qed

text \<open>With bars the key is ambiguous. A client can choose the path and the
  Accept-Encoding header so that its request and a request for another path with another
  query share a cache entry, on every host.\<close>

theorem CacheKey_collision:
  "CacheKey ''GET'' host ''/a|b=1'' '''' ''gzip'' = CacheKey ''GET'' host ''/a'' ''b=1'' ''|gzip''
   \<and> Path ''/a|b=1'' \<noteq> Path ''/a''"
proof -
  have "Path ''/a|b=1'' = ''/a|b=1''" "Path ''/a'' = ''/a''" "Query '''' = ''''" "Query ''b=1'' = ''b=1''"
    "AcceptEncoding ''gzip'' = ''gzip''" "AcceptEncoding ''|gzip'' = ''|gzip''" by code_simp+
  then show ?thesis by (simp add: CacheKey_parts)
qed

text \<open>The two deletions by path do what they say on entries stored under the proxy's
  own keys, provided method, host and normalised path hold no bar: deletion by prefix drops
  an entry exactly when its normalised path starts with the prefix, deletion by path exactly
  when it is the path; all other entries stay, and the count reported is the number dropped.\<close>

theorem delete_by_path_exact:
  fixes q ae :: string
  assumes "mb_inv m" "CHR ''|'' \<notin> set (meth @ host @ Path p)"
  defines "k \<equiv> CacheKey meth host p q ae"
  shows "lookup (snd (DeleteByPrefix pre m)) k = (if HasPrefix (Path p) pre then None else lookup m k)
    \<and> lookup (snd (DeleteByPath path m)) k = (if Path p = path then None else lookup m k)
    \<and> fst (DeleteByPrefix pre m) = Len m - Len (snd (DeleteByPrefix pre m))
    \<and> fst (DeleteByPath path m) = Len m - Len (snd (DeleteByPath path m))"
proof -
  have count: "fst (remove_all (to_remove P m) 0 m) = Len m - Len (snd (remove_all (to_remove P m) 0 m))" for P
    using bulk_delete(1,2) [OF assms(1), of P] sum_length_filter_compl [of "\<lambda>x. P (fst x)" "mb_abs m"]
      length_abs [of "snd (remove_all (to_remove P m) 0 m)"]
    by (simp add: Len_def)
  show ?thesis
    using CacheKey_matches [of meth host p] assms(2) lookup_bulk [OF assms(1)]
    by (simp add: k_def count DeleteByPrefix_def DeleteByPath_def)
qed

theorem delete_by_path_exact_witness:
  "fst (DeleteByPrefix ''/a'' sample_store) = Len sample_store - Len (snd (DeleteByPrefix ''/a'' sample_store))
   \<and> lookup (snd (DeleteByPrefix ''/a'' sample_store)) (CacheKey ''GET'' ''h'' ''/a/b'' '''' '''') = None"
proof -
  have p: "Path ''/a/b'' = ''/a/b''" by code_simp
  have "CHR ''|'' \<notin> set (''GET'' @ ''h'' @ Path ''/a/b'')" unfolding p by simp
  from delete_by_path_exact [OF sample_store_inv this, of "''/a''"] show ?thesis
    unfolding p by (simp add: HasPrefix_def)
qed

text \<open>A path that holds a bar escapes deletion by path, whatever the store holds.\<close>

theorem delete_by_path_misses_bar:
  assumes "mb_inv m"
  shows "lookup (snd (DeleteByPath ''/a|b'' m)) (CacheKey ''GET'' host ''/a|b'' q ae)
    = lookup m (CacheKey ''GET'' host ''/a|b'' q ae)"
proof -
  have "\<not> pathMatches k ''/a|b''" for k
  proof
    assume "pathMatches k ''/a|b''"
    then have "''/a|b'' \<in> set (Split (CHR ''|'') k)"
      using nth_mem [of 2 "splitCacheKey k"] by (auto simp: pathMatches_def Let_def splitCacheKey_eq)
    then show False using Split_no_sep by fastforce
  qed
  then show ?thesis using lookup_bulk(2) [OF assms] by simp
qed

theorem delete_by_path_misses_bar_witness:
  "lookup (snd (DeleteByPath ''/a|b'' sample_store)) (CacheKey ''GET'' ''h'' ''/a|b'' '''' '''')
    = lookup sample_store (CacheKey ''GET'' ''h'' ''/a|b'' '''' '''')"
  by (rule delete_by_path_misses_bar [OF sample_store_inv])

text \<open>The hand-written \<open>splitCacheKey\<close> loses nothing: it returns the bar-free parts
  between the bars, which joined with bars give the key back.\<close>

theorem splitCacheKey_parts:
  "splitCacheKey key = Split (CHR ''|'') key \<and> Join (splitCacheKey key) ''|'' = key
   \<and> list_all (\<lambda>p. CHR ''|'' \<notin> set p) (splitCacheKey key)"
  using Join_Split [of "CHR ''|''" key] Split_no_sep [of _ "CHR ''|''" key]
  by (auto simp: splitCacheKey_eq list_all_iff)

end
