(* ===== verification/Config.thy ===== *)
theory Config
  imports Prelude
begin

text \<open>
  \<open>proxy/internal/config/config.go\<close>: the configuration records, their durations, the
  loaders, defaults and validation. The file system (\<open>os.ReadFile\<close>) and the YAML decoder
  (\<open>gopkg.in/yaml.v3\<close>) are the arguments \<open>read_file\<close> and \<open>unmarshal\<close> of the loaders.
\<close>

section \<open>The main configuration\<close>

record server_config =
  ListenAddr :: string
  AdminListenAddr :: string
  ReadTimeoutMS :: int
  WriteTimeoutMS :: int
  IdleTimeoutMS :: int
  MaxHeaderBytes :: int
  GracefulShutdownTimeoutMS :: int

definition ms_duration :: "int \<Rightarrow> duration" where
  "ms_duration ms = i64 (ms * Millisecond)"

definition seconds_duration :: "int \<Rightarrow> duration" where
  "seconds_duration s = i64 (s * Second)"

definition ReadTimeout :: "server_config \<Rightarrow> duration" where
  "ReadTimeout s = ms_duration (ReadTimeoutMS s)"
definition WriteTimeout :: "server_config \<Rightarrow> duration" where
  "WriteTimeout s = ms_duration (WriteTimeoutMS s)"
definition IdleTimeout :: "server_config \<Rightarrow> duration" where
  "IdleTimeout s = ms_duration (IdleTimeoutMS s)"
definition GracefulShutdownTimeout :: "server_config \<Rightarrow> duration" where
  "GracefulShutdownTimeout s = ms_duration (GracefulShutdownTimeoutMS s)"

record upstream_config =
  up_Name :: string
  BaseURL :: string
  ConnectTimeoutMS :: int
  ResponseHeaderTimeoutMS :: int
  MaxIdleConns :: int
  MaxIdleConnsPerHost :: int

definition ConnectTimeout :: "upstream_config \<Rightarrow> duration" where
  "ConnectTimeout u = ms_duration (ConnectTimeoutMS u)"
definition ResponseHeaderTimeout :: "upstream_config \<Rightarrow> duration" where
  "ResponseHeaderTimeout u = ms_duration (ResponseHeaderTimeoutMS u)"

record routing_config =
  DefaultUpstream :: string

record security_config =
  TrustXForwardedFor :: bool
  MaxBodyInspectBytes :: int
  MaxRequestBodyBytes :: int

record cache_config =
  CacheEnabled :: bool
  MaxEntries :: int
  MaxBytes :: int
  DefaultTTLSeconds :: int
  RespectOriginCC :: bool
  BypassOnCookie :: bool
  BypassOnAuthorization :: bool
  NeverStoreOnSetCookie :: bool
  DebugHeaders :: bool

definition DefaultTTL :: "cache_config \<Rightarrow> duration" where
  "DefaultTTL c = seconds_duration (DefaultTTLSeconds c)"

record admin_api_config =
  AdminEnabled :: bool
  AuthToken :: string

record logging_config =
  LogLevel :: string
  LogFormat :: string

record config =
  Server :: server_config
  Upstreams :: "upstream_config list"
  Routing :: routing_config
  Security :: security_config
  CacheCfg :: cache_config
  AdminAPI :: admin_api_config
  Logging :: logging_config

section \<open>The rule files\<close>

record waf_condition =
  wc_PathRegex :: string
  wc_QueryRegex :: string
  wc_BodyRegex :: string
  wc_HeaderName :: string
  wc_HeaderRegex :: string
  wc_IPCIDR :: string
  wc_Method :: string
  wc_UserAgentRegex :: string
  wc_ContentType :: string

record waf_action =
  wa_Type :: string
  wa_StatusCode :: int
  wa_Log :: bool

record waf_rule =
  wr_ID :: string
  wr_Enabled :: bool
  wr_Phase :: string
  wr_Description :: string
  wr_Any :: "waf_condition list"  \<comment> \<open>\<open>Match.Any\<close>\<close>
  wr_Action :: waf_action

record waf_config =
  waf_Mode :: string
  waf_Rules :: "waf_rule list"

record cache_rule_cache =
  Eligible :: bool
  TTLSeconds :: int

definition rule_TTL :: "cache_rule_cache \<Rightarrow> duration" where
  "rule_TTL c = seconds_duration (TTLSeconds c)"

record cache_rule =
  cr_ID :: string
  cr_PathPrefix :: string
  cr_PathExact :: string
  cr_PathRegex :: string
  cr_Methods :: "string list"
  cr_Cache :: cache_rule_cache

record rate_limit_rule =
  rl_ID :: string
  rl_Key :: string
  rl_PathPrefix :: string
  rl_Rate :: int
  rl_Burst :: int
  rl_Enabled :: bool

record rate_limit_exemptions =
  ex_CIDRs :: "string list"
  ex_Paths :: "string list"

record rate_limit_config =
  rl_Rules :: "rate_limit_rule list"
  rl_Exemptions :: rate_limit_exemptions

section \<open>Defaults\<close>

definition or_default :: "'a \<Rightarrow> 'a \<Rightarrow> 'a \<Rightarrow> 'a" where
  "or_default zero d x = (if x = zero then d else x)"

definition default_server :: "server_config \<Rightarrow> server_config" where
  "default_server s = s
     \<lparr>ListenAddr := or_default '''' '':8080'' (ListenAddr s),
      AdminListenAddr := or_default '''' '':8081'' (AdminListenAddr s),
      ReadTimeoutMS := or_default 0 5000 (ReadTimeoutMS s),
      WriteTimeoutMS := or_default 0 10000 (WriteTimeoutMS s),
      IdleTimeoutMS := or_default 0 60000 (IdleTimeoutMS s),
      MaxHeaderBytes := or_default 0 (push_bit 20 1) (MaxHeaderBytes s),
      GracefulShutdownTimeoutMS := or_default 0 15000 (GracefulShutdownTimeoutMS s)\<rparr>"

definition default_security :: "security_config \<Rightarrow> security_config" where
  "default_security s = s
     \<lparr>MaxBodyInspectBytes := or_default 0 65536 (MaxBodyInspectBytes s),
      MaxRequestBodyBytes := or_default 0 (push_bit 20 10) (MaxRequestBodyBytes s)\<rparr>"

definition default_cache :: "cache_config \<Rightarrow> cache_config" where
  "default_cache c = c
     \<lparr>MaxEntries := or_default 0 5000 (MaxEntries c),
      MaxBytes := or_default 0 (push_bit 20 256) (MaxBytes c),
      DefaultTTLSeconds := or_default 0 30 (DefaultTTLSeconds c)\<rparr>"

definition default_logging :: "logging_config \<Rightarrow> logging_config" where
  "default_logging l = l
     \<lparr>LogLevel := or_default '''' ''info'' (LogLevel l),
      LogFormat := or_default '''' ''json'' (LogFormat l)\<rparr>"

definition applyDefaults :: "config \<Rightarrow> config" where
  "applyDefaults cfg = cfg
     \<lparr>Server := default_server (Server cfg), Security := default_security (Security cfg),
      CacheCfg := default_cache (CacheCfg cfg), Logging := default_logging (Logging cfg)\<rparr>"

section \<open>Validation\<close>

datatype config_error =
    NoUpstreams
  | NoDefaultUpstream
  | UpstreamNoName
  | UpstreamNoBaseURL string
  | DefaultUpstreamNotFound string
  | NoAuthToken

fun validate_upstreams :: "string \<Rightarrow> upstream_config list \<Rightarrow> bool \<Rightarrow> config_error + bool" where
  "validate_upstreams dflt [] found = Inr found"
| "validate_upstreams dflt (u # us) found =
     (if up_Name u = '''' then Inl UpstreamNoName
      else if BaseURL u = '''' then Inl (UpstreamNoBaseURL (up_Name u))
      else validate_upstreams dflt us (if up_Name u = dflt then True else found))"

definition validate :: "config \<Rightarrow> config_error option" where
  "validate cfg =
     (if Upstreams cfg = [] then Some NoUpstreams
      else if DefaultUpstream (Routing cfg) = '''' then Some NoDefaultUpstream
      else case validate_upstreams (DefaultUpstream (Routing cfg)) (Upstreams cfg) False of
             Inl e \<Rightarrow> Some e
           | Inr found \<Rightarrow>
               if \<not> found then Some (DefaultUpstreamNotFound (DefaultUpstream (Routing cfg)))
               else if AdminEnabled (AdminAPI cfg) \<and> AuthToken (AdminAPI cfg) = ''''
                    then Some NoAuthToken
                    else None)"

section \<open>Loading\<close>

datatype load_error = ReadError string | ParseError string | ValidateError config_error

definition load_file :: "(string \<Rightarrow> string option) \<Rightarrow> (string \<Rightarrow> 'a option) \<Rightarrow> string \<Rightarrow> load_error + 'a" where
  "load_file read_file unmarshal path =
     (case read_file path of
        None \<Rightarrow> Inl (ReadError path)
      | Some data \<Rightarrow> (case unmarshal data of None \<Rightarrow> Inl (ParseError path) | Some cfg \<Rightarrow> Inr cfg))"

definition Load :: "(string \<Rightarrow> string option) \<Rightarrow> (string \<Rightarrow> config option) \<Rightarrow> string \<Rightarrow> load_error + config" where
  "Load read_file unmarshal path =
     (case load_file read_file unmarshal path of
        Inl e \<Rightarrow> Inl e
      | Inr cfg \<Rightarrow>
          let cfg = applyDefaults cfg
          in (case validate cfg of Some e \<Rightarrow> Inl (ValidateError e) | None \<Rightarrow> Inr cfg))"

definition LoadWAFConfig ::
  "(string \<Rightarrow> string option) \<Rightarrow> (string \<Rightarrow> waf_config option) \<Rightarrow> string \<Rightarrow> load_error + waf_config" where
  "LoadWAFConfig read_file unmarshal path = load_file read_file unmarshal path"

definition LoadCacheRulesConfig ::
  "(string \<Rightarrow> string option) \<Rightarrow> (string \<Rightarrow> cache_rule list option) \<Rightarrow> string \<Rightarrow> load_error + cache_rule list" where
  "LoadCacheRulesConfig read_file unmarshal path = load_file read_file unmarshal path"

definition LoadRateLimitConfig ::
  "(string \<Rightarrow> string option) \<Rightarrow> (string \<Rightarrow> rate_limit_config option) \<Rightarrow> string \<Rightarrow> load_error + rate_limit_config" where
  "LoadRateLimitConfig read_file unmarshal path = load_file read_file unmarshal path"

section \<open>Lemmas\<close>

lemma or_default_idem [simp]: "or_default z d (or_default z d x) = or_default z d x"
  and or_default_ne: "d \<noteq> z \<Longrightarrow> or_default z d x \<noteq> z"
  and or_default_set: "x \<noteq> z \<Longrightarrow> or_default z d x = x"
  by (simp_all add: or_default_def)

lemmas default_defs = default_server_def default_security_def default_cache_def default_logging_def

lemma applyDefaults_idem: "applyDefaults (applyDefaults cfg) = applyDefaults cfg"
  by (simp add: applyDefaults_def default_defs)

lemma validate_applyDefaults: "validate (applyDefaults cfg) = validate cfg"
proof -
  have "Upstreams (applyDefaults cfg) = Upstreams cfg" "Routing (applyDefaults cfg) = Routing cfg"
    "AdminAPI (applyDefaults cfg) = AdminAPI cfg" by (simp_all add: applyDefaults_def)
  then show ?thesis by (simp only: validate_def)
qed

lemma validate_upstreams_eq:
  "validate_upstreams d us found =
     (case find (\<lambda>u. up_Name u = '''' \<or> BaseURL u = '''') us of
        None \<Rightarrow> Inr (found \<or> d \<in> up_Name ` set us)
      | Some u \<Rightarrow> Inl (if up_Name u = '''' then UpstreamNoName else UpstreamNoBaseURL (up_Name u)))"
  by (induction d us found rule: validate_upstreams.induct) (auto split: option.split)

lemma i64_exact_iff: "i64 x = x \<longleftrightarrow> min_i64 \<le> x \<and> x \<le> max_i64"
  using i64_range [of x] by auto

lemma Load_Inr:
  "Load read_file unmarshal path = Inr cfg \<longleftrightarrow>
    (\<exists>data raw. read_file path = Some data \<and> unmarshal data = Some raw
      \<and> validate raw = None \<and> cfg = applyDefaults raw)"
  by (auto simp: Load_def load_file_def Let_def validate_applyDefaults split: option.splits)

lemma validate_None_iff:
  "validate cfg = None \<longleftrightarrow>
     list_all (\<lambda>u. up_Name u \<noteq> '''' \<and> BaseURL u \<noteq> '''') (Upstreams cfg)
     \<and> DefaultUpstream (Routing cfg) \<in> up_Name ` set (Upstreams cfg)
     \<and> \<not> (AdminEnabled (AdminAPI cfg) \<and> AuthToken (AdminAPI cfg) = '''')"
proof -
  let ?P = "\<lambda>u. up_Name u = '''' \<or> BaseURL u = ''''"
  have good: "list_all (\<lambda>u. up_Name u \<noteq> '''' \<and> BaseURL u \<noteq> '''') (Upstreams cfg) \<longleftrightarrow> find ?P (Upstreams cfg) = None"
    by (auto simp: find_None_iff list_all_iff)
  show ?thesis
  proof (cases "find ?P (Upstreams cfg)")
    case None
    then have "'''' \<notin> up_Name ` set (Upstreams cfg)" by (auto simp: find_None_iff)
    then have "DefaultUpstream (Routing cfg) \<in> up_Name ` set (Upstreams cfg) \<Longrightarrow>
        Upstreams cfg \<noteq> [] \<and> DefaultUpstream (Routing cfg) \<noteq> ''''"
      by (cases "Upstreams cfg = []") (simp, metis)
    then show ?thesis
      unfolding good validate_def validate_upstreams_eq None by auto
  next
    case (Some u)
    then show ?thesis
      unfolding good validate_def validate_upstreams_eq Some by auto
  qed
qed

section \<open>Properties\<close>

text \<open>Validation accepts exactly the configurations whose upstreams are all named and
  have a base URL, whose default upstream is one of them, and whose admin API, when enabled,
  has a token.\<close>

theorem validate_accepts_iff:
  "validate cfg = None \<longleftrightarrow>
     list_all (\<lambda>u. up_Name u \<noteq> '''' \<and> BaseURL u \<noteq> '''') (Upstreams cfg)
     \<and> DefaultUpstream (Routing cfg) \<in> up_Name ` set (Upstreams cfg)
     \<and> \<not> (AdminEnabled (AdminAPI cfg) \<and> AuthToken (AdminAPI cfg) = '''')"
  by (rule validate_None_iff)

text \<open>A configuration that loads is the file's with the defaults filled in: loading it
  again changes nothing, it is valid, and every limit and timeout that has a default is
  non-zero. A limit may still be negative.\<close>

theorem Load_result:
  assumes "Load read_file unmarshal path = Inr cfg"
  shows "(\<exists>data raw. read_file path = Some data \<and> unmarshal data = Some raw \<and> cfg = applyDefaults raw)
    \<and> applyDefaults cfg = cfg \<and> validate cfg = None
    \<and> ListenAddr (Server cfg) \<noteq> '''' \<and> ReadTimeoutMS (Server cfg) \<noteq> 0 \<and> MaxHeaderBytes (Server cfg) \<noteq> 0
    \<and> MaxEntries (CacheCfg cfg) \<noteq> 0 \<and> MaxBytes (CacheCfg cfg) \<noteq> 0 \<and> DefaultTTLSeconds (CacheCfg cfg) \<noteq> 0
    \<and> MaxBodyInspectBytes (Security cfg) \<noteq> 0 \<and> MaxRequestBodyBytes (Security cfg) \<noteq> 0"
proof -
  obtain data raw where raw: "read_file path = Some data" "unmarshal data = Some raw"
      "validate raw = None" "cfg = applyDefaults raw"
    using assms unfolding Load_Inr by blast
  have "applyDefaults cfg = cfg" "validate cfg = None"
    using raw by (simp_all add: applyDefaults_idem validate_applyDefaults)
  moreover have "ListenAddr (Server cfg) \<noteq> ''''" "ReadTimeoutMS (Server cfg) \<noteq> 0" "MaxHeaderBytes (Server cfg) \<noteq> 0"
    "MaxEntries (CacheCfg cfg) \<noteq> 0" "MaxBytes (CacheCfg cfg) \<noteq> 0" "DefaultTTLSeconds (CacheCfg cfg) \<noteq> 0"
    "MaxBodyInspectBytes (Security cfg) \<noteq> 0" "MaxRequestBodyBytes (Security cfg) \<noteq> 0"
    unfolding raw(4) applyDefaults_def default_defs by (simp_all add: or_default_def)
  ultimately show ?thesis using raw by blast
qed

definition sample_config :: config where
  "sample_config =
     \<lparr>Server = \<lparr>ListenAddr = '''', AdminListenAddr = '''', ReadTimeoutMS = 0, WriteTimeoutMS = 0,
        IdleTimeoutMS = 0, MaxHeaderBytes = 0, GracefulShutdownTimeoutMS = 0\<rparr>,
      Upstreams = [\<lparr>up_Name = ''origin'', BaseURL = ''http://origin:8000'', ConnectTimeoutMS = 2000,
        ResponseHeaderTimeoutMS = 5000, MaxIdleConns = 100, MaxIdleConnsPerHost = 50\<rparr>],
      Routing = \<lparr>DefaultUpstream = ''origin''\<rparr>,
      Security = \<lparr>TrustXForwardedFor = False, MaxBodyInspectBytes = 0, MaxRequestBodyBytes = 0\<rparr>,
      CacheCfg = \<lparr>CacheEnabled = True, MaxEntries = - 1, MaxBytes = 0, DefaultTTLSeconds = 0,
        RespectOriginCC = True, BypassOnCookie = True, BypassOnAuthorization = True,
        NeverStoreOnSetCookie = True, DebugHeaders = True\<rparr>,
      AdminAPI = \<lparr>AdminEnabled = True, AuthToken = ''change-me''\<rparr>,
      Logging = \<lparr>LogLevel = '''', LogFormat = ''''\<rparr>\<rparr>"

lemma sample_Load: "Load Some (\<lambda>_. Some sample_config) ''edge.yaml'' = Inr (applyDefaults sample_config)"
  by (simp add: Load_Inr validate_def sample_config_def)

theorem Load_result_witness:
  "MaxBytes (CacheCfg (applyDefaults sample_config)) \<noteq> 0
   \<and> MaxEntries (CacheCfg (applyDefaults sample_config)) = - 1"
  using Load_result [OF sample_Load]
  by (simp add: applyDefaults_def default_cache_def or_default_def sample_config_def)

text \<open>The timeouts and TTLs are the configured number of milliseconds or seconds exactly
  while that fits in 64 bits of nanoseconds; one second more and the TTL wraps to a negative
  duration, with which every entry counts as expired.\<close>

theorem durations_exact_iff:
  "(ReadTimeout s = ReadTimeoutMS s * 1000000 \<longleftrightarrow>
      - 9223372036854 \<le> ReadTimeoutMS s \<and> ReadTimeoutMS s \<le> 9223372036854)
   \<and> (DefaultTTL c = DefaultTTLSeconds c * 1000000000 \<longleftrightarrow>
      - 9223372036 \<le> DefaultTTLSeconds c \<and> DefaultTTLSeconds c \<le> 9223372036)
   \<and> (rule_TTL r = TTLSeconds r * 1000000000 \<longleftrightarrow>
      - 9223372036 \<le> TTLSeconds r \<and> TTLSeconds r \<le> 9223372036)
   \<and> DefaultTTL (c\<lparr>DefaultTTLSeconds := 9223372037\<rparr>) < 0"
proof -
  have ms: "ms_duration n = n * 1000000 \<longleftrightarrow> - 9223372036854 \<le> n \<and> n \<le> 9223372036854" for n
    unfolding ms_duration_def Millisecond_def i64_exact_iff by auto
  have s: "seconds_duration n = n * 1000000000 \<longleftrightarrow> - 9223372036 \<le> n \<and> n \<le> 9223372036" for n
    using i64_exact_iff [of "n * 1000000000"]
    unfolding seconds_duration_def Second_def Millisecond_def by auto
  have "seconds_duration 9223372037 < 0"
    by (simp add: seconds_duration_def Second_def Millisecond_def i64_def)
  then show ?thesis
    by (simp add: ReadTimeout_def DefaultTTL_def rule_TTL_def ms s)
qed

end
