(* ===== verification/CachePolicy.thy ===== *)
theory CachePolicy
  imports Config Http
begin

text \<open>
  \<open>proxy/internal/cache/policy.go\<close>: which requests may be answered from the cache, which
  responses may be stored, and for how long. The regular expression engine is an argument:
  \<open>compile\<close> turns a pattern into the predicate \<open>MatchString\<close> of the compiled expression,
  or fails. Every statement holds for whatever engine is put there.
\<close>

type_synonym regexp = "string \<Rightarrow> bool"
type_synonym regexp_compiler = "string \<Rightarrow> regexp option"

record compiled_cache_rule =
  cc_rule :: cache_rule
  cc_pathRegex :: "regexp option"  \<comment> \<open>\<open>None\<close> is the nil pointer\<close>

record policy =
  pol_cfg :: cache_config
  pol_rules :: "cache_rule list"
  pol_compiled :: "compiled_cache_rule list"

text \<open>What the debug header says; the last two are never used.\<close>

type_synonym CacheStatus = string

abbreviation StatusHIT :: CacheStatus where "StatusHIT \<equiv> ''HIT''"
abbreviation StatusMISS :: CacheStatus where "StatusMISS \<equiv> ''MISS''"
abbreviation StatusBYPASS :: CacheStatus where "StatusBYPASS \<equiv> ''BYPASS''"
abbreviation StatusSTORE :: CacheStatus where "StatusSTORE \<equiv> ''STORE''"
abbreviation StatusEXPIRED :: CacheStatus where "StatusEXPIRED \<equiv> ''EXPIRED''"

text \<open>A pattern that does not compile leaves a nil expression: the error is dropped.\<close>

definition compile_cache_rule :: "regexp_compiler \<Rightarrow> cache_rule \<Rightarrow> compiled_cache_rule" where
  "compile_cache_rule compile r =
     \<lparr>cc_rule = r, cc_pathRegex = (if cr_PathRegex r \<noteq> '''' then compile (cr_PathRegex r) else None)\<rparr>"

definition NewPolicy :: "regexp_compiler \<Rightarrow> cache_config \<Rightarrow> cache_rule list \<Rightarrow> policy" where
  "NewPolicy compile cfg rules =
     \<lparr>pol_cfg = cfg, pol_rules = rules, pol_compiled = map (compile_cache_rule compile) rules\<rparr>"

definition matchRulePath :: "compiled_cache_rule \<Rightarrow> string \<Rightarrow> bool" where
  "matchRulePath cr path =
     (let rule = cc_rule cr
      in if cr_PathExact rule \<noteq> '''' then path = cr_PathExact rule
         else if cr_PathPrefix rule \<noteq> '''' then HasPrefix path (cr_PathPrefix rule)
         else (case cc_pathRegex cr of Some re \<Rightarrow> re path | None \<Rightarrow> False))"

definition matchRuleMethod :: "compiled_cache_rule \<Rightarrow> string \<Rightarrow> bool" where
  "matchRuleMethod cr method =
     (cr_Methods (cc_rule cr) = [] \<or> list_ex (\<lambda>m. EqualFold m method) (cr_Methods (cc_rule cr)))"

definition matchCacheRule :: "compiled_cache_rule \<Rightarrow> request \<Rightarrow> bool" where
  "matchCacheRule cr r \<longleftrightarrow> matchRulePath cr (u_Path (r_URL r)) \<and> matchRuleMethod cr (r_Method r)"

text \<open>The loops over the rules.\<close>

fun rules_cacheable :: "compiled_cache_rule list \<Rightarrow> request \<Rightarrow> bool \<times> string" where
  "rules_cacheable [] r = (True, '''')"
| "rules_cacheable (cr # crs) r =
     (if matchCacheRule cr r
      then if \<not> Eligible (cr_Cache (cc_rule cr)) then (False, ''rule_'' @ cr_ID (cc_rule cr))
           else (True, '''')
      else rules_cacheable crs r)"

definition IsRequestCacheable :: "policy \<Rightarrow> request \<Rightarrow> bool \<times> string" where
  "IsRequestCacheable p r =
     (if r_Method r \<noteq> ''GET'' \<and> r_Method r \<noteq> ''HEAD'' then (False, ''method_not_cacheable'')
      else if BypassOnAuthorization (pol_cfg p) \<and> header_Get (r_Header r) ''Authorization'' \<noteq> ''''
      then (False, ''authorization_header'')
      else if BypassOnCookie (pol_cfg p) \<and> header_Get (r_Header r) ''Cookie'' \<noteq> ''''
      then (False, ''cookie_header'')
      else rules_cacheable (pol_compiled p) r)"

definition IsResponseStorable :: "policy \<Rightarrow> int \<Rightarrow> header \<Rightarrow> bool \<times> string" where
  "IsResponseStorable p statusCode headers =
     (if statusCode < 200 \<or> statusCode \<ge> 300 then (False, ''non_2xx_status'')
      else
        let ccLower = ToLower (header_Get headers ''Cache-Control'')
        in if Contains ccLower ''no-store'' then (False, ''cache_control_no_store'')
           else if Contains ccLower ''private'' then (False, ''cache_control_private'')
           else if Contains ccLower ''no-cache'' then (False, ''cache_control_no_cache'')
           else if NeverStoreOnSetCookie (pol_cfg p) \<and> header_Get headers ''Set-Cookie'' \<noteq> ''''
           then (False, ''set_cookie_header'')
           else (True, ''''))"

text \<open>The digits of a directive, in 64-bit arithmetic that wraps around.\<close>

fun parse_seconds :: "string \<Rightarrow> int \<Rightarrow> int" where
  "parse_seconds [] seconds = seconds"
| "parse_seconds (c # cs) seconds =
     (if is_digit c then parse_seconds cs (i64 (seconds * 10 + digit_val c)) else seconds)"

definition parseCCDirective :: "string \<Rightarrow> string \<Rightarrow> duration" where
  "parseCCDirective cc directive =
     (let lower = ToLower cc
      in case Index lower directive of
           None \<Rightarrow> 0
         | Some idx \<Rightarrow>
             let val = drop (idx + length directive) lower;
                 val = (case IndexAny val '', '' of None \<Rightarrow> val | Some end \<Rightarrow> take end val);
                 seconds = parse_seconds val 0
             in if seconds \<le> 0 then 0 else seconds_duration seconds)"

definition parseSMaxAge :: "string \<Rightarrow> duration" where
  "parseSMaxAge cc = parseCCDirective cc ''s-maxage=''"

definition parseMaxAge :: "string \<Rightarrow> duration" where
  "parseMaxAge cc = parseCCDirective cc ''max-age=''"

text \<open>The first rule whose path matches and that sets a TTL.\<close>

fun rules_ttl :: "compiled_cache_rule list \<Rightarrow> string \<Rightarrow> duration option" where
  "rules_ttl [] reqPath = None"
| "rules_ttl (cr # crs) reqPath =
     (if matchRulePath cr reqPath \<and> TTLSeconds (cr_Cache (cc_rule cr)) > 0
      then Some (rule_TTL (cr_Cache (cc_rule cr)))
      else rules_ttl crs reqPath)"

definition DetermineTTL :: "policy \<Rightarrow> string \<Rightarrow> header \<Rightarrow> duration" where
  "DetermineTTL p reqPath headers =
     (case rules_ttl (pol_compiled p) reqPath of
        Some ttl \<Rightarrow> ttl
      | None \<Rightarrow>
          if RespectOriginCC (pol_cfg p)
          then let cc = header_Get headers ''Cache-Control''
               in if parseSMaxAge cc > 0 then parseSMaxAge cc
                  else if parseMaxAge cc > 0 then parseMaxAge cc
                  else DefaultTTL (pol_cfg p)
          else DefaultTTL (pol_cfg p))"

section \<open>Lemmas\<close>

lemma rules_cacheable_find:
  "fst (rules_cacheable crs r) \<longleftrightarrow>
     (case find (\<lambda>cr. matchCacheRule cr r) crs of
        None \<Rightarrow> True | Some cr \<Rightarrow> Eligible (cr_Cache (cc_rule cr)))"
  by (induction crs r rule: rules_cacheable.induct) auto

lemma rules_ttl_none:
  "list_all (\<lambda>cr. \<not> matchRulePath cr path) crs \<Longrightarrow> rules_ttl crs path = None"
  by (induction crs path rule: rules_ttl.induct) auto

text \<open>The value of a digit string, and what the parser makes of it.\<close>

definition dec_val :: "string \<Rightarrow> int" where
  "dec_val ds = foldl (\<lambda>n c. n * 10 + digit_val c) 0 ds"

lemma i64_step: "i64 (i64 x * 10 + d) = i64 (x * 10 + d)"
proof -
  have step: "(a mod m * 10 + b) mod m = (a * 10 + b) mod m" for a b m :: int
    by (metis mod_add_left_eq mod_mult_left_eq)
  have "(i64 x * 10 + d + 2 ^ 63) mod 2 ^ 64 = (x * 10 + d + 2 ^ 63) mod 2 ^ 64"
    using step [of "i64 x" "2 ^ 64" "d + 2 ^ 63"] step [of x "2 ^ 64" "d + 2 ^ 63"]
    unfolding i64_mod by (simp only: add.assoc)
  then show ?thesis by (simp only: i64_def)
qed

lemma parse_seconds_digits:
  "list_all is_digit ds \<Longrightarrow>
   parse_seconds ds (i64 n) = i64 (foldl (\<lambda>n c. n * 10 + digit_val c) n ds)"
  by (induction ds arbitrary: n) (simp_all add: i64_step)

lemma parse_seconds_dec: "list_all is_digit ds \<Longrightarrow> parse_seconds ds 0 = i64 (dec_val ds)"
  using parse_seconds_digits [of ds 0] by (simp add: dec_val_def)

lemma digit_facts:
  assumes "is_digit c"
  shows "ascii_lower c = c" "c \<noteq> CHR '',''" "c \<noteq> CHR '' ''"
  using assms by (auto simp: is_digit_def ascii_lower_def less_eq_char_def)

lemma ToLower_digits: "list_all is_digit ds \<Longrightarrow> ToLower (ds @ s) = ds @ ToLower s"
  by (induction ds) (simp_all add: ToLower_def digit_facts)

lemma IndexAny_digits:
  "list_all is_digit ds \<Longrightarrow> rest = [] \<or> hd rest \<in> set '', '' \<Longrightarrow>
   (case IndexAny (ds @ rest) '', '' of None \<Rightarrow> ds @ rest | Some n \<Rightarrow> take n (ds @ rest)) = ds"
proof (induction ds)
  case Nil
  then show ?case by (cases rest) auto
next
  case (Cons d ds)
  then show ?case using digit_facts [of d] by (auto split: option.splits)
qed

text \<open>A directive at the start of the header, followed by digits and a separator.\<close>

lemma parseCCDirective_digits:
  assumes "list_all is_digit ds" "rest = '''' \<or> hd rest \<in> set '', ''" "ToLower dir = dir" "dir \<noteq> ''''"
  shows "parseCCDirective (dir @ ds @ rest) dir =
    (if i64 (dec_val ds) \<le> 0 then 0 else seconds_duration (i64 (dec_val ds)))"
proof -
  have lower: "ToLower (dir @ ds @ rest) = dir @ ds @ ToLower rest"
    using assms(1,3) ToLower_digits by (simp add: ToLower_def)
  have "rest = '''' \<or> hd (ToLower rest) \<in> set '', ''"
    using assms(2) by (cases rest) (auto simp: ToLower_def ascii_lower_def less_eq_char_def)
  then have rest: "ToLower rest = '''' \<or> hd (ToLower rest) \<in> set '', ''" by (auto simp: ToLower_def)
  have "Index (dir @ s) dir = Some 0" for s using assms(4) by (cases dir) (simp_all add: HasPrefix_def)
  then show ?thesis
    unfolding parseCCDirective_def lower
    using IndexAny_digits [OF assms(1) rest] by (simp add: parse_seconds_dec [OF assms(1)] Let_def)
qed

section \<open>Properties\<close>

text \<open>A request may be answered from the cache exactly when it is a GET or HEAD without
  the credentials the configuration excludes and the first rule that matches its path and
  method, if there is one, is eligible.\<close>

theorem IsRequestCacheable_iff:
  "fst (IsRequestCacheable p r) \<longleftrightarrow>
     r_Method r \<in> {''GET'', ''HEAD''}
     \<and> \<not> (BypassOnAuthorization (pol_cfg p) \<and> header_Get (r_Header r) ''Authorization'' \<noteq> '''')
     \<and> \<not> (BypassOnCookie (pol_cfg p) \<and> header_Get (r_Header r) ''Cookie'' \<noteq> '''')
     \<and> (case find (\<lambda>cr. matchCacheRule cr r) (pol_compiled p) of
           None \<Rightarrow> True | Some cr \<Rightarrow> Eligible (cr_Cache (cc_rule cr)))"
  by (auto simp: IsRequestCacheable_def rules_cacheable_find)

text \<open>A response is stored only with a 2xx status, when the first Cache-Control line
  holds none of no-store, private and no-cache in any case anywhere, and, if so configured,
  when it sets no cookie.\<close>

theorem IsResponseStorable_iff:
  "fst (IsResponseStorable p code h) \<longleftrightarrow>
     200 \<le> code \<and> code < 300
     \<and> list_all (\<lambda>d. \<nexists>a b. ToLower (header_Get h ''Cache-Control'') = a @ d @ b)
         [''no-store'', ''private'', ''no-cache'']
     \<and> \<not> (NeverStoreOnSetCookie (pol_cfg p) \<and> header_Get h ''Set-Cookie'' \<noteq> '''')"
  by (simp add: IsResponseStorable_def Let_def Contains_iff)

text \<open>A later Cache-Control line is not looked at: a response whose second line says
  private is stored.\<close>

theorem second_cache_control_line_ignored:
  "fst (IsResponseStorable p 200 [(''Cache-Control'', [''public'', ''private''])])
   \<and> header_Add ''cache-control'' ''private'' (header_Set ''cache-control'' ''public'' [])
       = [(''Cache-Control'', [''public'', ''private''])]"
proof -
  have "CanonicalHeaderKey ''cache-control'' = ''Cache-Control''" by code_simp
  moreover have "fst (IsResponseStorable p 200 [(''Cache-Control'', [''public'', ''private''])]) \<longleftrightarrow>
     \<not> Contains ''public'' ''no-store'' \<and> \<not> Contains ''public'' ''private'' \<and> \<not> Contains ''public'' ''no-cache''"
  proof -
    have "header_Get [(''Cache-Control'', [''public'', ''private''])] ''Cache-Control'' = ''public''"
      "header_Get [(''Cache-Control'', [''public'', ''private''])] ''Set-Cookie'' = ''''"
      "ToLower ''public'' = ''public''" by code_simp+
    then show ?thesis by (simp add: IsResponseStorable_def Let_def)
  qed
  moreover have "\<not> Contains ''public'' ''no-store''" "\<not> Contains ''public'' ''private''"
    "\<not> Contains ''public'' ''no-cache''" by code_simp+
  ultimately show ?thesis by (simp add: header_Add_def header_Set_def)
qed

text \<open>C29: \<open>max-age\<close> and \<open>s-maxage\<close> are read exactly while the number of seconds fits in
  64 bits of nanoseconds. Beyond that the TTL is arbitrary: it may be negative, which reads
  as absent, or short.\<close>

theorem parseMaxAge_exact:
  assumes "list_all is_digit ds" "dec_val ds \<le> 9223372036" "0 \<le> dec_val ds"
    and "rest = '''' \<or> hd rest \<in> set '', ''"
  shows "parseMaxAge (''max-age='' @ ds @ rest) = dec_val ds * 1000000000
    \<and> parseSMaxAge (''s-maxage='' @ ds @ rest) = dec_val ds * 1000000000"
proof -
  have lower: "ToLower ''max-age='' = ''max-age=''" "ToLower ''s-maxage='' = ''s-maxage=''" by code_simp+
  have "i64 (dec_val ds) = dec_val ds" using assms(2,3) by simp
  moreover have "seconds_duration (dec_val ds) = dec_val ds * 1000000000"
    using assms(2,3) by (simp add: seconds_duration_def Second_def Millisecond_def)
  ultimately show ?thesis
    unfolding parseMaxAge_def parseSMaxAge_def
    using parseCCDirective_digits [OF assms(1,4) lower(1)] parseCCDirective_digits [OF assms(1,4) lower(2)] assms(3)
    by auto
qed

theorem parseMaxAge_exact_witness:
  "parseMaxAge ''max-age=3600, public'' = 3600 * 1000000000
   \<and> parseMaxAge ''max-age=9223372037'' < 0 \<and> parseMaxAge ''max-age=18446744074'' = 290448384"
proof -
  have "dec_val ''3600'' = 3600" by code_simp
  moreover have "list_all is_digit ''3600''" by code_simp
  ultimately have "parseMaxAge (''max-age='' @ ''3600'' @ '', public'') = 3600 * 1000000000"
    using parseMaxAge_exact [of "''3600''" "'', public''"] by simp
  moreover have "parseMaxAge ''max-age=9223372037'' < 0" "parseMaxAge ''max-age=18446744074'' = 290448384"
    by code_simp+
  ultimately show ?thesis by simp
qed

text \<open>An origin that says max-age=0 does not prevent storing: zero reads as absent, so
  the response is storable and lives for the default TTL.\<close>

theorem max_age_zero_gets_default:
  assumes "list_all (\<lambda>cr. \<not> matchRulePath cr path) (pol_compiled p)"
  shows "DetermineTTL p path [(''Cache-Control'', [''max-age=0''])] = DefaultTTL (pol_cfg p)
    \<and> fst (IsResponseStorable p 200 [(''Cache-Control'', [''max-age=0''])])"
proof -
  have get: "header_Get [(''Cache-Control'', [''max-age=0''])] ''Cache-Control'' = ''max-age=0''"
    "header_Get [(''Cache-Control'', [''max-age=0''])] ''Set-Cookie'' = ''''"
    "ToLower ''max-age=0'' = ''max-age=0''"
    and parse: "parseSMaxAge ''max-age=0'' = 0" "parseMaxAge ''max-age=0'' = 0"
    and cont: "\<not> Contains ''max-age=0'' ''no-store''" "\<not> Contains ''max-age=0'' ''private''"
      "\<not> Contains ''max-age=0'' ''no-cache''" by code_simp+
  show ?thesis
    by (simp only: DetermineTTL_def rules_ttl_none [OF assms] option.case get parse Let_def less_irrefl
        if_False if_cancel IsResponseStorable_def cont) simp
qed

theorem max_age_zero_gets_default_witness:
  "DetermineTTL (NewPolicy (\<lambda>_. None) (CacheCfg (applyDefaults sample_config)) []) ''/''
     [(''Cache-Control'', [''max-age=0''])] = 30 * Second"
proof -
  let ?p = "NewPolicy (\<lambda>_. None) (CacheCfg (applyDefaults sample_config)) []"
  have "list_all (\<lambda>cr. \<not> matchRulePath cr ''/'') (pol_compiled ?p)" by (simp add: NewPolicy_def)
  from max_age_zero_gets_default [OF this]
  have "DetermineTTL ?p ''/'' [(''Cache-Control'', [''max-age=0''])] = DefaultTTL (pol_cfg ?p)" by blast
  then show ?thesis
    by (simp add: NewPolicy_def DefaultTTL_def seconds_duration_def applyDefaults_def default_cache_def
        or_default_def sample_config_def Second_def Millisecond_def)
qed

end
