(* ===== verification/GoNet.thy ===== *)
theory GoNet
  imports GoUrl
begin

text \<open>
  The parts of Go's \<open>net\<close> that the firewall and the rate limiter use: \<open>SplitHostPort\<close>,
  \<open>ParseIP\<close> and \<open>ParseCIDR\<close> (both through \<open>netip.ParseAddr\<close>), \<open>IPNet.Contains\<close> and
  \<open>IP.String\<close>. An address is its list of bytes.
\<close>

unbundle bit_operations_syntax

type_synonym ip = "8 word list"

section \<open>Host and port\<close>

definition LastIndex :: "string \<Rightarrow> char \<Rightarrow> nat option" where
  "LastIndex s c = (case Index (rev s) [c] of None \<Rightarrow> None | Some i \<Rightarrow> Some (length s - 1 - i))"

definition SplitHostPort :: "string \<Rightarrow> (string \<times> string) option" where
  "SplitHostPort hostport =
     (case LastIndex hostport (CHR '':'') of
        None \<Rightarrow> None
      | Some i \<Rightarrow>
          if hostport ! 0 = CHR ''[''
          then (case Index hostport '']'' of
                  None \<Rightarrow> None
                | Some end \<Rightarrow>
                    if end + 1 \<noteq> i then None
                    else if CHR ''['' \<in> set (drop 1 hostport) \<or> CHR '']'' \<in> set (drop (end + 1) hostport)
                    then None
                    else Some (take (end - 1) (drop 1 hostport), drop (i + 1) hostport))
          else let host = take i hostport
               in if CHR '':'' \<in> set host \<or> CHR ''['' \<in> set hostport \<or> CHR '']'' \<in> set hostport
                  then None else Some (host, drop (i + 1) hostport))"

section \<open>Addresses\<close>

text \<open>One decimal octet: digits, no leading zero, at most 255.\<close>

definition octet :: "string \<Rightarrow> 8 word option" where
  "octet s =
     (let v = foldl (\<lambda>n c. n * 10 + digit_val c) 0 s
      in if s = [] \<or> \<not> list_all is_digit s \<or> (length s > 1 \<and> hd s = CHR ''0'') \<or> length s > 3 \<or> v > 255
         then None else Some (word_of_int v))"

definition parseIPv4 :: "string \<Rightarrow> ip option" where
  "parseIPv4 s =
     (case map octet (Split (CHR ''.'') s) of
        [Some a, Some b, Some c, Some d] \<Rightarrow> Some [a, b, c, d]
      | _ \<Rightarrow> None)"

definition v4InV6Prefix :: ip where
  "v4InV6Prefix = [0, 0, 0, 0, 0, 0, 0, 0, 0, 0, 255, 255]"

text \<open>The leading hexadecimal digits of a group; \<open>None\<close> for more than four.\<close>

definition hex_group :: "string \<Rightarrow> (string \<times> string) option" where
  "hex_group s =
     (let ds = takeWhile ishex s in if length ds > 4 \<or> ds = [] then None else Some (ds, dropWhile ishex s))"

definition hex_val :: "string \<Rightarrow> nat" where
  "hex_val ds = foldl (\<lambda>n c. n * 16 + unhex c) 0 ds"

text \<open>The loop over the groups: the bytes so far and the position of the ellipsis. The
  first argument counts the groups that may still be read.\<close>

fun v6_groups :: "nat \<Rightarrow> string \<Rightarrow> ip \<Rightarrow> nat option \<Rightarrow> (string \<times> ip \<times> nat option) option" where
  "v6_groups 0 s bs el = Some (s, bs, el)"
| "v6_groups (Suc n) s bs el =
     (case hex_group s of
        None \<Rightarrow> None
      | Some (ds, rest) \<Rightarrow>
          if rest \<noteq> [] \<and> hd rest = CHR ''.''
          then if (el = None \<and> length bs \<noteq> 12) \<or> length bs + 4 > 16 then None
               else map_option (\<lambda>v4. ([], bs @ v4, el)) (parseIPv4 s)
          else
            let bs = bs @ [word_of_nat (hex_val ds div 256), word_of_nat (hex_val ds mod 256)]
            in (case rest of
                  [] \<Rightarrow> Some ([], bs, el)
                | [c] \<Rightarrow> None
                | c # d # cs \<Rightarrow>
                    if c \<noteq> CHR '':'' then None
                    else if d \<noteq> CHR '':'' then v6_groups n (d # cs) bs el
                    else if el \<noteq> None then None
                    else if cs = [] then Some ([], bs, Some (length bs))
                    else v6_groups n cs bs (Some (length bs))))"

definition parseIPv6 :: "string \<Rightarrow> (ip \<times> string) option" where
  "parseIPv6 s =
     (case Cut (CHR ''%'') s of (addr, zone, found) \<Rightarrow>
        if found \<and> zone = [] then None
        else
          let (addr, el) = (if HasPrefix addr ''::'' then (drop 2 addr, Some 0) else (addr, None))
          in if el \<noteq> None \<and> addr = [] then Some (replicate 16 0, zone)
             else (case v6_groups 8 addr [] el of
                     None \<Rightarrow> None
                   | Some (rest, bs, el) \<Rightarrow>
                       if rest \<noteq> [] then None
                       else if length bs < 16
                       then (case el of
                               None \<Rightarrow> None
                             | Some k \<Rightarrow> Some (take k bs @ replicate (16 - length bs) 0 @ drop k bs, zone))
                       else if el \<noteq> None then None
                       else Some (bs, zone)))"

text \<open>\<open>netip.ParseAddr\<close> without zones: the first dot, colon or percent sign decides. The
  result has 4 bytes for IPv4 and 16 for IPv6.\<close>

definition ParseAddr :: "string \<Rightarrow> ip option" where
  "ParseAddr s =
     (case filter (\<lambda>c. c \<in> set ''.:%'') s of
        [] \<Rightarrow> None
      | c # _ \<Rightarrow>
          if c = CHR ''.'' then parseIPv4 s
          else if c = CHR '':''
          then (case parseIPv6 s of Some (bs, zone) \<Rightarrow> (if zone = [] then Some bs else None) | None \<Rightarrow> None)
          else None)"

definition As16 :: "ip \<Rightarrow> ip" where
  "As16 a = (if length a = 4 then v4InV6Prefix @ a else a)"

definition To4 :: "ip \<Rightarrow> ip option" where
  "To4 a = (if length a = 4 then Some a
            else if length a = 16 \<and> take 12 a = v4InV6Prefix then Some (drop 12 a) else None)"

definition ParseIP :: "string \<Rightarrow> ip option" where
  "ParseIP s = map_option As16 (ParseAddr s)"

section \<open>Networks\<close>

record ip_net =
  n_IP :: ip
  n_Mask :: ip

definition CIDRMask :: "nat \<Rightarrow> nat \<Rightarrow> ip" where
  "CIDRMask ones bytes =
     map (\<lambda>i. NOT (push_bit (8 - min 8 (ones - 8 * i)) 1 - 1) AND 255) [0..<bytes]"

definition ip_Mask :: "ip \<Rightarrow> ip \<Rightarrow> ip" where
  "ip_Mask a m =
     (let a = (if length m = 4 \<and> length a = 16 \<and> take 12 a = v4InV6Prefix then drop 12 a else a)
      in map2 (AND) a m)"

text \<open>The decimal prefix length: \<open>dtoi\<close> takes every digit, and none may be left over. It
  gives up at 0xFFFFFF, far above the 128 allowed here.\<close>

definition ParseCIDR :: "string \<Rightarrow> ip_net option" where
  "ParseCIDR s =
     (case Cut (CHR ''/'') s of (addr, bits, found) \<Rightarrow>
        if \<not> found then None
        else (case ParseAddr addr of
                None \<Rightarrow> None
              | Some a \<Rightarrow>
                  if bits = [] \<or> \<not> list_all is_digit bits then None
                  else
                    let n = nat (foldl (\<lambda>n c. n * 10 + digit_val c) 0 bits)
                    in if n > 8 * length a then None
                       else let m = CIDRMask n (length a)
                            in Some \<lparr>n_IP = ip_Mask (As16 a) m, n_Mask = m\<rparr>))"

text \<open>\<open>IPNet.Contains\<close>, for a network made by \<open>ParseCIDR\<close>. A mapped IPv6 network is
  reduced to IPv4 by \<open>networkNumberAndMask\<close> when its mask begins with twelve full bytes.\<close>

definition networkNumberAndMask :: "ip_net \<Rightarrow> (ip \<times> ip) option" where
  "networkNumberAndMask n =
     (let a = (case To4 (n_IP n) of Some a \<Rightarrow> a | None \<Rightarrow> n_IP n);
          m = n_Mask n
      in if length m = 4 then (if length a = 4 then Some (a, m) else None)
         else if length m = 16 then Some (a, if length a = 4 then drop 12 m else m)
         else None)"

definition net_Contains :: "ip_net \<Rightarrow> ip \<Rightarrow> bool" where
  "net_Contains n a =
     (case networkNumberAndMask n of
        None \<Rightarrow> False
      | Some (nn, m) \<Rightarrow>
          let a = (case To4 a of Some a4 \<Rightarrow> a4 | None \<Rightarrow> a)
          in length a = length nn \<and> list_all2 (\<lambda>(x, y) z. x AND y = z AND y) (zip nn m) a)"

section \<open>Printing\<close>

fun show_digits :: "nat \<Rightarrow> nat \<Rightarrow> string" where
  "show_digits base n =
     (if base < 2 \<or> n < base then [char_of (if n < 10 then n + 48 else n + 87)]
      else show_digits base (n div base) @ [char_of (if n mod base < 10 then n mod base + 48 else n mod base + 87)])"

declare show_digits.simps [simp del]

fun groups16 :: "ip \<Rightarrow> nat list" where
  "groups16 (a # b # bs) = (unat a * 256 + unat b) # groups16 bs"
| "groups16 _ = []"

text \<open>The first longest run of at least two zero groups, as start and end.\<close>

definition zero_run :: "nat list \<Rightarrow> nat \<times> nat" where
  "zero_run gs =
     foldl (\<lambda>(s, e) i. let j = i + length (takeWhile (\<lambda>g. g = 0) (drop i gs))
                       in if j - i \<ge> 2 \<and> j - i > e - s then (i, j) else (s, e))
       (255, 255) [0..<8]"

definition ip_String :: "ip \<Rightarrow> string" where
  "ip_String a =
     (case To4 a of
        Some a4 \<Rightarrow> Join (map (\<lambda>b. show_digits 10 (unat b)) a4) ''.''
      | None \<Rightarrow>
          let gs = groups16 a; (s, e) = zero_run gs; hex = map (show_digits 16)
          in if s = 255 then Join (hex gs) '':''
             else Join (hex (take s gs)) '':'' @ ''::'' @ Join (hex (drop e gs)) '':'')"

end
