(* ===== verification/GoUtf8.thy ===== *)
theory GoUtf8
  imports GoStrings
begin

text \<open>
  \<open>unicode/utf8\<close> on byte strings: how many bytes the first rune takes, and whether a string is
  valid. \<open>rune_size\<close> is 0 where \<open>DecodeRune\<close> reports \<open>RuneError\<close> of width 1.
\<close>

definition cont_byte :: "char \<Rightarrow> bool" where
  "cont_byte c \<longleftrightarrow> 128 \<le> ord c \<and> ord c \<le> 191"

text \<open>The second byte after a given first byte: no overlong forms, no surrogates, nothing
  beyond U+10FFFF.\<close>

definition second_byte :: "char \<Rightarrow> char \<Rightarrow> bool" where
  "second_byte a b \<longleftrightarrow>
     (if ord a = 224 then 160 \<le> ord b \<and> ord b \<le> 191
      else if ord a = 237 then 128 \<le> ord b \<and> ord b \<le> 159
      else if ord a = 240 then 144 \<le> ord b \<and> ord b \<le> 191
      else if ord a = 244 then 128 \<le> ord b \<and> ord b \<le> 143
      else cont_byte b)"

fun rune_size :: "string \<Rightarrow> nat" where
  "rune_size [] = 0"
| "rune_size (a # s) =
     (if ord a < 128 then 1
      else if 194 \<le> ord a \<and> ord a \<le> 223
      then (case s of b # _ \<Rightarrow> if second_byte a b then 2 else 0 | [] \<Rightarrow> 0)
      else if 224 \<le> ord a \<and> ord a \<le> 239
      then (case s of b # c # _ \<Rightarrow> if second_byte a b \<and> cont_byte c then 3 else 0 | _ \<Rightarrow> 0)
      else if 240 \<le> ord a \<and> ord a \<le> 244
      then (case s of b # c # d # _ \<Rightarrow> if second_byte a b \<and> cont_byte c \<and> cont_byte d then 4 else 0 | _ \<Rightarrow> 0)
      else 0)"

function valid_utf8 :: "string \<Rightarrow> bool" where
  "valid_utf8 [] = True"
| "valid_utf8 (c # s) = (rune_size (c # s) \<noteq> 0 \<and> valid_utf8 (drop (rune_size (c # s) - 1) s))"
  by pat_completeness auto
termination by (relation "measure length") (auto simp: le_imp_less_Suc)

declare rune_size.simps [simp del] valid_utf8.simps [simp del]

lemma rune_size_ascii: "ord c < 128 \<Longrightarrow> rune_size (c # s) = 1"
  by (simp add: rune_size.simps)

lemma valid_utf8_Nil [simp]: "valid_utf8 []"
  by (simp add: valid_utf8.simps)

lemma valid_utf8_ascii_Cons [simp]: "ord c < 128 \<Longrightarrow> valid_utf8 (c # s) = valid_utf8 s"
  by (simp add: valid_utf8.simps rune_size_ascii)

lemma valid_utf8_ascii: "list_all (\<lambda>c. ord c < 128) s \<Longrightarrow> valid_utf8 s"
  by (induction s) auto

text \<open>A rune is made of the bytes it takes: what follows does not matter.\<close>

lemma rune_size_append: "rune_size s \<noteq> 0 \<Longrightarrow> rune_size (take (rune_size s) s @ t) = rune_size s"
  by (cases s) (auto simp: rune_size.simps split: list.splits if_splits)

lemma rune_size_le: "rune_size s \<le> length s"
  by (cases s) (auto simp: rune_size.simps split: list.splits)

lemma rune_high: "rune_size (c # s) \<noteq> 0 \<Longrightarrow> 128 \<le> ord c \<Longrightarrow> list_all (\<lambda>d. 128 \<le> ord d) (take (rune_size (c # s)) (c # s))"
  by (auto simp: rune_size.simps second_byte_def cont_byte_def split: list.splits if_splits)

section \<open>Encoding a rune\<close>

definition surrogate :: "nat \<Rightarrow> bool" where
  "surrogate r \<longleftrightarrow> 0xD800 \<le> r \<and> r < 0xE000"

definition EncodeRune :: "nat \<Rightarrow> string" where
  "EncodeRune r =
     (if r < 0x80 then [char_of r]
      else if r < 0x800 then [char_of (0xC0 + r div 64), char_of (0x80 + r mod 64)]
      else if 0x10FFFF < r \<or> surrogate r then [CHR 0xEF, CHR 0xBF, CHR 0xBD]
      else if r < 0x10000
      then [char_of (0xE0 + r div 4096), char_of (0x80 + r div 64 mod 64), char_of (0x80 + r mod 64)]
      else [char_of (0xF0 + r div 262144), char_of (0x80 + r div 4096 mod 64),
            char_of (0x80 + r div 64 mod 64), char_of (0x80 + r mod 64)])"

text \<open>The bytes of U+FFFD, put where the input is not valid.\<close>

abbreviation replacement :: string where "replacement \<equiv> [CHR 0xEF, CHR 0xBF, CHR 0xBD]"

lemma ord_char_of: "n < 256 \<Longrightarrow> ord (char_of n) = n"
  by simp

lemma cont_byte_mod: "cont_byte (char_of (128 + n mod 64 :: nat))"
proof -
  have "n mod 64 < 64" by simp
  then have "128 + n mod 64 < 256" by linarith
  then show ?thesis using \<open>n mod 64 < 64\<close> by (simp only: cont_byte_def ord_char_of) linarith
qed

lemma rune_size_Encode: "rune_size (EncodeRune r @ s) = length (EncodeRune r)"
proof -
  consider "r < 0x80" | "0x80 \<le> r" "r < 0x800" | "0x800 \<le> r" "0x10FFFF < r \<or> surrogate r"
    | "0x800 \<le> r" "r < 0x10000" "\<not> surrogate r" | "0x10000 \<le> r" "r \<le> 0x10FFFF" by linarith
  then show ?thesis
  proof cases
    case 1
    then show ?thesis by (simp add: EncodeRune_def rune_size_ascii)
  next
    case 2
    then have "2 \<le> r div 64" "r div 64 < 32" by linarith+
    then show ?thesis using 2 cont_byte_mod [of r]
      by (simp add: EncodeRune_def rune_size.simps(2) second_byte_def)
  next
    case 3
    then show ?thesis by (simp add: EncodeRune_def rune_size.simps(2) second_byte_def cont_byte_def)
  next
    case 4
    define q where "q = r div 64"
    have a: "r div 4096 = q div 64" by (simp add: q_def div_mult2_eq [symmetric])
    have "32 \<le> q" "q < 1024" "\<not> (864 \<le> q \<and> q < 896)" using 4 by (auto simp: q_def surrogate_def)
    then have ab: "q div 64 < 16" "q mod 64 < 64" "q div 64 = 0 \<Longrightarrow> 32 \<le> q mod 64" "q div 64 = 13 \<Longrightarrow> q mod 64 < 32"
      using div_mult_mod_eq [of q 64] mod_less_divisor [of 64 q] by linarith+
    then have "second_byte (char_of (224 + q div 64)) (char_of (128 + q mod 64))"
      by (auto simp: second_byte_def cont_byte_def)
    then show ?thesis using 4 ab(1) cont_byte_mod [of r]
      by (simp add: EncodeRune_def rune_size.simps(2) a q_def [symmetric])
  next
    case 5
    define q where "q = r div 4096"
    have a: "r div 262144 = q div 64" by (simp add: q_def div_mult2_eq [symmetric])
    have s: "\<not> surrogate r" using 5 by (simp add: surrogate_def)
    have "16 \<le> q" "q < 272" using 5 by (auto simp: q_def)
    then have ab: "q div 64 < 5" "q mod 64 < 64" "q div 64 = 0 \<Longrightarrow> 16 \<le> q mod 64" "q div 64 = 4 \<Longrightarrow> q mod 64 < 16"
      using div_mult_mod_eq [of q 64] mod_less_divisor [of 64 q] by linarith+
    then have "second_byte (char_of (240 + q div 64)) (char_of (128 + q mod 64))"
      by (auto simp: second_byte_def cont_byte_def)
    then show ?thesis using 5 s ab(1) cont_byte_mod [of r] cont_byte_mod [of "r div 64"]
      by (simp add: EncodeRune_def rune_size.simps(2) a q_def [symmetric])
  qed
qed

lemma EncodeRune_not_Nil [simp]: "EncodeRune r \<noteq> []"
  by (simp add: EncodeRune_def)

text \<open>Validity rune by rune.\<close>

lemma valid_utf8_step: "rune_size s \<noteq> 0 \<Longrightarrow> valid_utf8 s = valid_utf8 (drop (rune_size s) s)"
  by (cases s) (simp_all add: valid_utf8.simps drop_Cons' rune_size.simps(1))

lemma valid_utf8_rune:
  assumes "rune_size s = length s" "s \<noteq> []"
  shows "valid_utf8 (s @ t) = valid_utf8 t"
proof -
  have "rune_size (s @ t) = length s" using rune_size_append [of s t] assms by simp
  then show ?thesis using valid_utf8_step [of "s @ t"] assms(2) by simp
qed

lemma valid_utf8_Encode [simp]: "valid_utf8 (EncodeRune r @ s) = valid_utf8 s"
  using valid_utf8_rune [of "EncodeRune r" s] rune_size_Encode [of r "[]"] by simp

lemma valid_utf8_replacement [simp]: "valid_utf8 (replacement @ s) = valid_utf8 s"
  using valid_utf8_Encode [of "0xD800" s] by (simp add: EncodeRune_def surrogate_def)

lemma valid_utf8_append: "valid_utf8 s \<Longrightarrow> valid_utf8 (s @ t) = valid_utf8 t"
proof (induction s rule: valid_utf8.induct)
  case (2 c s)
  let ?n = "rune_size (c # s)"
  have n: "?n \<noteq> 0" and rest: "valid_utf8 (drop (?n - 1) s)" using 2(2) by (simp_all add: valid_utf8.simps)
  have "(c # s) @ t = take ?n (c # s) @ (drop (?n - 1) s @ t)"
    using n by (metis append.assoc append_take_drop_id drop_Cons')
  moreover have "rune_size (take ?n (c # s)) = length (take ?n (c # s))"
    using rune_size_append [OF n, of "[]"] rune_size_le [of "c # s"] by simp
  moreover have "take ?n (c # s) \<noteq> []" using n by simp
  ultimately show ?case using valid_utf8_rune [of "take ?n (c # s)" "drop (?n - 1) s @ t"] 2(1) rest by metis
qed simp

text \<open>A text is valid when its parts before and after an ASCII byte are.\<close>

lemma rune_size_ascii_after:
  assumes "rune_size (s @ c # t) \<noteq> 0" "s \<noteq> []" "ord c < 128"
  shows "rune_size (s @ c # t) = rune_size s"
proof -
  let ?n = "rune_size (s @ c # t)"
  obtain d u where s: "s = d # u" using assms(2) by (cases s) auto
  show ?thesis
  proof (cases "ord d < 128")
    case True
    then show ?thesis using s by (simp add: rune_size_ascii)
  next
    case False
    have "?n \<le> length s"
    proof (rule ccontr)
      assume "\<not> ?n \<le> length s"
      then have "c \<in> set (take ?n (s @ c # t))" by (simp add: take_Cons')
      moreover have "list_all (\<lambda>d. 128 \<le> ord d) (take ?n (s @ c # t))"
        using rune_high [of d "u @ c # t"] assms(1) False s by simp
      ultimately have "128 \<le> ord c" unfolding list_all_iff by blast
      then show False using assms(3) by simp
    qed
    then have "take ?n (s @ c # t) @ drop ?n s = s" by simp
    then show ?thesis using rune_size_append [OF assms(1), of "drop ?n s"] by simp
  qed
qed

lemma valid_utf8_split:
  assumes "ord c < 128"
  shows "valid_utf8 (s @ c # t) \<longleftrightarrow> valid_utf8 s \<and> valid_utf8 t"
proof
  show "valid_utf8 s \<and> valid_utf8 t" if "valid_utf8 (s @ c # t)"
    using that
  proof (induction s rule: valid_utf8.induct)
    case (2 d u)
    have n: "rune_size ((d # u) @ c # t) \<noteq> 0" using 2(2) by (auto simp: valid_utf8.simps(2))
    then have m: "rune_size (d # u) \<noteq> 0" "rune_size ((d # u) @ c # t) = rune_size (d # u)"
      using rune_size_ascii_after [OF n _ assms] by simp_all
    have "rune_size (d # u) \<le> length (d # u)" by (rule rune_size_le)
    then have "drop (rune_size (d # u) - 1) (u @ c # t) = drop (rune_size (d # u) - 1) u @ c # t"
      by (cases "rune_size (d # u) - 1 = length u") auto
    then have "valid_utf8 (drop (rune_size (d # u) - 1) u @ c # t)"
      using 2(2) m by (simp add: valid_utf8.simps(2))
    then show ?case using 2(1) m(1) by (simp add: valid_utf8.simps(2))
  qed (use assms in simp)
qed (use assms in \<open>simp add: valid_utf8_append\<close>)

end
