(* ===== verification/GoJson.thy ===== *)
theory GoJson
  imports GoNet GoUtf8
begin

text \<open>
  What the handlers use of \<open>encoding/json\<close> for writing: values of strings, integers,
  booleans and objects, printed as \<open>json.NewEncoder(w).Encode\<close> prints them (HTML-safe
  escapes, keys of a Go map in ascending order, a final newline). A byte that is not part of
  valid UTF-8 is written as the escape of U+FFFD; U+2028 and U+2029 are escaped.
\<close>

datatype json = JStr string | JInt int | JBool bool | JObj "(string \<times> json) list"

definition lowerhex :: "nat \<Rightarrow> char" where
  "lowerhex n = ''0123456789abcdef'' ! n"

definition json_char :: "char \<Rightarrow> string" where
  "json_char c =
     (if c = CHR 0x22 then [CHR 0x5C, CHR 0x22]
      else if c = CHR 0x5C then [CHR 0x5C, CHR 0x5C]
      else if c = CHR 0x08 then [CHR 0x5C, CHR ''b'']
      else if c = CHR 0x0C then [CHR 0x5C, CHR ''f'']
      else if c = CHR 0x0A then [CHR 0x5C, CHR ''n'']
      else if c = CHR 0x0D then [CHR 0x5C, CHR ''r'']
      else if c = CHR 0x09 then [CHR 0x5C, CHR ''t'']
      else if ord c < 32 \<or> c \<in> set ''<>&''
      then [CHR 0x5C, CHR ''u'', CHR ''0'', CHR ''0'', lowerhex (ord c div 16), lowerhex (ord c mod 16)]
      else [c])"

text \<open>A rune of several bytes.\<close>

definition json_rune :: "string \<Rightarrow> string" where
  "json_rune r =
     (if r = [CHR 0xE2, CHR 0x80, CHR 0xA8] then CHR 0x5C # ''u2028''
      else if r = [CHR 0xE2, CHR 0x80, CHR 0xA9] then CHR 0x5C # ''u2029''
      else r)"

function json_chars :: "string \<Rightarrow> string" where
  "json_chars [] = []"
| "json_chars (c # s) =
     (if ord c < 128 then json_char c @ json_chars s
      else
        let n = rune_size (c # s)
        in if n = 0 then (CHR 0x5C # ''ufffd'') @ json_chars s
           else json_rune (take n (c # s)) @ json_chars (drop (n - 1) s))"
  by pat_completeness auto
termination by (relation "measure length") (auto simp: le_imp_less_Suc)

declare json_chars.simps [simp del]

definition json_string :: "string \<Rightarrow> string" where
  "json_string s = CHR 0x22 # json_chars s @ [CHR 0x22]"

definition show_int :: "int \<Rightarrow> string" where
  "show_int i = (if i < 0 then ''-'' @ show_digits 10 (nat (- i)) else show_digits 10 (nat i))"

fun json_text :: "json \<Rightarrow> string" where
  "json_text (JStr s) = json_string s"
| "json_text (JInt i) = show_int i"
| "json_text (JBool b) = (if b then ''true'' else ''false'')"
| "json_text (JObj fs) =
     ''{'' @ Join (map (\<lambda>(k, v). json_string k @ '':'' @ json_text v) fs) '','' @ ''}''"

definition json_Encode :: "json \<Rightarrow> string" where
  "json_Encode v = json_text v @ [CHR 0x0A]"

lemma lowerhex_ok: "n < 16 \<Longrightarrow> ishex (lowerhex n) \<and> unhex (lowerhex n) = n"
proof -
  have "list_all (\<lambda>n. ishex (lowerhex n) \<and> unhex (lowerhex n) = n) [0..<16]" by code_simp
  then show "n < 16 \<Longrightarrow> ?thesis" by (simp add: list_all_iff)
qed

text \<open>Numbers are printed in ASCII.\<close>

lemma show_digits_ascii: "2 \<le> b \<Longrightarrow> b \<le> 16 \<Longrightarrow> list_all (\<lambda>c. ord c < 128) (show_digits b n)"
proof (induction b n rule: show_digits.induct)
  case (1 b n)
  have m: "n mod b < 16" using 1(2,3) by (meson mod_less_divisor less_le_trans zero_less_numeral)
  show ?case
  proof (cases "n < b")
    case True
    then show ?thesis using 1(3) by (subst show_digits.simps) auto
  next
    case False
    then show ?thesis using 1 m by (subst show_digits.simps) auto
  qed
qed

lemma show_int_ascii: "list_all (\<lambda>c. ord c < 128) (show_int i)"
  using show_digits_ascii [of 10] by (simp add: show_int_def)

end
