(* ===== verification/Waf.thy ===== *)
theory Waf
  imports CachePolicy GoJson
begin

text \<open>
  \<open>proxy/internal/waf/engine.go\<close>: compilation of the rules, their evaluation on a request,
  the status code and body of a block, and the reading of the body for inspection. Regular
  expressions are as in \<open>CachePolicy\<close>: \<open>compile\<close> is any engine. A panic is \<open>None\<close>. What
  \<open>Evaluate\<close> logs and counts is returned as a list of events.
\<close>

section \<open>Compiled rules\<close>

record decision =
  d_RuleID :: string
  d_Action :: string
  d_Matched :: bool
  d_Detail :: string

record compiled_condition =
  cd_original :: waf_condition
  cd_pathRe :: "regexp option"
  cd_queryRe :: "regexp option"
  cd_bodyRe :: "regexp option"
  cd_headerRe :: "regexp option"
  cd_uaRe :: "regexp option"
  cd_ipNet :: "ip_net option"

record compiled_rule =
  wf_config :: waf_rule
  wf_conditions :: "compiled_condition list"

record engine =
  wf_mode :: string
  wf_rules :: "compiled_rule list"
  wf_metrics :: bool  \<comment> \<open>whether the metrics pointer is set\<close>
  wf_maxBodyInspect :: int

text \<open>Compiling one pattern: an empty one leaves the nil expression. The error says what failed and on
  which pattern; the message of the regexp package is left out.\<close>

definition compile_opt :: "(string \<Rightarrow> 'b option) \<Rightarrow> string \<Rightarrow> string \<Rightarrow> string + 'b option" where
  "compile_opt compiler what pat =
     (if pat = '''' then Inr None
      else (case compiler pat of None \<Rightarrow> Inl (what @ '' '' @ pat) | Some re \<Rightarrow> Inr (Some re)))"

definition bind_err :: "'e + 'a \<Rightarrow> ('a \<Rightarrow> 'e + 'b) \<Rightarrow> 'e + 'b" where
  "bind_err x f = (case x of Inl e \<Rightarrow> Inl e | Inr a \<Rightarrow> f a)"

definition compileCondition :: "regexp_compiler \<Rightarrow> waf_condition \<Rightarrow> string + compiled_condition" where
  "compileCondition compile cond =
     bind_err (compile_opt compile ''compile path_regex'' (wc_PathRegex cond)) (\<lambda>pathRe.
     bind_err (compile_opt compile ''compile query_regex'' (wc_QueryRegex cond)) (\<lambda>queryRe.
     bind_err (compile_opt compile ''compile body_regex'' (wc_BodyRegex cond)) (\<lambda>bodyRe.
     bind_err (compile_opt compile ''compile header_regex'' (wc_HeaderRegex cond)) (\<lambda>headerRe.
     bind_err (compile_opt compile ''compile user_agent_regex'' (wc_UserAgentRegex cond)) (\<lambda>uaRe.
     bind_err (compile_opt ParseCIDR ''parse ip_cidr'' (wc_IPCIDR cond)) (\<lambda>ipNet.
       Inr \<lparr>cd_original = cond, cd_pathRe = pathRe, cd_queryRe = queryRe, cd_bodyRe = bodyRe,
            cd_headerRe = headerRe, cd_uaRe = uaRe, cd_ipNet = ipNet\<rparr>))))))"

fun compile_conditions :: "regexp_compiler \<Rightarrow> waf_condition list \<Rightarrow> string + compiled_condition list" where
  "compile_conditions compile [] = Inr []"
| "compile_conditions compile (c # cs) =
     bind_err (compileCondition compile c) (\<lambda>cc.
     bind_err (compile_conditions compile cs) (\<lambda>ccs. Inr (cc # ccs)))"

text \<open>The loop of \<open>NewEngine\<close>: disabled rules are skipped, the first error ends it and
  names its rule.\<close>

fun compile_rules :: "regexp_compiler \<Rightarrow> waf_rule list \<Rightarrow> (string \<times> string) + compiled_rule list" where
  "compile_rules compile [] = Inr []"
| "compile_rules compile (rule # rules) =
     (if \<not> wr_Enabled rule then compile_rules compile rules
      else (case compile_conditions compile (wr_Any rule) of
              Inl e \<Rightarrow> Inl (wr_ID rule, e)
            | Inr conds \<Rightarrow>
                bind_err (compile_rules compile rules) (\<lambda>crs.
                  Inr (\<lparr>wf_config = rule, wf_conditions = conds\<rparr> # crs))))"

definition NewEngine ::
  "regexp_compiler \<Rightarrow> waf_config option \<Rightarrow> bool \<Rightarrow> int \<Rightarrow> (string \<times> string) + engine" where
  "NewEngine compile wafCfg metrics maxBodyInspect =
     (case wafCfg of
        None \<Rightarrow> Inr \<lparr>wf_mode = ''shadow'', wf_rules = [], wf_metrics = metrics, wf_maxBodyInspect = maxBodyInspect\<rparr>
      | Some cfg \<Rightarrow>
          bind_err (compile_rules compile (waf_Rules cfg)) (\<lambda>crs.
            Inr \<lparr>wf_mode = waf_Mode cfg, wf_rules = crs, wf_metrics = metrics,
                 wf_maxBodyInspect = maxBodyInspect\<rparr>))"

section \<open>Matching\<close>

definition extractIP :: "string \<Rightarrow> ip option" where
  "extractIP remoteAddr =
     (case SplitHostPort remoteAddr of
        None \<Rightarrow> ParseIP remoteAddr
      | Some (host, port) \<Rightarrow> ParseIP host)"

definition UserAgent :: "request \<Rightarrow> string" where
  "UserAgent r = header_Get (r_Header r) ''User-Agent''"

text \<open>The first of the checks that succeeds gives the detail; a check that panics ends it.\<close>

fun first_check :: "string option option list \<Rightarrow> string option option" where
  "first_check [] = Some None"
| "first_check (c # cs) =
     (case c of None \<Rightarrow> None | Some None \<Rightarrow> first_check cs | Some (Some d) \<Rightarrow> Some (Some d))"

definition check_path :: "compiled_condition \<Rightarrow> request \<Rightarrow> string option" where
  "check_path cond r =
     (case cd_pathRe cond of
        None \<Rightarrow> None
      | Some re \<Rightarrow>
          if re (u_Path (r_URL r)) then Some (''path_regex matched: '' @ u_Path (r_URL r))
          else if re (u_RawPath (r_URL r)) then Some (''raw_path_regex matched: '' @ u_RawPath (r_URL r))
          else None)"

definition check_query :: "compiled_condition \<Rightarrow> request \<Rightarrow> string option" where
  "check_query cond r =
     (case cd_queryRe cond of
        None \<Rightarrow> None
      | Some re \<Rightarrow>
          let rawQuery = u_RawQuery (r_URL r)
          in if re rawQuery then Some ''query_regex matched''
             else (case QueryUnescape rawQuery of
                     None \<Rightarrow> None
                   | Some decoded \<Rightarrow>
                       if decoded \<noteq> rawQuery \<and> re decoded then Some ''query_regex matched'' else None))"

text \<open>\<open>body[:inspectLen]\<close> panics when the limit is negative.\<close>

definition check_body :: "int \<Rightarrow> compiled_condition \<Rightarrow> string \<Rightarrow> string option option" where
  "check_body maxBodyInspect cond body =
     (case cd_bodyRe cond of
        None \<Rightarrow> Some None
      | Some re \<Rightarrow>
          if body = '''' then Some None
          else
            let inspectLen = min (int (length body)) maxBodyInspect
            in if inspectLen < 0 then None
               else if re (take (nat inspectLen) body) then Some (Some ''body_regex matched'')
               else Some None)"

definition check_method :: "compiled_condition \<Rightarrow> request \<Rightarrow> string option" where
  "check_method cond r =
     (if wc_Method (cd_original cond) \<noteq> '''' \<and> EqualFold (r_Method r) (wc_Method (cd_original cond))
      then Some (''method matched: '' @ r_Method r) else None)"

definition check_ua :: "compiled_condition \<Rightarrow> request \<Rightarrow> string option" where
  "check_ua cond r =
     (case cd_uaRe cond of
        None \<Rightarrow> None
      | Some re \<Rightarrow> if re (UserAgent r) then Some ''user_agent_regex matched'' else None)"

definition check_header_name :: "compiled_condition \<Rightarrow> request \<Rightarrow> string option" where
  "check_header_name cond r =
     (if wc_HeaderName (cd_original cond) \<noteq> ''''
         \<and> header_Get (r_Header r) (wc_HeaderName (cd_original cond)) \<noteq> ''''
      then Some (''header_name matched: '' @ wc_HeaderName (cd_original cond)) else None)"

definition header_lines :: "header \<Rightarrow> string list" where
  "header_lines h = concat (map (\<lambda>(name, vs). map (\<lambda>v. name @ '':'' @ v) vs) h)"

definition check_header :: "compiled_condition \<Rightarrow> request \<Rightarrow> string option" where
  "check_header cond r =
     (case cd_headerRe cond of
        None \<Rightarrow> None
      | Some re \<Rightarrow> map_option (\<lambda>l. ''header_regex matched: '' @ l) (find re (header_lines (r_Header r))))"

definition check_ip :: "compiled_condition \<Rightarrow> ip option \<Rightarrow> string option" where
  "check_ip cond clientIP =
     (case (cd_ipNet cond, clientIP) of
        (Some n, Some a) \<Rightarrow> if net_Contains n a then Some (''ip_cidr matched: '' @ ip_String a) else None
      | _ \<Rightarrow> None)"

definition check_content_type :: "compiled_condition \<Rightarrow> request \<Rightarrow> string option" where
  "check_content_type cond r =
     (let ct = header_Get (r_Header r) ''Content-Type''
      in if wc_ContentType (cd_original cond) \<noteq> ''''
            \<and> Contains (ToLower ct) (ToLower (wc_ContentType (cd_original cond)))
         then Some (''content_type matched: '' @ ct) else None)"

definition matchCondition ::
  "int \<Rightarrow> compiled_condition \<Rightarrow> request \<Rightarrow> string \<Rightarrow> ip option \<Rightarrow> string option option" where
  "matchCondition maxBodyInspect cond r body clientIP =
     first_check
       [Some (check_path cond r), Some (check_query cond r), check_body maxBodyInspect cond body,
        Some (check_method cond r), Some (check_ua cond r), Some (check_header_name cond r),
        Some (check_header cond r), Some (check_ip cond clientIP), Some (check_content_type cond r)]"

fun matchConditions ::
  "int \<Rightarrow> compiled_condition list \<Rightarrow> request \<Rightarrow> string \<Rightarrow> ip option \<Rightarrow> string option option" where
  "matchConditions mx [] r body clientIP = Some None"
| "matchConditions mx (c # cs) r body clientIP =
     (case matchCondition mx c r body clientIP of
        None \<Rightarrow> None
      | Some (Some d) \<Rightarrow> Some (Some d)
      | Some None \<Rightarrow> matchConditions mx cs r body clientIP)"

definition matchRule ::
  "engine \<Rightarrow> compiled_rule \<Rightarrow> request \<Rightarrow> string \<Rightarrow> ip option \<Rightarrow> string option option" where
  "matchRule e rule r body clientIP =
     matchConditions (wf_maxBodyInspect e) (wf_conditions rule) r body clientIP"

section \<open>Evaluation\<close>

datatype waf_event =
    WafLog request decision           \<comment> \<open>\<open>logDecision\<close>\<close>
  | WafDecisionsInc string string     \<comment> \<open>the counter of a rule and its action\<close>

definition no_decision :: decision where
  "no_decision = \<lparr>d_RuleID = '''', d_Action = ''allow'', d_Matched = False, d_Detail = ''''\<rparr>"

definition rule_decision :: "compiled_rule \<Rightarrow> string \<Rightarrow> decision" where
  "rule_decision rule detail =
     \<lparr>d_RuleID = wr_ID (wf_config rule), d_Action = wa_Type (wr_Action (wf_config rule)),
      d_Matched = True, d_Detail = detail\<rparr>"

definition rule_events :: "engine \<Rightarrow> compiled_rule \<Rightarrow> request \<Rightarrow> decision \<Rightarrow> waf_event list" where
  "rule_events e rule r d =
     (if wa_Log (wr_Action (wf_config rule)) then [WafLog r d] else [])
     @ (if wf_metrics e then [WafDecisionsInc (wr_ID (wf_config rule)) (wa_Type (wr_Action (wf_config rule)))]
        else [])"

text \<open>The loop over the rules; an action of an unknown type lets the loop go on.\<close>

fun evaluate_rules ::
  "engine \<Rightarrow> compiled_rule list \<Rightarrow> request \<Rightarrow> string \<Rightarrow> ip option \<Rightarrow> (decision \<times> waf_event list) option" where
  "evaluate_rules e [] r body clientIP = Some (no_decision, [])"
| "evaluate_rules e (rule # rules) r body clientIP =
     (case matchRule e rule r body clientIP of
        None \<Rightarrow> None
      | Some None \<Rightarrow> evaluate_rules e rules r body clientIP
      | Some (Some detail) \<Rightarrow>
          let decision = rule_decision rule detail;
              events = rule_events e rule r decision;
              action = wa_Type (wr_Action (wf_config rule))
          in if action = ''allow'' then Some (decision, events)
             else if action = ''block''
             then if wf_mode e = ''enforce'' then Some (decision, events)
                  else Some (decision\<lparr>d_Action := ''log''\<rparr>, events)
             else if action = ''log'' then Some (decision, events)
             else if action = ''bypass_cache'' then Some (decision, events)
             else map_option (\<lambda>(d, evs). (d, events @ evs)) (evaluate_rules e rules r body clientIP))"

definition Evaluate :: "engine \<Rightarrow> request \<Rightarrow> string \<Rightarrow> (decision \<times> waf_event list) option" where
  "Evaluate e r body =
     (if wf_rules e = [] then Some (no_decision, [])
      else evaluate_rules e (wf_rules e) r body (extractIP (r_RemoteAddr r)))"

section \<open>Blocking\<close>

definition HandleBlock :: "'w ResponseWriter \<Rightarrow> 'w \<Rightarrow> decision \<Rightarrow> waf_rule \<Rightarrow> 'w call" where
  "HandleBlock W w d rule =
     (let statusCode = wa_StatusCode (wr_Action rule);
          statusCode = (if statusCode = 0 then 403 else statusCode)
      in respond W statusCode
           (json_Encode (JObj [(''error'', JStr ''blocked by WAF''), (''rule_id'', JStr (d_RuleID d))]))
           (wo_Set W ''Content-Type'' ''application/json'' w))"

fun block_status :: "compiled_rule list \<Rightarrow> string \<Rightarrow> int" where
  "block_status [] ruleID = 403"
| "block_status (rule # rules) ruleID =
     (if wr_ID (wf_config rule) = ruleID
      then if wa_StatusCode (wr_Action (wf_config rule)) > 0
           then wa_StatusCode (wr_Action (wf_config rule)) else 403
      else block_status rules ruleID)"

definition GetBlockStatusCode :: "engine \<Rightarrow> string \<Rightarrow> int" where
  "GetBlockStatusCode e ruleID = block_status (wf_rules e) ruleID"

definition Mode :: "engine \<Rightarrow> string" where
  "Mode e = wf_mode e"

section \<open>Reading the body\<close>

text \<open>\<open>None\<close> is the panic of \<open>body[:maxBytes]\<close> with a negative limit; otherwise the bytes to
  inspect, \<open>Inl\<close> for a read error, and the request with its body restored.\<close>

definition ReadBodyForInspection :: "request \<Rightarrow> int \<Rightarrow> (unit + string \<times> request) option" where
  "ReadBodyForInspection r maxBytes =
     (case r_Body r of
        None \<Rightarrow> Some (Inr ('''', r))
      | Some b \<Rightarrow>
          (case read_limited (i64 (maxBytes + 1)) b of
             None \<Rightarrow> Some (Inl ())
           | Some body \<Rightarrow>
               let r = r\<lparr>r_Body := Some \<lparr>br_data = body, br_fails = False\<rparr>\<rparr>
               in if int (length body) > maxBytes
                  then if maxBytes < 0 then None else Some (Inr (take (nat maxBytes) body, r))
                  else Some (Inr (body, r))))"

section \<open>What a condition and a rule say\<close>

text \<open>The fields of one condition are alternatives, not a conjunction.\<close>

definition cond_holds :: "int \<Rightarrow> compiled_condition \<Rightarrow> request \<Rightarrow> string \<Rightarrow> bool" where
  "cond_holds mx cond r body \<longleftrightarrow>
     (\<exists>re. cd_pathRe cond = Some re \<and> (re (u_Path (r_URL r)) \<or> re (u_RawPath (r_URL r))))
     \<or> (\<exists>re. cd_queryRe cond = Some re \<and> (re (u_RawQuery (r_URL r))
            \<or> (\<exists>q. QueryUnescape (u_RawQuery (r_URL r)) = Some q \<and> re q)))
     \<or> (\<exists>re. cd_bodyRe cond = Some re \<and> body \<noteq> '''' \<and> re (take (nat mx) body))
     \<or> (wc_Method (cd_original cond) \<noteq> '''' \<and> EqualFold (r_Method r) (wc_Method (cd_original cond)))
     \<or> (\<exists>re. cd_uaRe cond = Some re \<and> re (UserAgent r))
     \<or> (wc_HeaderName (cd_original cond) \<noteq> '''' \<and> header_Get (r_Header r) (wc_HeaderName (cd_original cond)) \<noteq> '''')
     \<or> (\<exists>re name vs v. cd_headerRe cond = Some re \<and> (name, vs) \<in> set (r_Header r) \<and> v \<in> set vs
            \<and> re (name @ '':'' @ v))
     \<or> (\<exists>n a. cd_ipNet cond = Some n \<and> extractIP (r_RemoteAddr r) = Some a \<and> net_Contains n a)
     \<or> (wc_ContentType (cd_original cond) \<noteq> ''''
          \<and> Contains (ToLower (header_Get (r_Header r) ''Content-Type'')) (ToLower (wc_ContentType (cd_original cond))))"

definition rule_holds :: "int \<Rightarrow> compiled_rule \<Rightarrow> request \<Rightarrow> string \<Rightarrow> bool" where
  "rule_holds mx rule r body \<longleftrightarrow> (\<exists>c \<in> set (wf_conditions rule). cond_holds mx c r body)"

definition rule_decides :: "compiled_rule \<Rightarrow> bool" where
  "rule_decides rule \<longleftrightarrow> wa_Type (wr_Action (wf_config rule)) \<in> {''allow'', ''block'', ''log'', ''bypass_cache''}"

lemma first_check_total:
  "None \<notin> set cs \<Longrightarrow> \<exists>v. first_check cs = Some v \<and> (v \<noteq> None \<longleftrightarrow> (\<exists>d. Some (Some d) \<in> set cs))"
proof (induction cs)
  case (Cons c cs)
  then show ?case by (cases c; cases "the c") force+
qed simp

lemma header_line_iff:
  "l \<in> set (header_lines h) \<longleftrightarrow> (\<exists>name vs v. (name, vs) \<in> set h \<and> v \<in> set vs \<and> l = name @ '':'' @ v)"
  by (auto simp: header_lines_def)

lemma check_header_holds:
  "check_header cond r \<noteq> None \<longleftrightarrow> (\<exists>re name vs v. cd_headerRe cond = Some re \<and> (name, vs) \<in> set (r_Header r)
     \<and> v \<in> set vs \<and> re (name @ '':'' @ v))"
proof (cases "cd_headerRe cond")
  case (Some re)
  have "check_header cond r \<noteq> None \<longleftrightarrow> (\<exists>l. l \<in> set (header_lines (r_Header r)) \<and> re l)"
    by (auto simp: check_header_def Some find_None_iff)
  then show ?thesis unfolding header_line_iff Some by auto
qed (simp add: check_header_def)

lemma check_body_holds:
  assumes "0 \<le> mx"
  shows "\<exists>v. check_body mx cond body = Some v
    \<and> (v \<noteq> None \<longleftrightarrow> (\<exists>re. cd_bodyRe cond = Some re \<and> body \<noteq> '''' \<and> re (take (nat mx) body)))"
proof -
  have "take (nat (min (int (length body)) mx)) body = take (nat mx) body"
    using assms by (simp add: min_def nat_le_iff)
  then show ?thesis using assms by (auto simp: check_body_def Let_def split: option.split)
qed

lemma checks_hold:
  "check_path cond r \<noteq> None \<longleftrightarrow>
     (\<exists>re. cd_pathRe cond = Some re \<and> (re (u_Path (r_URL r)) \<or> re (u_RawPath (r_URL r))))"
  "check_query cond r \<noteq> None \<longleftrightarrow>
     (\<exists>re. cd_queryRe cond = Some re \<and> (re (u_RawQuery (r_URL r))
            \<or> (\<exists>q. QueryUnescape (u_RawQuery (r_URL r)) = Some q \<and> re q)))"
  "check_method cond r \<noteq> None \<longleftrightarrow>
     wc_Method (cd_original cond) \<noteq> '''' \<and> EqualFold (r_Method r) (wc_Method (cd_original cond))"
  "check_ua cond r \<noteq> None \<longleftrightarrow> (\<exists>re. cd_uaRe cond = Some re \<and> re (UserAgent r))"
  "check_header_name cond r \<noteq> None \<longleftrightarrow>
     wc_HeaderName (cd_original cond) \<noteq> '''' \<and> header_Get (r_Header r) (wc_HeaderName (cd_original cond)) \<noteq> ''''"
  "check_ip cond a \<noteq> None \<longleftrightarrow> (\<exists>n b. cd_ipNet cond = Some n \<and> a = Some b \<and> net_Contains n b)"
  "check_content_type cond r \<noteq> None \<longleftrightarrow> wc_ContentType (cd_original cond) \<noteq> ''''
     \<and> Contains (ToLower (header_Get (r_Header r) ''Content-Type'')) (ToLower (wc_ContentType (cd_original cond)))"
  by (auto simp: check_path_def check_query_def check_method_def check_ua_def check_header_name_def
      check_ip_def check_content_type_def Let_def split: option.splits)

lemma matchCondition_holds:
  assumes "0 \<le> mx"
  shows "\<exists>v. matchCondition mx cond r body (extractIP (r_RemoteAddr r)) = Some v
    \<and> (v \<noteq> None \<longleftrightarrow> cond_holds mx cond r body)"
proof -
  obtain vb where vb: "check_body mx cond body = Some vb"
    "vb \<noteq> None \<longleftrightarrow> (\<exists>re. cd_bodyRe cond = Some re \<and> body \<noteq> '''' \<and> re (take (nat mx) body))"
    using check_body_holds [OF assms] by blast
  let ?cs = "[check_path cond r, check_query cond r, vb, check_method cond r, check_ua cond r,
    check_header_name cond r, check_header cond r, check_ip cond (extractIP (r_RemoteAddr r)), check_content_type cond r]"
  have eq: "matchCondition mx cond r body (extractIP (r_RemoteAddr r)) = first_check (map Some ?cs)"
    by (simp add: matchCondition_def vb(1))
  have "None \<notin> set (map Some ?cs)" by simp
  then obtain v where v: "first_check (map Some ?cs) = Some v"
    "v \<noteq> None \<longleftrightarrow> (\<exists>d. Some (Some d) \<in> set (map Some ?cs))"
    using first_check_total by blast
  have "(\<exists>d. Some (Some d) \<in> set (map Some ?cs)) \<longleftrightarrow> (\<exists>c \<in> set ?cs. c \<noteq> None)"
    by auto
  also have "\<dots> \<longleftrightarrow> cond_holds mx cond r body"
    unfolding cond_holds_def by (simp only: list.set bex_simps checks_hold check_header_holds vb(2)) blast
  finally show ?thesis using eq v by simp
qed

lemma matchRule_holds:
  assumes "0 \<le> wf_maxBodyInspect e"
  shows "\<exists>v. matchRule e rule r body (extractIP (r_RemoteAddr r)) = Some v
    \<and> (v \<noteq> None \<longleftrightarrow> rule_holds (wf_maxBodyInspect e) rule r body)"
proof -
  have "\<exists>v. matchConditions (wf_maxBodyInspect e) cs r body (extractIP (r_RemoteAddr r)) = Some v
      \<and> (v \<noteq> None \<longleftrightarrow> (\<exists>c \<in> set cs. cond_holds (wf_maxBodyInspect e) c r body))" for cs
  proof (induction cs)
    case (Cons c cs)
    obtain v where v: "matchCondition (wf_maxBodyInspect e) c r body (extractIP (r_RemoteAddr r)) = Some v"
      "v \<noteq> None \<longleftrightarrow> cond_holds (wf_maxBodyInspect e) c r body"
      using matchCondition_holds [OF assms] by blast
    then show ?case using Cons by (cases v) auto
  qed simp
  then show ?thesis by (simp add: matchRule_def rule_holds_def)
qed

text \<open>The rule that settles a request: the first that holds and has a known action.\<close>

definition settling_rule :: "engine \<Rightarrow> request \<Rightarrow> string \<Rightarrow> compiled_rule option" where
  "settling_rule e r body =
     find (\<lambda>rule. rule_holds (wf_maxBodyInspect e) rule r body \<and> rule_decides rule) (wf_rules e)"

definition effective_action :: "engine \<Rightarrow> compiled_rule \<Rightarrow> string" where
  "effective_action e rule =
     (let a = wa_Type (wr_Action (wf_config rule))
      in if a = ''block'' \<and> wf_mode e \<noteq> ''enforce'' then ''log'' else a)"

text \<open>What the evaluation reports: every rule that holds, up to the one that settles the request, is
  logged if it asks for that and counted if there are metrics, each under its own action, also
  where a block will not be enforced.\<close>

fun upto_first :: "('a \<Rightarrow> bool) \<Rightarrow> 'a list \<Rightarrow> 'a list" where
  "upto_first P [] = []"
| "upto_first P (x # xs) = (if P x then [x] else x # upto_first P xs)"

definition match_detail :: "engine \<Rightarrow> compiled_rule \<Rightarrow> request \<Rightarrow> string \<Rightarrow> string" where
  "match_detail e rule r body =
     (case matchRule e rule r body (extractIP (r_RemoteAddr r)) of Some (Some detail) \<Rightarrow> detail | _ \<Rightarrow> '''')"

definition reported_rules :: "engine \<Rightarrow> request \<Rightarrow> string \<Rightarrow> compiled_rule list" where
  "reported_rules e r body =
     upto_first rule_decides (filter (\<lambda>rule. rule_holds (wf_maxBodyInspect e) rule r body) (wf_rules e))"

definition rule_report :: "engine \<Rightarrow> request \<Rightarrow> string \<Rightarrow> compiled_rule \<Rightarrow> waf_event list" where
  "rule_report e r body rule =
     (if wa_Log (wr_Action (wf_config rule))
      then [WafLog r \<lparr>d_RuleID = wr_ID (wf_config rule), d_Action = wa_Type (wr_Action (wf_config rule)),
              d_Matched = True, d_Detail = match_detail e rule r body\<rparr>] else [])
     @ (if wf_metrics e
        then [WafDecisionsInc (wr_ID (wf_config rule)) (wa_Type (wr_Action (wf_config rule)))] else [])"

lemma evaluate_rules_first:
  assumes "0 \<le> wf_maxBodyInspect e"
  shows "\<exists>d. evaluate_rules e rules r body (extractIP (r_RemoteAddr r)) = Some (d, concat (map (rule_report e r body)
      (upto_first rule_decides (filter (\<lambda>rule. rule_holds (wf_maxBodyInspect e) rule r body) rules))))
    \<and> (case find (\<lambda>rule. rule_holds (wf_maxBodyInspect e) rule r body \<and> rule_decides rule) rules of
         None \<Rightarrow> d = no_decision
       | Some rule \<Rightarrow> d = \<lparr>d_RuleID = wr_ID (wf_config rule), d_Action = effective_action e rule, d_Matched = True,
           d_Detail = match_detail e rule r body\<rparr>)"
proof (induction rules)
  case (Cons rule rules)
  obtain v where v: "matchRule e rule r body (extractIP (r_RemoteAddr r)) = Some v"
    "v \<noteq> None \<longleftrightarrow> rule_holds (wf_maxBodyInspect e) rule r body"
    using matchRule_holds [OF assms] by blast
  show ?case
  proof (cases v)
    case None
    then show ?thesis using Cons v by auto
  next
    case (Some detail)
    have report: "rule_events e rule r (rule_decision rule detail) = rule_report e r body rule"
      using v(1) Some by (simp add: rule_events_def rule_report_def rule_decision_def match_detail_def)
    have detail: "match_detail e rule r body = detail" using v(1) Some by (simp add: match_detail_def)
    show ?thesis
    proof (cases "rule_decides rule")
      case True
      then show ?thesis using v Some report detail
        by (auto simp: rule_decides_def rule_decision_def effective_action_def Let_def)
    next
      case False
      then show ?thesis using v Some Cons report by (auto simp: rule_decides_def Let_def)
    qed
  qed
qed simp

lemma Evaluate_reports:
  assumes "0 \<le> wf_maxBodyInspect e"
  shows "\<exists>d. Evaluate e r body = Some (d, concat (map (rule_report e r body) (reported_rules e r body)))
    \<and> (case settling_rule e r body of
         None \<Rightarrow> d = no_decision
       | Some rule \<Rightarrow> d = \<lparr>d_RuleID = wr_ID (wf_config rule), d_Action = effective_action e rule, d_Matched = True,
           d_Detail = match_detail e rule r body\<rparr>)"
  using evaluate_rules_first [OF assms, of "wf_rules e" r body]
  by (cases "wf_rules e") (auto simp: Evaluate_def settling_rule_def reported_rules_def)

lemma Evaluate_settled:
  assumes "0 \<le> wf_maxBodyInspect e"
  shows "\<exists>d evs. Evaluate e r body = Some (d, evs)
    \<and> (case settling_rule e r body of
         None \<Rightarrow> d = no_decision
       | Some rule \<Rightarrow> d_Matched d \<and> d_RuleID d = wr_ID (wf_config rule) \<and> d_Action d = effective_action e rule)"
  using Evaluate_reports [OF assms, of r body] by (cases "settling_rule e r body") auto

section \<open>A sample engine\<close>

definition sample_compile :: regexp_compiler where
  "sample_compile pat = Some (\<lambda>s. Contains s pat)"

definition no_condition :: waf_condition where
  "no_condition = \<lparr>wc_PathRegex = '''', wc_QueryRegex = '''', wc_BodyRegex = '''', wc_HeaderName = '''',
     wc_HeaderRegex = '''', wc_IPCIDR = '''', wc_Method = '''', wc_UserAgentRegex = '''', wc_ContentType = ''''\<rparr>"

definition sample_rule :: "string \<Rightarrow> string \<Rightarrow> waf_condition \<Rightarrow> waf_rule" where
  "sample_rule ident action cond = \<lparr>wr_ID = ident, wr_Enabled = True, wr_Phase = ''request'', wr_Description = '''',
     wr_Any = [cond], wr_Action = \<lparr>wa_Type = action, wa_StatusCode = 0, wa_Log = True\<rparr>\<rparr>"

definition sample_waf :: "string \<Rightarrow> waf_config" where
  "sample_waf mode = \<lparr>waf_Mode = mode, waf_Rules =
     [sample_rule ''watch'' ''log'' (no_condition\<lparr>wc_PathRegex := ''/login''\<rparr>),
      sample_rule ''sqli'' ''block'' (no_condition\<lparr>wc_QueryRegex := ''union select''\<rparr>)]\<rparr>"

definition sample_request :: "string \<Rightarrow> string \<Rightarrow> request" where
  "sample_request path query =
     \<lparr>r_Method = ''GET'', r_URL = \<lparr>u_Scheme = '''', u_Opaque = '''', u_User = None, u_Host = '''',
        u_Path = path, u_RawPath = '''', u_RawQuery = query\<rparr>,
      r_Host = ''example.com'', r_Header = [], r_RemoteAddr = ''10.0.0.7:4711'', r_ContentLength = 0,
      r_Body = None, r_TLS = False, r_RequestID = None\<rparr>"

definition sample_engine :: "string \<Rightarrow> engine" where
  "sample_engine mode =
     (case NewEngine sample_compile (Some (sample_waf mode)) True 100 of Inr e \<Rightarrow> e | Inl _ \<Rightarrow> undefined)"

lemma sample_engine_max: "wf_maxBodyInspect (sample_engine mode) = 100"
  by (simp add: sample_engine_def NewEngine_def sample_waf_def sample_rule_def no_condition_def
      sample_compile_def compileCondition_def compile_opt_def bind_err_def)

lemma sample_NewEngine: "NewEngine sample_compile (Some (sample_waf mode)) True 100 = Inr (sample_engine mode)"
  by (simp add: sample_engine_def NewEngine_def sample_waf_def sample_rule_def no_condition_def
      sample_compile_def compileCondition_def compile_opt_def bind_err_def)

definition sample_compiled :: "string \<Rightarrow> compiled_rule" where
  "sample_compiled ident =
     (if ident = ''watch''
      then \<lparr>wf_config = sample_rule ''watch'' ''log'' (no_condition\<lparr>wc_PathRegex := ''/login''\<rparr>),
            wf_conditions = [\<lparr>cd_original = no_condition\<lparr>wc_PathRegex := ''/login''\<rparr>,
              cd_pathRe = sample_compile ''/login'', cd_queryRe = None, cd_bodyRe = None, cd_headerRe = None,
              cd_uaRe = None, cd_ipNet = None\<rparr>]\<rparr>
      else \<lparr>wf_config = sample_rule ''sqli'' ''block'' (no_condition\<lparr>wc_QueryRegex := ''union select''\<rparr>),
            wf_conditions = [\<lparr>cd_original = no_condition\<lparr>wc_QueryRegex := ''union select''\<rparr>,
              cd_pathRe = None, cd_queryRe = sample_compile ''union select'', cd_bodyRe = None, cd_headerRe = None,
              cd_uaRe = None, cd_ipNet = None\<rparr>]\<rparr>)"

lemma sample_engine_rules: "wf_rules (sample_engine mode) = [sample_compiled ''watch'', sample_compiled ''sqli'']"
  and sample_engine_mode: "wf_mode (sample_engine mode) = mode"
  by (simp_all add: sample_engine_def NewEngine_def sample_waf_def sample_rule_def no_condition_def
      sample_compile_def compileCondition_def compile_opt_def bind_err_def sample_compiled_def)

lemma sample_types:
  "wr_ID (wf_config (sample_compiled ''watch'')) = ''watch''" "wa_Type (wr_Action (wf_config (sample_compiled ''watch''))) = ''log''"
  "wr_ID (wf_config (sample_compiled ''sqli'')) = ''sqli''" "wa_Type (wr_Action (wf_config (sample_compiled ''sqli''))) = ''block''"
  by (simp_all add: sample_compiled_def sample_rule_def)

lemma sample_holds:
  "rule_holds mx (sample_compiled ''watch'') r body \<longleftrightarrow>
     Contains (u_Path (r_URL r)) ''/login'' \<or> Contains (u_RawPath (r_URL r)) ''/login''"
  "rule_holds mx (sample_compiled ''sqli'') r body \<longleftrightarrow>
     Contains (u_RawQuery (r_URL r)) ''union select''
     \<or> (\<exists>q. QueryUnescape (u_RawQuery (r_URL r)) = Some q \<and> Contains q ''union select'')"
  by (simp_all add: rule_holds_def cond_holds_def sample_compiled_def sample_compile_def no_condition_def)

lemma sample_request_url [simp]:
  "u_Path (r_URL (sample_request path query)) = path" "u_RawPath (r_URL (sample_request path query)) = ''''"
  "u_RawQuery (r_URL (sample_request path query)) = query" "r_Header (sample_request path query) = []"
  by (simp_all add: sample_request_def)

lemma sample_contains:
  "\<not> Contains ''/'' ''/login''" "\<not> Contains '''' ''/login''" "Contains ''/login'' ''/login''"
  "Contains ''q=union select'' ''union select''"
  by code_simp+

section \<open>Properties\<close>

definition cond_compiles :: "regexp_compiler \<Rightarrow> waf_condition \<Rightarrow> bool" where
  "cond_compiles compile c \<longleftrightarrow>
     list_all (\<lambda>pat. pat = '''' \<or> compile pat \<noteq> None)
       [wc_PathRegex c, wc_QueryRegex c, wc_BodyRegex c, wc_HeaderRegex c, wc_UserAgentRegex c]
     \<and> (wc_IPCIDR c = '''' \<or> ParseCIDR (wc_IPCIDR c) \<noteq> None)"

lemma bind_err_Inr: "bind_err x f = Inr b \<longleftrightarrow> (\<exists>a. x = Inr a \<and> f a = Inr b)"
  by (auto simp: bind_err_def split: sum.split)

lemma compile_opt_Inr: "(\<exists>a. compile_opt compl w pat = Inr a) \<longleftrightarrow> pat = '''' \<or> compl pat \<noteq> None"
  by (auto simp: compile_opt_def split: option.split)

lemma compileCondition_Inr:
  "(\<exists>cc. compileCondition compile c = Inr cc) \<longleftrightarrow> cond_compiles compile c"
  "compileCondition compile c = Inr cc \<Longrightarrow> cd_original cc = c"
proof -
  have "(\<exists>cc. compileCondition compile c = Inr cc) \<longleftrightarrow>
      (\<exists>a. compile_opt compile ''compile path_regex'' (wc_PathRegex c) = Inr a)
    \<and> (\<exists>a. compile_opt compile ''compile query_regex'' (wc_QueryRegex c) = Inr a)
    \<and> (\<exists>a. compile_opt compile ''compile body_regex'' (wc_BodyRegex c) = Inr a)
    \<and> (\<exists>a. compile_opt compile ''compile header_regex'' (wc_HeaderRegex c) = Inr a)
    \<and> (\<exists>a. compile_opt compile ''compile user_agent_regex'' (wc_UserAgentRegex c) = Inr a)
    \<and> (\<exists>a. compile_opt ParseCIDR ''parse ip_cidr'' (wc_IPCIDR c) = Inr a)"
    unfolding compileCondition_def bind_err_Inr by blast
  then show "(\<exists>cc. compileCondition compile c = Inr cc) \<longleftrightarrow> cond_compiles compile c"
    unfolding compile_opt_Inr cond_compiles_def by simp
  show "compileCondition compile c = Inr cc \<Longrightarrow> cd_original cc = c"
    unfolding compileCondition_def bind_err_Inr by auto
qed

lemma compile_conditions_Inr:
  "(\<exists>ccs. compile_conditions compile cs = Inr ccs) \<longleftrightarrow> list_all (cond_compiles compile) cs"
  "compile_conditions compile cs = Inr ccs \<Longrightarrow> map cd_original ccs = cs"
  by (induction cs arbitrary: ccs)
    (auto simp: bind_err_Inr compileCondition_Inr(1) [symmetric] dest: compileCondition_Inr(2))

definition rule_compiles :: "regexp_compiler \<Rightarrow> waf_rule \<Rightarrow> bool" where
  "rule_compiles compile rule \<longleftrightarrow> list_all (cond_compiles compile) (wr_Any rule)"

lemma compile_rules_result:
  "case compile_rules compile rules of
     Inl e \<Rightarrow> \<not> list_all (rule_compiles compile) (filter wr_Enabled rules)
       \<and> fst e \<in> wr_ID ` set (filter wr_Enabled rules)
   | Inr crs \<Rightarrow> list_all (rule_compiles compile) (filter wr_Enabled rules)
       \<and> map wf_config crs = filter wr_Enabled rules
       \<and> map (\<lambda>cr. map cd_original (wf_conditions cr)) crs = map wr_Any (filter wr_Enabled rules)"
proof (induction rules)
  case (Cons rule rules)
  show ?case
  proof (cases "wr_Enabled rule")
    case True
    show ?thesis
    proof (cases "compile_conditions compile (wr_Any rule)")
      case (Inl e)
      then have "\<not> rule_compiles compile rule"
        using compile_conditions_Inr(1) [of compile "wr_Any rule"] by (simp add: rule_compiles_def)
      then show ?thesis using Inl True by simp
    next
      case (Inr conds)
      then have "rule_compiles compile rule" "map cd_original conds = wr_Any rule"
        using compile_conditions_Inr(1) [of compile "wr_Any rule"] compile_conditions_Inr(2)
        by (auto simp: rule_compiles_def)
      then show ?thesis using Inr True Cons
        by (cases "compile_rules compile rules") (auto simp: bind_err_def)
    qed
  next
    case False
    then show ?thesis using Cons by (simp only: compile_rules.simps filter.simps if_False not_False_eq_True if_True)
  qed
qed simp

text \<open>C21: \<open>NewEngine\<close> fails exactly when some pattern or network of an enabled rule does
  not compile, and names such a rule; otherwise it keeps the enabled rules, in order and
  each with all its conditions, under the configured mode and limit.\<close>

theorem NewEngine_result:
  "case NewEngine compile (Some cfg) metrics mx of
     Inl e \<Rightarrow> \<not> list_all (rule_compiles compile) (filter wr_Enabled (waf_Rules cfg))
       \<and> fst e \<in> wr_ID ` set (filter wr_Enabled (waf_Rules cfg))
   | Inr e \<Rightarrow> list_all (rule_compiles compile) (filter wr_Enabled (waf_Rules cfg))
       \<and> map wf_config (wf_rules e) = filter wr_Enabled (waf_Rules cfg)
       \<and> map (\<lambda>cr. map cd_original (wf_conditions cr)) (wf_rules e) = map wr_Any (filter wr_Enabled (waf_Rules cfg))
       \<and> wf_mode e = waf_Mode cfg \<and> wf_maxBodyInspect e = mx"
  using compile_rules_result [of compile "waf_Rules cfg"]
  by (cases "compile_rules compile (waf_Rules cfg)") (simp_all add: NewEngine_def bind_err_def)

text \<open>C10: evaluation never panics for a non-negative inspection limit, and the decision is
  that of the first rule in file order that holds and has a known action; a block counts
  as log outside enforce mode. With no such rule the request is allowed, unmatched. Exactly the
  rules that hold, up to that one, are reported, in order: each is logged if it asks for that and
  counted if there are metrics, with its own action.\<close>

theorem Evaluate_first_rule:
  assumes "0 \<le> wf_maxBodyInspect e"
  shows "\<exists>d evs. Evaluate e r body = Some (d, evs)
    \<and> (case settling_rule e r body of
         None \<Rightarrow> d = no_decision
       | Some rule \<Rightarrow> d_Matched d \<and> d_RuleID d = wr_ID (wf_config rule) \<and> d_Action d = effective_action e rule
           \<and> d_Detail d = match_detail e rule r body)
    \<and> evs = concat (map (\<lambda>rule.
        (if wa_Log (wr_Action (wf_config rule))
         then [WafLog r \<lparr>d_RuleID = wr_ID (wf_config rule), d_Action = wa_Type (wr_Action (wf_config rule)),
                 d_Matched = True, d_Detail = match_detail e rule r body\<rparr>] else [])
        @ (if wf_metrics e
           then [WafDecisionsInc (wr_ID (wf_config rule)) (wa_Type (wr_Action (wf_config rule)))] else []))
        (upto_first rule_decides (filter (\<lambda>rule. rule_holds (wf_maxBodyInspect e) rule r body) (wf_rules e))))"
  using Evaluate_reports [OF assms, of r body]
  unfolding rule_report_def [abs_def] reported_rules_def by (cases "settling_rule e r body") auto

theorem Evaluate_first_rule_witness:
  "\<exists>d. Evaluate (sample_engine ''enforce'') (sample_request ''/'' ''q=union select'') '''' =
      Some (d, [WafLog (sample_request ''/'' ''q=union select'') d, WafDecisionsInc ''sqli'' ''block''])
    \<and> d_RuleID d = ''sqli'' \<and> d_Action d = ''block''"
proof -
  let ?e = "sample_engine ''enforce''" and ?r = "sample_request ''/'' ''q=union select''"
  have "settling_rule ?e ?r '''' = Some (sample_compiled ''sqli'')"
    "upto_first rule_decides (filter (\<lambda>rule. rule_holds (wf_maxBodyInspect ?e) rule ?r '''') (wf_rules ?e)) = [sample_compiled ''sqli'']"
    by (simp_all add: settling_rule_def sample_engine_rules sample_holds sample_contains sample_types rule_decides_def)
  moreover have "effective_action ?e (sample_compiled ''sqli'') = ''block''" "wa_Log (wr_Action (wf_config (sample_compiled ''sqli'')))"
    by (simp_all add: effective_action_def sample_engine_mode sample_types) (simp add: sample_compiled_def sample_rule_def)
  moreover have "wf_metrics ?e"
    by (simp add: sample_engine_def NewEngine_def sample_waf_def sample_rule_def no_condition_def
      sample_compile_def compileCondition_def compile_opt_def bind_err_def)
  ultimately show ?thesis
    using Evaluate_first_rule [of ?e ?r "''''"] by (auto simp: sample_engine_max sample_types intro!: decision.equality)
qed

text \<open>C22: a request is blocked only in enforce mode; an engine without a configuration
  (the WAF file did not load) matches nothing at all.\<close>

theorem no_block_in_shadow:
  assumes "wf_mode e \<noteq> ''enforce''" "Evaluate e r body = Some (d, evs)"
  shows "d_Action d \<noteq> ''block''
    \<and> (\<forall>e' m mx. NewEngine compile None m mx = Inr e' \<longrightarrow> Evaluate e' r body = Some (no_decision, []))"
proof -
  have "evaluate_rules e rules r body ip = Some (d, evs) \<Longrightarrow> d_Action d \<noteq> ''block''" for rules ip evs
  proof (induction rules arbitrary: evs)
    case (Cons rule rules)
    then show ?case using assms(1)
      by (auto simp: rule_decision_def Let_def split: option.splits if_splits)
  qed (auto simp: no_decision_def)
  then have "d_Action d \<noteq> ''block''"
    using assms(2) by (auto simp: Evaluate_def no_decision_def split: if_splits)
  then show ?thesis by (auto simp: NewEngine_def Evaluate_def)
qed

theorem no_block_in_shadow_witness:
  "d_Action (fst (the (Evaluate (sample_engine ''shadow'') (sample_request ''/'' ''q=union select'') ''''))) \<noteq> ''block''"
proof -
  obtain d evs where "Evaluate (sample_engine ''shadow'') (sample_request ''/'' ''q=union select'') '''' = Some (d, evs)"
    using Evaluate_settled [of "sample_engine ''shadow''"] sample_engine_max by fastforce
  with no_block_in_shadow [OF _ this] sample_engine_mode show ?thesis by simp
qed

text \<open>The decision is not the most restrictive one: a matching log rule that stands
  before a matching block rule lets the request through, in enforce mode too.\<close>

theorem log_rule_shadows_block:
  assumes "0 \<le> wf_maxBodyInspect e" "wf_rules e = pre @ l # mid @ b # post"
    and "list_all (\<lambda>rule. \<not> rule_holds (wf_maxBodyInspect e) rule r body) pre"
    and "rule_holds (wf_maxBodyInspect e) l r body" "wa_Type (wr_Action (wf_config l)) = ''log''"
    and "rule_holds (wf_maxBodyInspect e) b r body" "wa_Type (wr_Action (wf_config b)) = ''block''"
  shows "\<exists>d evs. Evaluate e r body = Some (d, evs) \<and> d_Action d = ''log'' \<and> d_RuleID d = wr_ID (wf_config l)"
proof -
  have "find P (ys @ x # zs) = Some x" if "list_all (\<lambda>y. \<not> P y) ys" "P x" for P ys zs and x :: compiled_rule
    using that by (induction ys) auto
  from this [of "\<lambda>rule. rule_holds (wf_maxBodyInspect e) rule r body \<and> rule_decides rule" pre l]
  have "settling_rule e r body = Some l"
    using assms(3-5) unfolding settling_rule_def assms(2) by (auto simp: list_all_iff rule_decides_def)
  then show ?thesis
    using Evaluate_settled [OF assms(1), of r body] assms(5) by (auto simp: effective_action_def)
qed

theorem log_rule_shadows_block_witness:
  "\<exists>d evs. Evaluate (sample_engine ''enforce'') (sample_request ''/login'' ''q=union select'') '''' = Some (d, evs)
    \<and> d_Action d = ''log''"
  using log_rule_shadows_block [of "sample_engine ''enforce''" "[]" "sample_compiled ''watch''" "[]"
      "sample_compiled ''sqli''" "[]" "sample_request ''/login'' ''q=union select''" "''''"]
  by (auto simp: sample_engine_max sample_engine_rules sample_holds sample_contains sample_types)

text \<open>C23: a readable body is inspected up to the limit, but what is forwarded afterwards is
  cut off one byte beyond it: the rest of a longer upload is lost.\<close>

theorem ReadBody_truncates:
  assumes "r_Body r = Some b" "\<not> br_fails b" "0 \<le> maxBytes" "maxBytes < max_i64"
  shows "\<exists>r'. ReadBodyForInspection r maxBytes = Some (Inr (take (nat maxBytes) (br_data b), r'))
    \<and> r' = r\<lparr>r_Body := Some \<lparr>br_data = take (nat maxBytes + 1) (br_data b), br_fails = False\<rparr>\<rparr>
    \<and> (r_Body r' = Some b \<longleftrightarrow> int (length (br_data b)) \<le> maxBytes + 1)"
proof -
  have i: "i64 (maxBytes + 1) = maxBytes + 1" using assms(3,4) by simp
  have n: "nat (maxBytes + 1) = nat maxBytes + 1" using assms(3) by simp
  have read: "read_limited (maxBytes + 1) b = Some (take (nat maxBytes + 1) (br_data b))"
    using assms(2) by (simp only: read_limited_def n) simp
  let ?n = "nat maxBytes"
  let ?d = "br_data b"
  have whole: "take (?n + 1) ?d = ?d \<longleftrightarrow> int (length ?d) \<le> maxBytes + 1"
    using assms(3) by (simp, arith)
  have b: "\<lparr>br_data = take (?n + 1) ?d, br_fails = False\<rparr> = b \<longleftrightarrow> take (?n + 1) ?d = ?d"
    using assms(2) by (cases b) simp
  have "ReadBodyForInspection r maxBytes = Some (Inr (take ?n ?d,
      r\<lparr>r_Body := Some \<lparr>br_data = take (?n + 1) ?d, br_fails = False\<rparr>\<rparr>))"
  proof (cases "int (length (take (?n + 1) ?d)) > maxBytes")
    case True
    then show ?thesis using assms(3)
      by (simp add: ReadBodyForInspection_def assms(1) i read Let_def min_def)
  next
    case False
    then have "length ?d \<le> ?n" by (simp add: min_def split: if_splits)
    then show ?thesis using False assms(3)
      by (simp add: ReadBodyForInspection_def assms(1) i read Let_def)
  qed
  then show ?thesis using whole b by simp
qed

theorem ReadBody_truncates_witness:
  "\<exists>r'. ReadBodyForInspection (sample_request ''/'' '''' \<lparr>r_Body := Some \<lparr>br_data = ''abcdef'', br_fails = False\<rparr>\<rparr>) 3
      = Some (Inr (''abc'', r')) \<and> r_Body r' = Some \<lparr>br_data = ''abcd'', br_fails = False\<rparr>"
  using ReadBody_truncates [of "sample_request ''/'' '''' \<lparr>r_Body := Some \<lparr>br_data = ''abcdef'', br_fails = False\<rparr>\<rparr>"
      "\<lparr>br_data = ''abcdef'', br_fails = False\<rparr>" 3] by (simp add: numeral_eq_Suc)

end
