(* ===== verification/RateLimit.thy ===== *)
theory RateLimit
  imports Waf
begin

text \<open>
  \<open>proxy/internal/ratelimit/limiter.go\<close>. The token bucket itself is
  \<open>golang.org/x/time/rate\<close>, which is not part of the repository: \<open>rate_lib\<close> collects
  its two functions, and every statement holds for whatever they are.

  The map of the limiter points to entries that point to shared bucket objects, so the
  buckets live in a store and the map holds their addresses. The time of a call is one
  reading of the clock. Exemptions, keys, the rule loop, the deny response and one tick of the cleanup
  goroutine are modelled; the ticks and the calls interleave as whole steps.
\<close>

section \<open>State\<close>

record 'l rate_lib =
  NewRateLimiter :: "int \<Rightarrow> int \<Rightarrow> 'l"
  lim_Allow :: "instant \<Rightarrow> 'l \<Rightarrow> bool \<times> 'l"

record limiter_entry =
  le_limiter :: nat
  le_lastSeen :: instant

record 'l limiter =
  lm_rules :: "rate_limit_rule list"
  lm_exemptions :: rate_limit_exemptions
  lm_limiters :: "(string \<times> limiter_entry) list"
  lm_cleanupInterval :: duration
  lm_metrics :: bool
  lm_store :: "'l list"  \<comment> \<open>the bucket objects; an address is an index\<close>

datatype rl_event = RateLimitTotalInc string string

definition NewLimiter :: "rate_limit_config option \<Rightarrow> bool \<Rightarrow> 'l limiter" where
  "NewLimiter cfg metrics =
     \<lparr>lm_rules = (case cfg of None \<Rightarrow> [] | Some c \<Rightarrow> rl_Rules c),
      lm_exemptions = (case cfg of None \<Rightarrow> \<lparr>ex_CIDRs = [], ex_Paths = []\<rparr> | Some c \<Rightarrow> rl_Exemptions c),
      lm_limiters = [], lm_cleanupInterval = 5 * Minute, lm_metrics = metrics, lm_store = []\<rparr>"

section \<open>Operations\<close>

definition extractClientIP :: "string \<Rightarrow> string" where
  "extractClientIP remoteAddr =
     (case SplitHostPort remoteAddr of None \<Rightarrow> remoteAddr | Some (host, port) \<Rightarrow> host)"

definition isExempt :: "rate_limit_exemptions \<Rightarrow> string \<Rightarrow> string \<Rightarrow> bool" where
  "isExempt ex clientIP path =
     (if list_ex (\<lambda>p. HasPrefix path p) (ex_Paths ex) then True
      else (case ParseIP clientIP of
              None \<Rightarrow> False
            | Some a \<Rightarrow> list_ex (\<lambda>cidr. case ParseCIDR cidr of None \<Rightarrow> False | Some n \<Rightarrow> net_Contains n a) (ex_CIDRs ex)))"

definition buildKey :: "rate_limit_rule \<Rightarrow> request \<Rightarrow> string \<Rightarrow> string" where
  "buildKey rule r clientIP =
     (if rl_Key rule = ''ip'' then ''rl:'' @ rl_ID rule @ '':ip:'' @ clientIP
      else if rl_Key rule = ''ip_path''
      then ''rl:'' @ rl_ID rule @ '':ip_path:'' @ clientIP @ '':'' @ rl_PathPrefix rule
      else if rl_Key rule = ''api_key''
      then let apiKey = header_Get (r_Header r) ''X-API-Key'';
               apiKey = (if apiKey = '''' then ''anonymous'' else apiKey)
           in ''rl:'' @ rl_ID rule @ '':api_key:'' @ apiKey
      else ''rl:'' @ rl_ID rule @ '':ip:'' @ clientIP)"

definition getLimiter ::
  "'l rate_lib \<Rightarrow> instant \<Rightarrow> string \<Rightarrow> rate_limit_rule \<Rightarrow> 'l limiter \<Rightarrow> nat \<times> 'l limiter" where
  "getLimiter lib now key rule l =
     (case map_of (lm_limiters l) key of
        Some entry \<Rightarrow>
          (le_limiter entry,
           l\<lparr>lm_limiters := AList.update key (entry\<lparr>le_lastSeen := now\<rparr>) (lm_limiters l)\<rparr>)
      | None \<Rightarrow>
          let addr = length (lm_store l)
          in (addr,
              l\<lparr>lm_store := lm_store l @ [NewRateLimiter lib (rl_Rate rule) (rl_Burst rule)],
                lm_limiters := AList.update key \<lparr>le_limiter = addr, le_lastSeen = now\<rparr> (lm_limiters l)\<rparr>))"

text \<open>\<open>limiter.Allow()\<close> on the object at an address.\<close>

definition call_Allow :: "'l rate_lib \<Rightarrow> instant \<Rightarrow> nat \<Rightarrow> 'l limiter \<Rightarrow> bool \<times> 'l limiter" where
  "call_Allow lib now addr l =
     (case lim_Allow lib now (lm_store l ! addr) of
        (ok, b) \<Rightarrow> (ok, l\<lparr>lm_store := (lm_store l)[addr := b]\<rparr>))"

definition rule_in_scope :: "rate_limit_rule \<Rightarrow> request \<Rightarrow> bool" where
  "rule_in_scope rule r \<longleftrightarrow>
     rl_Enabled rule \<and> \<not> (rl_PathPrefix rule \<noteq> '''' \<and> \<not> HasPrefix (u_Path (r_URL r)) (rl_PathPrefix rule))"

fun allow_rules ::
  "'l rate_lib \<Rightarrow> instant \<Rightarrow> rate_limit_rule list \<Rightarrow> request \<Rightarrow> string \<Rightarrow> 'l limiter
     \<Rightarrow> (bool \<times> string \<times> rate_limit_rule option) \<times> rl_event list \<times> 'l limiter" where
  "allow_rules lib now [] r clientIP l = ((True, '''', None), [], l)"
| "allow_rules lib now (rule # rules) r clientIP l =
     (if \<not> rule_in_scope rule r then allow_rules lib now rules r clientIP l
      else
        let (addr, l) = getLimiter lib now (buildKey rule r clientIP) rule l;
            (ok, l) = call_Allow lib now addr l
        in if \<not> ok
           then ((False, rl_ID rule, Some rule),
                 if lm_metrics l then [RateLimitTotalInc (rl_ID rule) ''deny''] else [], l)
           else (case allow_rules lib now rules r clientIP l of
                   (res, evs, l') \<Rightarrow>
                     (res, (if lm_metrics l then [RateLimitTotalInc (rl_ID rule) ''allow''] else []) @ evs, l')))"

definition Allow ::
  "'l rate_lib \<Rightarrow> instant \<Rightarrow> request \<Rightarrow> 'l limiter
     \<Rightarrow> (bool \<times> string \<times> rate_limit_rule option) \<times> rl_event list \<times> 'l limiter" where
  "Allow lib now r l =
     (let clientIP = extractClientIP (r_RemoteAddr r)
      in if isExempt (lm_exemptions l) clientIP (u_Path (r_URL r)) then ((True, '''', None), [], l)
         else allow_rules lib now (lm_rules l) r clientIP l)"

definition HandleDeny :: "'w ResponseWriter \<Rightarrow> 'w \<Rightarrow> string \<Rightarrow> 'w call" where
  "HandleDeny W w ruleID =
     (let w = wo_Set W ''Content-Type'' ''application/json'' w;
          w = wo_Set W ''Retry-After'' ''1'' w
      in respond W 429
           (json_Encode (JObj [(''error'', JStr ''rate limit exceeded''), (''rule_id'', JStr ruleID)])) w)"

text \<open>One tick of the cleanup goroutine.\<close>

definition cleanup_tick :: "instant \<Rightarrow> 'l limiter \<Rightarrow> 'l limiter" where
  "cleanup_tick now l =
     (let threshold = now - lm_cleanupInterval l
      in l\<lparr>lm_limiters := filter (\<lambda>(key, entry). \<not> le_lastSeen entry < threshold) (lm_limiters l)\<rparr>)"

section \<open>The invariant\<close>

text \<open>Every key has its own bucket object.\<close>

definition lm_inv :: "'l limiter \<Rightarrow> bool" where
  "lm_inv l \<longleftrightarrow> distinct_keys (lm_limiters l)
     \<and> (\<forall>k e. map_of (lm_limiters l) k = Some e \<longrightarrow> le_limiter e < length (lm_store l))
     \<and> (\<forall>j k d e. map_of (lm_limiters l) j = Some d \<longrightarrow> map_of (lm_limiters l) k = Some e
          \<longrightarrow> le_limiter d = le_limiter e \<longrightarrow> j = k)"

definition bucket_of :: "'l limiter \<Rightarrow> string \<Rightarrow> 'l option" where
  "bucket_of l k = map_option (\<lambda>e. lm_store l ! le_limiter e) (map_of (lm_limiters l) k)"

lemma lm_inv_new: "lm_inv (NewLimiter cfg metrics)"
  by (simp add: lm_inv_def NewLimiter_def)

text \<open>Looking a bucket up or creating it touches no other key.\<close>

lemma getLimiter_facts:
  assumes "lm_inv l" "getLimiter lib now key rule l = (addr, l')"
  shows "lm_inv l'" "\<exists>e. map_of (lm_limiters l') key = Some e \<and> le_limiter e = addr"
    "addr < length (lm_store l')"
    "bucket_of l' key = Some (case bucket_of l key of Some b \<Rightarrow> b | None \<Rightarrow> NewRateLimiter lib (rl_Rate rule) (rl_Burst rule))"
    "k \<noteq> key \<Longrightarrow> bucket_of l' k = bucket_of l k" "lm_rules l' = lm_rules l" "lm_metrics l' = lm_metrics l"
proof -
  have inv: "map_of (lm_limiters l) j = Some d \<Longrightarrow> le_limiter d < length (lm_store l)" for j d
    using assms(1) by (auto simp: lm_inv_def)
  have inj: "map_of (lm_limiters l) j = Some d \<Longrightarrow> map_of (lm_limiters l) i = Some e
      \<Longrightarrow> le_limiter d = le_limiter e \<Longrightarrow> j = i" for i j d e
    using assms(1) unfolding lm_inv_def by blast
  have dist: "distinct_keys (lm_limiters l)" using assms(1) by (simp add: lm_inv_def)
  show "lm_inv l'"
    unfolding lm_inv_def
  proof (intro conjI allI impI)
    show "distinct_keys (lm_limiters l')"
      using assms(2) dist by (auto simp: getLimiter_def Let_def distinct_update split: option.splits)
    have new: "map_of (lm_limiters l) j = Some d \<Longrightarrow> le_limiter d \<noteq> length (lm_store l)" for j d
      using inv by fastforce
    show "le_limiter e < length (lm_store l')" if "map_of (lm_limiters l') k = Some e" for k e
    proof (cases "map_of (lm_limiters l) key")
      case None
      then show ?thesis using assms(2) that inv [of k e]
        by (cases "k = key") (auto simp: getLimiter_def Let_def)
    next
      case (Some d)
      then show ?thesis using assms(2) that inv [of k e] inv [of key d]
        by (cases "k = key") (auto simp: getLimiter_def)
    qed
    show "j = i" if "map_of (lm_limiters l') j = Some d" "map_of (lm_limiters l') i = Some e"
        "le_limiter d = le_limiter e" for j i d e
      using assms(2) that new new [THEN not_sym] inj
      by (auto simp: getLimiter_def Let_def split: option.splits if_splits)
  qed
  show "\<exists>e. map_of (lm_limiters l') key = Some e \<and> le_limiter e = addr" "addr < length (lm_store l')"
    "bucket_of l' key = Some (case bucket_of l key of Some b \<Rightarrow> b | None \<Rightarrow> NewRateLimiter lib (rl_Rate rule) (rl_Burst rule))"
    "lm_rules l' = lm_rules l" "lm_metrics l' = lm_metrics l"
    using assms(2) by (auto simp: getLimiter_def Let_def bucket_of_def dest: inv split: option.splits)
  show "bucket_of l' k = bucket_of l k" if "k \<noteq> key"
    using assms(2) that
    by (cases "map_of (lm_limiters l) k")
      (auto simp: getLimiter_def Let_def bucket_of_def nth_append dest: inv split: option.splits)
qed

lemma call_Allow_facts:
  assumes "lm_inv l" "map_of (lm_limiters l) key = Some e" "call_Allow lib now (le_limiter e) l = (ok, l')"
  shows "lm_inv l'" "bucket_of l' key = Some (snd (lim_Allow lib now (the (bucket_of l key))))"
    "ok = fst (lim_Allow lib now (the (bucket_of l key)))"
    "k \<noteq> key \<Longrightarrow> bucket_of l' k = bucket_of l k" "lm_rules l' = lm_rules l" "lm_metrics l' = lm_metrics l"
proof -
  have l': "l' = l\<lparr>lm_store := (lm_store l)[le_limiter e := snd (lim_Allow lib now (lm_store l ! le_limiter e))]\<rparr>"
    and ok: "ok = fst (lim_Allow lib now (lm_store l ! le_limiter e))"
    using assms(3) by (auto simp: call_Allow_def split: prod.splits)
  have lt: "le_limiter e < length (lm_store l)" using assms(1,2) by (auto simp: lm_inv_def)
  show "lm_inv l'" using assms(1) by (simp add: l' lm_inv_def)
  show "bucket_of l' key = Some (snd (lim_Allow lib now (the (bucket_of l key))))"
    "ok = fst (lim_Allow lib now (the (bucket_of l key)))" "lm_rules l' = lm_rules l" "lm_metrics l' = lm_metrics l"
    using lt assms(2) by (simp_all add: l' ok bucket_of_def)
  show "bucket_of l' k = bucket_of l k" if "k \<noteq> key"
  proof (cases "map_of (lm_limiters l) k")
    case (Some d)
    then have "le_limiter d \<noteq> le_limiter e" using assms(1,2) that unfolding lm_inv_def by metis
    then show ?thesis by (simp add: l' bucket_of_def Some)
  qed (simp add: l' bucket_of_def)
qed

section \<open>The abstract limiter: one bucket per key\<close>

type_synonym 'l buckets = "string \<rightharpoonup> 'l"

fun spec_allow ::
  "'l rate_lib \<Rightarrow> instant \<Rightarrow> rate_limit_rule list \<Rightarrow> request \<Rightarrow> string \<Rightarrow> 'l buckets
     \<Rightarrow> (bool \<times> string \<times> rate_limit_rule option) \<times> 'l buckets" where
  "spec_allow lib now [] r clientIP M = ((True, '''', None), M)"
| "spec_allow lib now (rule # rules) r clientIP M =
     (if \<not> rule_in_scope rule r then spec_allow lib now rules r clientIP M
      else
        let key = buildKey rule r clientIP;
            b = (case M key of Some b \<Rightarrow> b | None \<Rightarrow> NewRateLimiter lib (rl_Rate rule) (rl_Burst rule));
            (ok, b') = lim_Allow lib now b;
            M = M(key \<mapsto> b')
        in if ok then spec_allow lib now rules r clientIP M else ((False, rl_ID rule, Some rule), M))"

lemma allow_rules_refines:
  assumes "lm_inv l" "allow_rules lib now rules r clientIP l = (res, evs, l')"
  shows "lm_inv l' \<and> spec_allow lib now rules r clientIP (bucket_of l) = (res, bucket_of l')"
  using assms
proof (induction rules arbitrary: l res evs l')
  case (Cons rule rules)
  show ?case
  proof (cases "rule_in_scope rule r")
    case True
    let ?key = "buildKey rule r clientIP"
    obtain addr l1 where g: "getLimiter lib now ?key rule l = (addr, l1)" by fastforce
    note gf = getLimiter_facts [OF Cons.prems(1) g]
    obtain e where e: "map_of (lm_limiters l1) ?key = Some e" "le_limiter e = addr" using gf(2) by blast
    obtain ok l2 where c: "call_Allow lib now addr l1 = (ok, l2)" by fastforce
    note cf = call_Allow_facts [OF gf(1) e(1) c [folded e(2)]]
    define b where "b = (case bucket_of l ?key of Some b \<Rightarrow> b | None \<Rightarrow> NewRateLimiter lib (rl_Rate rule) (rl_Burst rule))"
    have same: "bucket_of l2 = (bucket_of l)(?key \<mapsto> snd (lim_Allow lib now b))"
      using cf(2,4) gf(4,5) by (auto simp: fun_eq_iff b_def)
    have ok: "ok = fst (lim_Allow lib now b)" using cf(3) gf(4) by (simp add: b_def)
    have spec: "spec_allow lib now (rule # rules) r clientIP (bucket_of l) =
        (if ok then spec_allow lib now rules r clientIP (bucket_of l2) else ((False, rl_ID rule, Some rule), bucket_of l2))"
      using True by (simp add: same ok Let_def b_def [symmetric] split_beta)
    show ?thesis
    proof (cases ok)
      case False
      then show ?thesis using Cons.prems(2) True g c cf(1) unfolding spec by auto
    next
      case ok: True
      obtain res' evs' l3 where rest: "allow_rules lib now rules r clientIP l2 = (res', evs', l3)"
        by (metis prod_cases3)
      from Cons.IH [OF cf(1) this] have IH: "lm_inv l3 \<and> spec_allow lib now rules r clientIP (bucket_of l2) = (res', bucket_of l3)" .
      have "res = res'" "l' = l3" using Cons.prems(2) True g c ok rest by auto
      then show ?thesis unfolding spec using IH ok by simp
    qed
  qed (use Cons in simp)
qed simp

lemma spec_allow_Cons:
  assumes "rule_in_scope rule r"
  obtains ok b' where
    "spec_allow lib now (rule # rules) r clientIP M =
       (if ok then spec_allow lib now rules r clientIP (M(buildKey rule r clientIP \<mapsto> b'))
        else ((False, rl_ID rule, Some rule), M(buildKey rule r clientIP \<mapsto> b')))"
proof -
  define b where "b = (case M (buildKey rule r clientIP) of Some b \<Rightarrow> b
    | None \<Rightarrow> NewRateLimiter lib (rl_Rate rule) (rl_Burst rule))"
  show ?thesis
    by (rule that [of "fst (lim_Allow lib now b)" "snd (lim_Allow lib now b)"])
      (simp add: assms Let_def b_def [symmetric] split_beta)
qed

lemma spec_allow_other_keys:
  "spec_allow lib now rules r clientIP M = (res, M') \<Longrightarrow>
   \<forall>rule \<in> set rules. rule_in_scope rule r \<longrightarrow> buildKey rule r clientIP \<noteq> k \<Longrightarrow> M' k = M k"
proof (induction rules arbitrary: M)
  case (Cons rule rules)
  show ?case
  proof (cases "rule_in_scope rule r")
    case True
    obtain ok b' where "spec_allow lib now (rule # rules) r clientIP M =
       (if ok then spec_allow lib now rules r clientIP (M(buildKey rule r clientIP \<mapsto> b'))
        else ((False, rl_ID rule, Some rule), M(buildKey rule r clientIP \<mapsto> b')))"
      by (rule spec_allow_Cons [OF True])
    then have c: "(if ok then spec_allow lib now rules r clientIP (M(buildKey rule r clientIP \<mapsto> b'))
        else ((False, rl_ID rule, Some rule), M(buildKey rule r clientIP \<mapsto> b'))) = (res, M')"
      using Cons.prems(1) by (simp only:)
    have ne: "buildKey rule r clientIP \<noteq> k" using Cons.prems(2) True by simp
    show ?thesis
    proof (cases ok)
      case ok: True
      have "M' k = (M(buildKey rule r clientIP \<mapsto> b')) k"
        using c ok Cons.prems(2) by (intro Cons.IH) (simp_all only: if_True, simp)
      then show ?thesis using ne by simp
    next
      case False
      then show ?thesis using c ne by auto
    qed
  qed (use Cons in simp)
qed simp

lemma spec_allow_denies:
  "spec_allow lib now rules r clientIP M = ((ok, ident, rule), M') \<Longrightarrow>
   (case rule of None \<Rightarrow> ok | Some q \<Rightarrow> \<not> ok \<and> q \<in> set rules \<and> rule_in_scope q r \<and> rl_ID q = ident)"
proof (induction rules arbitrary: M)
  case (Cons q rules)
  show ?case
  proof (cases "rule_in_scope q r")
    case True
    obtain ok' b' where "spec_allow lib now (q # rules) r clientIP M =
       (if ok' then spec_allow lib now rules r clientIP (M(buildKey q r clientIP \<mapsto> b'))
        else ((False, rl_ID q, Some q), M(buildKey q r clientIP \<mapsto> b')))"
      by (rule spec_allow_Cons [OF True])
    then have c: "(if ok' then spec_allow lib now rules r clientIP (M(buildKey q r clientIP \<mapsto> b'))
        else ((False, rl_ID q, Some q), M(buildKey q r clientIP \<mapsto> b'))) = ((ok, ident, rule), M')"
      using Cons.prems by (simp only:)
    show ?thesis
    proof (cases ok')
      case ok: True
      then have "spec_allow lib now rules r clientIP (M(buildKey q r clientIP \<mapsto> b')) = ((ok, ident, rule), M')"
        using c by (simp only: if_True)
      from Cons.IH [OF this] show ?thesis by (cases rule) simp_all
    next
      case False
      then show ?thesis using c True by auto
    qed
  next
    case False
    then have "spec_allow lib now rules r clientIP M = ((ok, ident, rule), M')" using Cons.prems by simp
    from Cons.IH [OF this] show ?thesis by (cases rule) simp_all
  qed
qed simp

lemma cleanup_lookup:
  assumes "distinct_keys (lm_limiters l)"
  shows "map_of (lm_limiters (cleanup_tick now l)) k =
    (case map_of (lm_limiters l) k of
       Some e \<Rightarrow> if le_lastSeen e < now - lm_cleanupInterval l then None else Some e
     | None \<Rightarrow> None)"
proof -
  have "map_of (filter (\<lambda>(key, e). P e) xs) k = (case map_of xs k of Some e \<Rightarrow> if P e then Some e else None | None \<Rightarrow> None)"
    if "distinct_keys xs" for P and xs :: "(string \<times> limiter_entry) list"
    using that by (induction xs) (auto simp: map_of_eq_None_iff split: option.splits)
  from this [OF assms, of "\<lambda>e. \<not> le_lastSeen e < now - lm_cleanupInterval l"] show ?thesis
    by (auto simp: cleanup_tick_def Let_def split: option.splits)
qed

lemma lm_inv_cleanup:
  assumes "lm_inv l"
  shows "lm_inv (cleanup_tick now l)"
proof -
  have dist: "distinct_keys (lm_limiters l)" using assms by (simp add: lm_inv_def)
  have sub: "map_of (lm_limiters (cleanup_tick now l)) k = Some e \<Longrightarrow> map_of (lm_limiters l) k = Some e" for k e
    unfolding cleanup_lookup [OF dist] by (auto split: option.splits if_splits)
  have "distinct_keys (lm_limiters (cleanup_tick now l))"
    using dist by (simp add: cleanup_tick_def Let_def distinct_map_filter)
  moreover have "lm_store (cleanup_tick now l) = lm_store l" by (simp add: cleanup_tick_def Let_def)
  ultimately show ?thesis
    using assms sub unfolding lm_inv_def by metis
qed

section \<open>Properties\<close>

text \<open>C11: the limiter with its shared objects behaves as a map from keys to buckets: a
  request that is not exempt asks, in rule order, the bucket of each rule in scope, created
  full when it is missing, until one refuses. The invariant is kept.\<close>

theorem Allow_refines_buckets:
  assumes "lm_inv l" "Allow lib now r l = (res, evs, l')"
    and "\<not> isExempt (lm_exemptions l) (extractClientIP (r_RemoteAddr r)) (u_Path (r_URL r))"
  shows "lm_inv l' \<and> spec_allow lib now (lm_rules l) r (extractClientIP (r_RemoteAddr r)) (bucket_of l) = (res, bucket_of l')"
  using assms allow_rules_refines [OF assms(1)] by (simp add: Allow_def Let_def)

definition sample_limit :: "rate_limit_config" where
  "sample_limit = \<lparr>rl_Rules = [\<lparr>rl_ID = ''login'', rl_Key = ''ip'', rl_PathPrefix = ''/login'', rl_Rate = 1, rl_Burst = 1,
     rl_Enabled = True\<rparr>], rl_Exemptions = \<lparr>ex_CIDRs = [], ex_Paths = []\<rparr>\<rparr>"

text \<open>A bucket that never refills, for the concrete instance.\<close>

definition count_lib :: "int rate_lib" where
  "count_lib = \<lparr>NewRateLimiter = (\<lambda>rate burst. burst), lim_Allow = (\<lambda>now n. (0 < n, max 0 (n - 1)))\<rparr>"

definition sample_limiter :: "int limiter" where
  "sample_limiter = NewLimiter (Some sample_limit) False"

lemma sample_limiter_facts:
  "lm_inv sample_limiter" "bucket_of sample_limiter = Map.empty" "lm_rules sample_limiter = rl_Rules sample_limit"
  "\<not> isExempt (lm_exemptions sample_limiter) ip path"
proof -
  show "lm_inv sample_limiter" by (simp add: sample_limiter_def lm_inv_new)
qed (simp_all add: sample_limiter_def bucket_of_def NewLimiter_def sample_limit_def isExempt_def fun_eq_iff
      split: option.split)

lemma sample_scope:
  "rule_in_scope (hd (rl_Rules sample_limit)) (sample_request ''/login'' query)"
  "buildKey (hd (rl_Rules sample_limit)) r ip = ''rl:login:ip:'' @ ip"
  by (simp_all add: rule_in_scope_def sample_limit_def HasPrefix_def buildKey_def)

lemma sample_spec:
  "spec_allow count_lib now (rl_Rules sample_limit) (sample_request ''/login'' query) ip M =
     (let key = ''rl:login:ip:'' @ ip; n = (case M key of Some n \<Rightarrow> n | None \<Rightarrow> 1); M' = M(key \<mapsto> max 0 (n - 1))
      in if 0 < n then ((True, '''', None), M') else ((False, ''login'', Some (hd (rl_Rules sample_limit))), M'))"
  by (cases "M (''rl:login:ip:'' @ ip)")
    (simp_all add: sample_limit_def rule_in_scope_def HasPrefix_def buildKey_def count_lib_def Let_def)

text \<open>The second request of a client in the same moment is denied.\<close>

theorem Allow_refines_buckets_witness:
  "fst (Allow count_lib 1 (sample_request ''/login'' '''')
      (snd (snd (Allow count_lib 0 (sample_request ''/login'' '''') sample_limiter))))
   = (False, ''login'', Some (hd (rl_Rules sample_limit)))"
proof -
  let ?r = "sample_request ''/login'' ''''"
  let ?ip = "extractClientIP (r_RemoteAddr ?r)"
  obtain res evs l1 where a1: "Allow count_lib 0 ?r sample_limiter = (res, evs, l1)" by (metis prod_cases3)
  have s1: "lm_inv l1" "bucket_of l1 = Map.empty (''rl:login:ip:'' @ ?ip \<mapsto> 0)"
    using Allow_refines_buckets [OF sample_limiter_facts(1) a1 sample_limiter_facts(4)]
    by (simp_all add: sample_limiter_facts sample_spec)
  have fixed: "lm_rules l1 = rl_Rules sample_limit \<and> lm_exemptions l1 = lm_exemptions sample_limiter"
    using a1 sample_limiter_facts(3,4)
    by (auto simp: Allow_def Let_def sample_limit_def getLimiter_def call_Allow_def split: prod.splits option.splits if_splits)
  obtain res2 evs2 l2 where a2: "Allow count_lib 1 ?r l1 = (res2, evs2, l2)" by (metis prod_cases3)
  have "\<not> isExempt (lm_exemptions l1) ?ip (u_Path (r_URL ?r))" using fixed sample_limiter_facts(4) by simp
  from Allow_refines_buckets [OF s1(1) a2 this] show ?thesis
    using a1 a2 fixed by (simp add: s1(2) sample_spec)
qed

text \<open>A request touches only the buckets of its own keys, and a denial names an enabled
  rule whose path prefix covers the request. So no client can use up another client's bucket.\<close>

theorem Allow_isolated:
  assumes "lm_inv l" "Allow lib now r l = ((ok, ident, rule), evs, l')"
    and "\<forall>q \<in> set (lm_rules l). rule_in_scope q r \<longrightarrow> buildKey q r (extractClientIP (r_RemoteAddr r)) \<noteq> k"
  shows "bucket_of l' k = bucket_of l k
    \<and> (case rule of None \<Rightarrow> ok | Some q \<Rightarrow> \<not> ok \<and> q \<in> set (lm_rules l) \<and> rule_in_scope q r \<and> rl_ID q = ident)"
proof (cases "isExempt (lm_exemptions l) (extractClientIP (r_RemoteAddr r)) (u_Path (r_URL r))")
  case True
  then show ?thesis using assms(2) by (auto simp: Allow_def Let_def)
next
  case False
  then have "allow_rules lib now (lm_rules l) r (extractClientIP (r_RemoteAddr r)) l = ((ok, ident, rule), evs, l')"
    using assms(2) by (simp add: Allow_def Let_def)
  from allow_rules_refines [OF assms(1) this]
  have "spec_allow lib now (lm_rules l) r (extractClientIP (r_RemoteAddr r)) (bucket_of l) = ((ok, ident, rule), bucket_of l')"
    by blast
  from spec_allow_other_keys [OF this assms(3)] spec_allow_denies [OF this] show ?thesis by blast
qed

theorem Allow_isolated_witness:
  "bucket_of (snd (snd (Allow count_lib 0 (sample_request ''/login'' '''') sample_limiter))) ''rl:login:ip:10.0.0.8'' = None"
proof -
  let ?r = "sample_request ''/login'' ''''"
  obtain ok ident rule evs l' where a: "Allow count_lib 0 ?r sample_limiter = ((ok, ident, rule), evs, l')"
    by (metis prod_cases3)
  have "extractClientIP (r_RemoteAddr ?r) = ''10.0.0.7''" unfolding sample_request_def by code_simp
  then have "\<forall>q \<in> set (lm_rules sample_limiter). rule_in_scope q ?r \<longrightarrow>
      buildKey q ?r (extractClientIP (r_RemoteAddr ?r)) \<noteq> ''rl:login:ip:10.0.0.8''"
    by (simp add: sample_limiter_facts(3) sample_limit_def buildKey_def)
  from Allow_isolated [OF sample_limiter_facts(1) a this] show ?thesis
    by (simp add: a sample_limiter_facts(2))
qed

text \<open>Under one rule two requests share a bucket exactly when they come from the same
  client address or, for a rule keyed by API key, when they present the same API key, no key
  counting as the key anonymous. The address plays no part then: a client that makes up a new key for
  every request gets a new bucket every time.\<close>

theorem buildKey_same_iff:
  "buildKey rule r ip = buildKey rule r' ip' \<longleftrightarrow>
     (if rl_Key rule = ''api_key''
      then header_Get (r_Header r) ''X-API-Key'' = header_Get (r_Header r') ''X-API-Key''
        \<or> {header_Get (r_Header r) ''X-API-Key'', header_Get (r_Header r') ''X-API-Key''} \<subseteq> {'''', ''anonymous''}
      else ip = ip')"
  by (auto simp: buildKey_def Let_def)

text \<open>The cleanup forgets exactly the buckets not asked for longer than its interval,
  whatever they hold; the others keep their state, and the invariant holds.\<close>

theorem cleanup_drops_idle:
  assumes "lm_inv l"
  shows "lm_inv (cleanup_tick now l)
    \<and> bucket_of (cleanup_tick now l) k =
        (case map_of (lm_limiters l) k of
           Some e \<Rightarrow> if le_lastSeen e < now - lm_cleanupInterval l then None else bucket_of l k
         | None \<Rightarrow> None)"
proof -
  have "distinct_keys (lm_limiters l)" using assms by (simp add: lm_inv_def)
  moreover have "lm_store (cleanup_tick now l) = lm_store l" by (simp add: cleanup_tick_def Let_def)
  ultimately show ?thesis
    using lm_inv_cleanup [OF assms] by (auto simp: bucket_of_def cleanup_lookup split: option.split)
qed

theorem cleanup_drops_idle_witness:
  "bucket_of (cleanup_tick (6 * Minute) (sample_limiter\<lparr>lm_limiters := [(''k'', \<lparr>le_limiter = 0, le_lastSeen = 0\<rparr>)], lm_store := [7]\<rparr>)) ''k'' = None"
proof -
  let ?l = "sample_limiter\<lparr>lm_limiters := [(''k'', \<lparr>le_limiter = 0, le_lastSeen = 0\<rparr>)], lm_store := [7]\<rparr>"
  have "lm_inv ?l" by (simp add: lm_inv_def)
  from cleanup_drops_idle [OF this, of "6 * Minute" "''k''"] show ?thesis
    by (simp add: sample_limiter_def NewLimiter_def Minute_def Second_def Millisecond_def)
qed

end
