(* ===== verification/Security.thy ===== *)
theory Security
  imports RateLimit
begin

text \<open>
  \<open>proxy/internal/security/headers.go\<close>: the forwarding headers set on a request before it
  goes to the origin.
\<close>

text \<open>The \<open>extractIP\<close> of this package.\<close>

definition header_extractIP :: "string \<Rightarrow> string" where
  "header_extractIP remoteAddr =
     (case SplitHostPort remoteAddr of None \<Rightarrow> remoteAddr | Some (host, port) \<Rightarrow> host)"

definition SetForwardedHeaders :: "bool \<Rightarrow> request \<Rightarrow> request" where
  "SetForwardedHeaders trustXFF r =
     (let clientIP = header_extractIP (r_RemoteAddr r);
          h = r_Header r;
          h = (if \<not> trustXFF then header_Set ''X-Forwarded-For'' clientIP h
               else
                 let existing = header_Get h ''X-Forwarded-For''
                 in if existing \<noteq> '''' then header_Set ''X-Forwarded-For'' (existing @ '', '' @ clientIP) h
                    else header_Set ''X-Forwarded-For'' clientIP h);
          h = (if r_TLS r then header_Set ''X-Forwarded-Proto'' ''https'' h
               else header_Set ''X-Forwarded-Proto'' ''http'' h)
      in r\<lparr>r_Header := h\<rparr>)"

lemma xff_keys:
  "CanonicalHeaderKey ''X-Forwarded-For'' = ''X-Forwarded-For''"
  "CanonicalHeaderKey ''X-Forwarded-Proto'' = ''X-Forwarded-Proto''"
  by code_simp+

lemma SetForwardedHeaders_Get:
  "header_Get (r_Header (SetForwardedHeaders trust r)) k =
     (if CanonicalHeaderKey k = ''X-Forwarded-Proto'' then (if r_TLS r then ''https'' else ''http'')
      else if CanonicalHeaderKey k = ''X-Forwarded-For''
      then (if trust \<and> header_Get (r_Header r) ''X-Forwarded-For'' \<noteq> ''''
            then header_Get (r_Header r) ''X-Forwarded-For'' @ '', '' else '''') @ header_extractIP (r_RemoteAddr r)
      else header_Get (r_Header r) k)"
  by (auto simp: SetForwardedHeaders_def Let_def header_Get_Set xff_keys)

lemma SetForwardedHeaders_frame [frame]:
  "r_Method (SetForwardedHeaders trust r) = r_Method r" "r_URL (SetForwardedHeaders trust r) = r_URL r"
  "r_Host (SetForwardedHeaders trust r) = r_Host r" "r_Body (SetForwardedHeaders trust r) = r_Body r"
  "r_RemoteAddr (SetForwardedHeaders trust r) = r_RemoteAddr r" "r_RequestID (SetForwardedHeaders trust r) = r_RequestID r"
  by (simp_all add: SetForwardedHeaders_def Let_def)

end
