(* ===== verification/Middleware.thy ===== *)
theory Middleware
  imports Security
begin

text \<open>
  \<open>proxy/internal/middleware\<close>: request ids, the access log with its status-recording
  writer, and panic recovery. A handler gets a writer, a request and the state of the
  program, and returns, panics or hangs; its log lines and metrics are events. Clock
  readings in the log lines are left out. The metrics library panics on label values it does
  not accept; its check is the argument \<open>label_ok\<close> of the access log. The id of a request comes from
  \<open>github.com/google/uuid\<close> and is an argument.
\<close>

section \<open>Events and outcomes\<close>

datatype event =
    is_AccessEvent: AccessEvent (ev_id: string) (ev_method: string) (ev_path: string) (ev_query: string)
      (ev_status: int) (ev_client: string) (ev_agent: string) (ev_cache: string)
  | RequestsTotalInc string int string
  | RequestDurationObserve string string
  | PanicEvent string
  | WafEvent waf_event
  | RateLimitEvent rl_event
  | CacheOperationsInc string
  | CacheGauges int int
  | UpstreamErrorsInc string string
  | UpstreamDurationObserve string

datatype ('w, 's) outcome = Returned 'w request 's | Panicked 'w request 's | Hangs

type_synonym ('w, 's) handler = "'w \<Rightarrow> request \<Rightarrow> 's \<Rightarrow> ('w, 's) outcome"

definition GetRequestID :: "request \<Rightarrow> string" where
  "GetRequestID r = (case r_RequestID r of None \<Rightarrow> ''unknown'' | Some ident \<Rightarrow> ident)"

definition RequestID :: "'w ResponseWriter \<Rightarrow> string \<Rightarrow> ('w, 's) handler \<Rightarrow> ('w, 's) handler" where
  "RequestID W ident nxt w r s =
     nxt (wo_Set W ''X-Request-ID'' ident w) (r\<lparr>r_RequestID := Some ident\<rparr>) s"

text \<open>Lifting a call on the writer into an outcome.\<close>

fun finish :: "'w call \<Rightarrow> request \<Rightarrow> 's \<Rightarrow> ('w, 's) outcome" where
  "finish (Returns w) r s = Returned w r s"
| "finish (Panics w) r s = Panicked w r s"

definition Recovery :: "'w ResponseWriter \<Rightarrow> (event \<Rightarrow> 's \<Rightarrow> 's) \<Rightarrow> ('w, 's) handler \<Rightarrow> ('w, 's) handler" where
  "Recovery W emit nxt w r s =
     (case nxt w r s of
        Returned w r s \<Rightarrow> Returned w r s
      | Hangs \<Rightarrow> Hangs
      | Panicked w r' s \<Rightarrow>
          finish (http_Error W ''{\"error\":\"internal server error\"}'' 500 w) r'
            (emit (PanicEvent (GetRequestID r)) s))"

section \<open>The recording writer\<close>

record 'w statusWriter =
  sw_ResponseWriter :: 'w
  sw_status :: int
  sw_written :: bool

definition sw_lift :: "'w call \<Rightarrow> 'w statusWriter \<Rightarrow> 'w statusWriter call" where
  "sw_lift c sw =
     (case c of Returns w \<Rightarrow> Returns (sw\<lparr>sw_ResponseWriter := w\<rparr>)
              | Panics w \<Rightarrow> Panics (sw\<lparr>sw_ResponseWriter := w\<rparr>))"

definition sw_WriteHeader :: "'w ResponseWriter \<Rightarrow> int \<Rightarrow> 'w statusWriter \<Rightarrow> 'w statusWriter call" where
  "sw_WriteHeader W code sw =
     (let sw = (if \<not> sw_written sw then sw\<lparr>sw_status := code, sw_written := True\<rparr> else sw)
      in sw_lift (wo_WriteHeader W code (sw_ResponseWriter sw)) sw)"

definition sw_Write :: "'w ResponseWriter \<Rightarrow> string \<Rightarrow> 'w statusWriter \<Rightarrow> 'w statusWriter" where
  "sw_Write W b sw =
     (let sw = (if \<not> sw_written sw then sw\<lparr>sw_status := 200, sw_written := True\<rparr> else sw)
      in sw\<lparr>sw_ResponseWriter := wo_Write W b (sw_ResponseWriter sw)\<rparr>)"

definition status_Writer :: "'w ResponseWriter \<Rightarrow> 'w statusWriter ResponseWriter" where
  "status_Writer W =
     \<lparr>wo_Header = (\<lambda>sw. wo_Header W (sw_ResponseWriter sw)),
      wo_Set = (\<lambda>k v sw. sw\<lparr>sw_ResponseWriter := wo_Set W k v (sw_ResponseWriter sw)\<rparr>),
      wo_Add = (\<lambda>k v sw. sw\<lparr>sw_ResponseWriter := wo_Add W k v (sw_ResponseWriter sw)\<rparr>),
      wo_WriteHeader = sw_WriteHeader W, wo_Write = sw_Write W\<rparr>"

definition new_statusWriter :: "'w \<Rightarrow> 'w statusWriter" where
  "new_statusWriter w = \<lparr>sw_ResponseWriter = w, sw_status = 200, sw_written = False\<rparr>"

text \<open>A panic passes through without a log line. The metrics are updated outside the
  recovery, so a refused label panics out of the chain.\<close>

definition AccessLog ::
  "'w ResponseWriter \<Rightarrow> (string list \<Rightarrow> bool) \<Rightarrow> (event \<Rightarrow> 's \<Rightarrow> 's) \<Rightarrow> ('w statusWriter, 's) handler \<Rightarrow> ('w, 's) handler" where
  "AccessLog W label_ok emit nxt w r s =
     (case nxt (new_statusWriter w) r s of
        Hangs \<Rightarrow> Hangs
      | Panicked sw r s \<Rightarrow> Panicked (sw_ResponseWriter sw) r s
      | Returned sw r s \<Rightarrow>
          let w = sw_ResponseWriter sw;
              route = u_Path (r_URL r);
              s = emit (AccessEvent (GetRequestID r) (r_Method r) route (u_RawQuery (r_URL r)) (sw_status sw)
                          (r_RemoteAddr r) (UserAgent r) (header_Get (wo_Header W w) ''X-Edge-Cache'')) s
          in if \<not> label_ok [r_Method r, show_int (sw_status sw), route] then Panicked w r s
             else
               let s = emit (RequestsTotalInc (r_Method r) (sw_status sw) route) s
               in if \<not> label_ok [r_Method r, route] then Panicked w r s
                  else Returned w r (emit (RequestDurationObserve (r_Method r) route) s))"

text \<open>The recording writer over the server's writer keeps the contract.\<close>

interpretation logged_writer: response_writer "status_Writer server_Writer"
  "\<lambda>sw. rw_Status (sw_ResponseWriter sw)" "\<lambda>sw. rw_Body (sw_ResponseWriter sw)"
proof (unfold_locales, goal_cases)
  case (5 code sw sw')
  then show ?case using server_writer.header_no_body [of code "sw_ResponseWriter sw"]
    by (auto simp: status_Writer_def sw_WriteHeader_def sw_lift_def Let_def split: call.splits if_splits)
next
  case (6 code sw sw' s)
  then show ?case using server_writer.status_kept [of code "sw_ResponseWriter sw"]
    by (auto simp: status_Writer_def sw_WriteHeader_def sw_lift_def Let_def split: call.splits if_splits)
next
  case (7 code sw sw')
  then show ?case using server_writer.panic_no_status [of code "sw_ResponseWriter sw"]
    by (auto simp: status_Writer_def sw_WriteHeader_def sw_lift_def Let_def split: call.splits if_splits)
next
  case (8 code sw)
  then show ?case using server_writer.valid_code [of code "sw_ResponseWriter sw"]
    by (auto simp: status_Writer_def sw_WriteHeader_def sw_lift_def Let_def)
next
  case (9 b sw)
  then show ?case using server_writer.write_status [of b "sw_ResponseWriter sw"]
    by (simp add: status_Writer_def sw_Write_def Let_def)
next
  case (10 b sw)
  then show ?case using server_writer.write_body [of b "sw_ResponseWriter sw"]
    by (simp add: status_Writer_def sw_Write_def Let_def)
qed (simp_all add: status_Writer_def)

section \<open>What the access log records\<close>

text \<open>The states of the recording writer that a handler can reach from a fresh writer with
  final status codes.\<close>

inductive sw_reachable :: "response statusWriter \<Rightarrow> bool" where
  sw_new: "rw_Status w = None \<Longrightarrow> sw_reachable (new_statusWriter w)"
| sw_set: "sw_reachable sw \<Longrightarrow> sw_reachable (wo_Set (status_Writer server_Writer) k v sw)"
| sw_add: "sw_reachable sw \<Longrightarrow> sw_reachable (wo_Add (status_Writer server_Writer) k v sw)"
| sw_write: "sw_reachable sw \<Longrightarrow> sw_reachable (wo_Write (status_Writer server_Writer) b sw)"
| sw_header: "sw_reachable sw \<Longrightarrow> 200 \<le> code \<Longrightarrow>
    wo_WriteHeader (status_Writer server_Writer) code sw = Returns sw' \<Longrightarrow> sw_reachable sw'"

definition recorded_right :: "response statusWriter \<Rightarrow> bool" where
  "recorded_right sw \<longleftrightarrow>
     rw_Status (sw_ResponseWriter sw) = (if sw_written sw then Some (sw_status sw) else None)
     \<and> (sw_written sw \<or> sw_status sw = 200)"

lemma sw_reachable_recorded: "sw_reachable sw \<Longrightarrow> recorded_right sw"
proof (induction rule: sw_reachable.induct)
  case (sw_write sw b)
  then show ?case
    using server_writer.write_status [of b "sw_ResponseWriter sw"]
    by (auto simp: recorded_right_def status_Writer_def sw_Write_def Let_def split: if_splits)
next
  case (sw_header sw code sw')
  then show ?case
    by (auto simp: recorded_right_def status_Writer_def sw_WriteHeader_def sw_lift_def Let_def WriteHeader_def
        split: call.splits if_splits)
qed (auto simp: recorded_right_def new_statusWriter_def status_Writer_def)

text \<open>C31: as long as a handler only sends final status codes, the status in the access log and
  the metrics is the one the client got, or 200 when nothing was written.\<close>

theorem logged_status_is_sent:
  assumes "sw_reachable sw"
  shows "(case rw_Status (sw_ResponseWriter sw) of None \<Rightarrow> 200 | Some code \<Rightarrow> code) = sw_status sw"
  using sw_reachable_recorded [OF assms] by (auto simp: recorded_right_def)

theorem logged_status_is_sent_witness:
  "sw_status (wo_Write (status_Writer server_Writer) ''ok'' (new_statusWriter (new_response False))) = 200
   \<and> rw_Status (sw_ResponseWriter (wo_Write (status_Writer server_Writer) ''ok'' (new_statusWriter (new_response False)))) = Some 200"
proof -
  have "sw_reachable (wo_Write (status_Writer server_Writer) ''ok'' (new_statusWriter (new_response False)))"
    by (intro sw_reachable.intros) (simp add: new_response_def)
  from logged_status_is_sent [OF this] show ?thesis
    by (simp add: status_Writer_def sw_Write_def new_statusWriter_def new_response_def Write_def bodyAllowedForStatus_def)
qed

text \<open>An interim response spoils the record: after an early hint (103), which the reverse
  proxy forwards, and a final 200, the access log says 103.\<close>

theorem interim_status_is_logged:
  assumes "rw_Status w = None"
  shows "\<exists>sw. and_then (wo_WriteHeader (status_Writer server_Writer) 103 (new_statusWriter w))
        (wo_WriteHeader (status_Writer server_Writer) 200) = Returns sw
    \<and> sw_status sw = 103 \<and> rw_Status (sw_ResponseWriter sw) = Some 200"
  using assms by (simp add: status_Writer_def sw_WriteHeader_def sw_lift_def new_statusWriter_def WriteHeader_def)

theorem interim_status_is_logged_witness:
  "\<exists>sw. and_then (wo_WriteHeader (status_Writer server_Writer) 103 (new_statusWriter (new_response False)))
        (wo_WriteHeader (status_Writer server_Writer) 200) = Returns sw \<and> sw_status sw = 103"
  using interim_status_is_logged [of "new_response False"] by (auto simp: new_response_def)

end
