(* ===== verification/JsonDecode.thy ===== *)
theory JsonDecode
  imports GoJson Http
begin

text \<open>
  What the admin API uses of \<open>encoding/json\<close> for reading: \<open>json.NewDecoder(body).Decode\<close>
  into a struct whose fields are strings. The scanner reads one value and ignores what
  follows it; then the members of the object are assigned. \<open>None\<close> is any error. Nesting
  beyond 10000 levels is an error (\<open>maxNestingDepth\<close>). The readers take fuel; twice the length
  of the input is enough (\<open>read_value_fuel\<close>).
\<close>

section \<open>Values\<close>

datatype json_value =
    VNull
  | VBool bool
  | VNum string
  | VStr string
  | VArr "json_value list"
  | VObj "(string \<times> json_value) list"

definition json_space :: "char \<Rightarrow> bool" where
  "json_space c \<longleftrightarrow> c \<in> {CHR '' '', CHR 0x09, CHR 0x0A, CHR 0x0D}"

abbreviation skip_ws :: "string \<Rightarrow> string" where
  "skip_ws \<equiv> dropWhile json_space"

subsection \<open>Strings\<close>

definition simple_escape :: "char \<Rightarrow> bool" where
  "simple_escape e \<longleftrightarrow> e \<in> set ''bfnrt/'' \<or> e = CHR 0x5C \<or> e = CHR 0x22"

text \<open>The raw text of a string literal, from behind the opening quote, and what follows the
  closing one.\<close>

fun scan_string :: "string \<Rightarrow> (string \<times> string) option" where
  "scan_string [] = None"
| "scan_string (c # s) =
     (if c = CHR 0x22 then Some ([], s)
      else if ord c < 32 then None
      else if c \<noteq> CHR 0x5C then map_option (\<lambda>(r, t). (c # r, t)) (scan_string s)
      else (case s of
              [] \<Rightarrow> None
            | e # s1 \<Rightarrow>
                if simple_escape e
                then map_option (\<lambda>(r, t). (c # e # r, t)) (scan_string s1)
                else if e = CHR ''u''
                then (case s1 of
                        h1 # h2 # h3 # h4 # s2 \<Rightarrow>
                          if list_all ishex [h1, h2, h3, h4]
                          then map_option (\<lambda>(r, t). (c # e # h1 # h2 # h3 # h4 # r, t)) (scan_string s2)
                          else None
                      | _ \<Rightarrow> None)
                else None))"

definition hex4 :: "char \<Rightarrow> char \<Rightarrow> char \<Rightarrow> char \<Rightarrow> nat" where
  "hex4 a b c d = ((unhex a * 16 + unhex b) * 16 + unhex c) * 16 + unhex d"

text \<open>\<open>getu4\<close>: the code point of an escape at the beginning of the text.\<close>

definition getu4 :: "string \<Rightarrow> nat option" where
  "getu4 s =
     (case s of
        b # u # h1 # h2 # h3 # h4 # _ \<Rightarrow>
          if b = CHR 0x5C \<and> u = CHR ''u'' \<and> list_all ishex [h1, h2, h3, h4] then Some (hex4 h1 h2 h3 h4) else None
      | _ \<Rightarrow> None)"

text \<open>\<open>utf16.DecodeRune\<close> of two code units; \<open>None\<close> stands for U+FFFD.\<close>

definition DecodeRune16 :: "nat \<Rightarrow> nat option \<Rightarrow> nat option" where
  "DecodeRune16 r1 r2 =
     (case r2 of
        None \<Rightarrow> None
      | Some r2 \<Rightarrow>
          if 0xD800 \<le> r1 \<and> r1 < 0xDC00 \<and> 0xDC00 \<le> r2 \<and> r2 < 0xE000
          then Some ((r1 - 0xD800) * 1024 + (r2 - 0xDC00) + 0x10000) else None)"

definition escape_value :: "char \<Rightarrow> char" where
  "escape_value e =
     (if e = CHR ''b'' then CHR 0x08 else if e = CHR ''f'' then CHR 0x0C
      else if e = CHR ''n'' then CHR 0x0A else if e = CHR ''r'' then CHR 0x0D
      else if e = CHR ''t'' then CHR 0x09 else e)"

text \<open>\<open>unquoteBytes\<close> on the raw text of a literal. Any other escape, on which it would fail, has
  been refused by the scanner.\<close>

function unquote :: "string \<Rightarrow> string" where
  "unquote [] = []"
| "unquote (c # s) =
     (if c = CHR 0x5C
      then (case getu4 (c # s) of
              Some r \<Rightarrow>
                if surrogate r
                then (case DecodeRune16 r (getu4 (drop 5 s)) of
                        Some q \<Rightarrow> EncodeRune q @ unquote (drop 11 s)
                      | None \<Rightarrow> replacement @ unquote (drop 5 s))
                else EncodeRune r @ unquote (drop 5 s)
            | None \<Rightarrow>
                (case s of
                   [] \<Rightarrow> []
                 | e # s1 \<Rightarrow> if simple_escape e then escape_value e # unquote s1 else []))
      else if ord c < 128 then c # unquote s
      else
        let n = rune_size (c # s)
        in if n = 0 then replacement @ unquote s
           else take n (c # s) @ unquote (drop (n - 1) s))"
  by pat_completeness auto
termination by (relation "measure length") (auto simp: le_imp_less_Suc)

declare scan_string.simps [simp del] unquote.simps [simp del]

subsection \<open>Numbers\<close>

definition scan_int :: "string \<Rightarrow> string option" where
  "scan_int s =
     (case s of
        [] \<Rightarrow> None
      | c # t \<Rightarrow> if c = CHR ''0'' then Some t else if is_digit c then Some (dropWhile is_digit t) else None)"

definition scan_digits :: "string \<Rightarrow> string option" where
  "scan_digits s = (case s of [] \<Rightarrow> None | c # t \<Rightarrow> if is_digit c then Some (dropWhile is_digit t) else None)"

definition scan_frac :: "string \<Rightarrow> string option" where
  "scan_frac s = (case s of [] \<Rightarrow> Some [] | c # t \<Rightarrow> if c = CHR ''.'' then scan_digits t else Some s)"

definition scan_exp :: "string \<Rightarrow> string option" where
  "scan_exp s =
     (case s of
        [] \<Rightarrow> Some []
      | c # t \<Rightarrow>
          if c = CHR ''e'' \<or> c = CHR ''E''
          then scan_digits (if t \<noteq> [] \<and> (hd t = CHR ''+'' \<or> hd t = CHR ''-'') then tl t else t)
          else Some s)"

definition scan_number :: "string \<Rightarrow> string option" where
  "scan_number s =
     Option.bind (scan_int (if HasPrefix s ''-'' then tl s else s)) (\<lambda>t. Option.bind (scan_frac t) scan_exp)"

subsection \<open>Values and objects\<close>

definition read_literal :: "string \<Rightarrow> (json_value \<times> string) option" where
  "read_literal s =
     (if HasPrefix s ''null'' then Some (VNull, drop 4 s)
      else if HasPrefix s ''true'' then Some (VBool True, drop 4 s)
      else if HasPrefix s ''false'' then Some (VBool False, drop 5 s)
      else map_option (\<lambda>t. (VNum (take (length s - length t) s), t)) (scan_number s))"

text \<open>\<open>read_value n d s\<close> reads a value at the beginning of \<open>s\<close>, with fuel \<open>n\<close> and \<open>d\<close> more
  levels of nesting allowed. \<open>read_members\<close> starts at a key, \<open>read_elements\<close> at an element.\<close>

fun read_value :: "nat \<Rightarrow> nat \<Rightarrow> string \<Rightarrow> (json_value \<times> string) option"
  and read_members :: "nat \<Rightarrow> nat \<Rightarrow> string \<Rightarrow> ((string \<times> json_value) list \<times> string) option"
  and read_elements :: "nat \<Rightarrow> nat \<Rightarrow> string \<Rightarrow> (json_value list \<times> string) option"
where
  "read_value 0 d s = None"
| "read_value (Suc n) d s =
     (case s of
        [] \<Rightarrow> None
      | c # t \<Rightarrow>
          if c = CHR 0x22 then map_option (\<lambda>(r, u). (VStr (unquote r), u)) (scan_string t)
          else if c = CHR ''{'' then
            (if d = 0 then None
             else case skip_ws t of
                    [] \<Rightarrow> None
                  | e # u \<Rightarrow>
                      if e = CHR ''}'' then Some (VObj [], u)
                      else map_option (\<lambda>(ms, v). (VObj ms, v)) (read_members n (d - 1) (e # u)))
          else if c = CHR ''['' then
            (if d = 0 then None
             else case skip_ws t of
                    [] \<Rightarrow> None
                  | e # u \<Rightarrow>
                      if e = CHR '']'' then Some (VArr [], u)
                      else map_option (\<lambda>(vs, v). (VArr vs, v)) (read_elements n (d - 1) (e # u)))
          else read_literal (c # t))"
| "read_members 0 d s = None"
| "read_members (Suc n) d s =
     (case s of
        [] \<Rightarrow> None
      | c # t \<Rightarrow>
          if c \<noteq> CHR 0x22 then None
          else case scan_string t of
                 None \<Rightarrow> None
               | Some (k, t1) \<Rightarrow>
                   (case skip_ws t1 of
                      [] \<Rightarrow> None
                    | e # t2 \<Rightarrow>
                        if e \<noteq> CHR '':'' then None
                        else case read_value n d (skip_ws t2) of
                               None \<Rightarrow> None
                             | Some (v, t3) \<Rightarrow>
                                 (case skip_ws t3 of
                                    [] \<Rightarrow> None
                                  | f # t4 \<Rightarrow>
                                      if f = CHR ''}'' then Some ([(unquote k, v)], t4)
                                      else if f = CHR '','' then
                                        map_option (\<lambda>(ms, t5). ((unquote k, v) # ms, t5))
                                          (read_members n d (skip_ws t4))
                                      else None)))"
| "read_elements 0 d s = None"
| "read_elements (Suc n) d s =
     (case read_value n d s of
        None \<Rightarrow> None
      | Some (v, t) \<Rightarrow>
          (case skip_ws t of
             [] \<Rightarrow> None
           | f # t1 \<Rightarrow>
               if f = CHR '']'' then Some ([v], t1)
               else if f = CHR '','' then
                 map_option (\<lambda>(vs, t2). (v # vs, t2)) (read_elements n d (skip_ws t1))
               else None))"

declare read_value.simps [simp del] read_members.simps [simp del] read_elements.simps [simp del]

definition maxNestingDepth :: nat where "maxNestingDepth = 10000"

definition read_json :: "string \<Rightarrow> (json_value \<times> string) option" where
  "read_json s = (let s = skip_ws s in read_value (2 * length s + 1) maxNestingDepth s)"

section \<open>Decoding into a struct of strings\<close>

text \<open>\<open>foldName\<close>: names are compared by simple case folding. Two runes beyond ASCII fold to ASCII
  letters, the Kelvin sign and the long s.\<close>

function foldName :: "string \<Rightarrow> string" where
  "foldName [] = []"
| "foldName (c # s) =
     (if take 3 (c # s) = [CHR 0xE2, CHR 0x84, CHR 0xAA] then CHR ''K'' # foldName (drop 2 s)
      else if take 2 (c # s) = [CHR 0xC5, CHR 0xBF] then CHR ''S'' # foldName (drop 1 s)
      else ascii_upper c # foldName s)"
  by pat_completeness auto
termination by (relation "measure length") auto

text \<open>The field a key stands for: the one of that name or else the first one that folds alike.\<close>

definition field_of :: "string list \<Rightarrow> string \<Rightarrow> string option" where
  "field_of names k =
     (if k \<in> set names then Some k else find (\<lambda>f. foldName f = foldName k) names)"

text \<open>The members in order; a value that is not a string is a type error, \<open>null\<close> changes
  nothing, a member without a field is skipped.\<close>

fun set_fields :: "string list \<Rightarrow> (string \<times> json_value) list \<Rightarrow> (string \<Rightarrow> string) \<Rightarrow> (string \<Rightarrow> string) option" where
  "set_fields names [] st = Some st"
| "set_fields names ((k, v) # ms) st =
     (case field_of names k of
        None \<Rightarrow> set_fields names ms st
      | Some f \<Rightarrow>
          (case v of
             VStr s \<Rightarrow> set_fields names ms (st(f := s))
           | VNull \<Rightarrow> set_fields names ms st
           | _ \<Rightarrow> None))"

text \<open>\<open>json.NewDecoder(b).Decode\<close>: an object or \<open>null\<close>; a \<open>null\<close> at the very end of the input is
  only complete when the reader ends without an error.\<close>

definition json_Decode :: "string list \<Rightarrow> body_reader \<Rightarrow> string list option" where
  "json_Decode names b =
     (case read_json (br_data b) of
        Some (VObj ms, _) \<Rightarrow> map_option (\<lambda>st. map st names) (set_fields names ms (\<lambda>_. ''''))
      | Some (VNull, rest) \<Rightarrow>
          if rest = [] \<and> br_fails b then None else Some (map (\<lambda>_. '''') names)
      | _ \<Rightarrow> None)"

section \<open>Reading what was written\<close>

abbreviation (input) prepend :: "string \<Rightarrow> (string \<times> string) option \<Rightarrow> (string \<times> string) option" where
  "prepend r \<equiv> map_option (\<lambda>(a, t). (r @ a, t))"

lemma unhex_0: "ishex (CHR ''0'')" "unhex (CHR ''0'') = 0"
  by code_simp+

lemma hex_char:
  "ishex (lowerhex (ord c div 16))" "ishex (lowerhex (ord c mod 16))"
  "hex4 (CHR ''0'') (CHR ''0'') (lowerhex (ord c div 16)) (lowerhex (ord c mod 16)) = ord c"
proof -
  have "ord c div 16 < 16" "ord c mod 16 < 16" using ord_less_256 [of c] by linarith+
  then show "ishex (lowerhex (ord c div 16))" "ishex (lowerhex (ord c mod 16))"
    "hex4 (CHR ''0'') (CHR ''0'') (lowerhex (ord c div 16)) (lowerhex (ord c mod 16)) = ord c"
    using lowerhex_ok by (simp_all add: hex4_def unhex_0)
qed

text \<open>How each ASCII character is written.\<close>

lemma json_char_cases:
  obtains "json_char c = [c]" "c \<noteq> CHR 0x22" "c \<noteq> CHR 0x5C" "32 \<le> ord c"
  | e where "json_char c = [CHR 0x5C, e]" "simple_escape e" "escape_value e = c"
  | "json_char c = [CHR 0x5C, CHR ''u'', CHR ''0'', CHR ''0'', lowerhex (ord c div 16), lowerhex (ord c mod 16)]"
proof (cases "json_char c = [CHR 0x5C, CHR ''u'', CHR ''0'', CHR ''0'', lowerhex (ord c div 16), lowerhex (ord c mod 16)]")
  case False
  show ?thesis
  proof (cases "c \<in> {CHR 0x22, CHR 0x5C, CHR 0x08, CHR 0x0C, CHR 0x0A, CHR 0x0D, CHR 0x09}")
    case True
    then show ?thesis using that(2) by (auto simp: json_char_def escape_value_def simple_escape_def)
  next
    case c: False
    then have "json_char c = [c]" "\<not> ord c < 32" using False by (auto simp: json_char_def split: if_splits)
    then show ?thesis using that(1) c by auto
  qed
qed (use that in blast)

lemma scan_json_char: "scan_string (json_char c @ s) = prepend (json_char c) (scan_string s)"
  by (cases rule: json_char_cases [of c])
    (auto simp: scan_string.simps simple_escape_def hex_char unhex_0(1) option.map_comp comp_def split: prod.splits)

lemma unquote_plain: "c \<noteq> CHR 0x5C \<Longrightarrow> ord c < 128 \<Longrightarrow> unquote (c # s) = c # unquote s"
  by (subst unquote.simps(2)) simp

lemma unquote_escape:
  assumes "simple_escape e"
  shows "unquote (CHR 0x5C # e # s) = escape_value e # unquote s"
proof -
  have "getu4 (CHR 0x5C # e # s) = None"
    using assms by (auto simp: simple_escape_def getu4_def split: list.split)
  then show ?thesis using assms by (subst unquote.simps(2)) simp
qed

lemma unquote_u:
  assumes "list_all ishex [h1, h2, h3, h4]" "\<not> surrogate (hex4 h1 h2 h3 h4)"
  shows "unquote (CHR 0x5C # CHR ''u'' # h1 # h2 # h3 # h4 # s) = EncodeRune (hex4 h1 h2 h3 h4) @ unquote s"
proof -
  have "getu4 (CHR 0x5C # CHR ''u'' # h1 # h2 # h3 # h4 # s) = Some (hex4 h1 h2 h3 h4)"
    using assms(1) by (simp add: getu4_def)
  then show ?thesis using assms(2) by (subst unquote.simps(2)) simp
qed

lemma unquote_rune:
  assumes "rune_size (c # s) \<noteq> 0" "128 \<le> ord c"
  shows "unquote (c # s) = take (rune_size (c # s)) (c # s) @ unquote (drop (rune_size (c # s) - 1) s)"
  using assms by (subst unquote.simps(2)) (auto simp: Let_def)

lemma unquote_json_char:
  assumes "ord c < 128"
  shows "unquote (json_char c @ s) = c # unquote s"
proof (cases rule: json_char_cases [of c])
  case 3
  have "\<not> surrogate (ord c)" using assms by (simp add: surrogate_def)
  moreover have "EncodeRune (ord c) = [c]" using assms by (simp add: EncodeRune_def)
  ultimately show ?thesis using 3
    unquote_u [of "CHR ''0''" "CHR ''0''" "lowerhex (ord c div 16)" "lowerhex (ord c mod 16)" s]
    by (simp add: hex_char unhex_0(1))
qed (use assms in \<open>simp_all add: unquote_plain unquote_escape\<close>)

lemma scan_high: "list_all (\<lambda>d. 128 \<le> ord d) r \<Longrightarrow> scan_string (r @ s) = prepend r (scan_string s)"
proof (induction r)
  case (Cons c r)
  then have "c \<noteq> CHR 0x22" "c \<noteq> CHR 0x5C" "\<not> ord c < 32" by auto
  then show ?case using Cons by (auto simp: scan_string.simps option.map_comp comp_def case_prod_unfold)
qed (simp add: case_prod_unfold option.map_ident)

lemma scan_json_rune:
  assumes "list_all (\<lambda>d. 128 \<le> ord d) r"
  shows "scan_string (json_rune r @ s) = prepend (json_rune r) (scan_string s)"
  using scan_high [OF assms, of s]
  by (auto simp: json_rune_def scan_string.simps simple_escape_def ishex_def is_digit_def less_eq_char_def option.map_comp comp_def
      split: prod.splits)

lemma scan_json_chars: "scan_string (json_chars s @ t) = prepend (json_chars s) (scan_string t)"
proof (induction s rule: json_chars.induct)
  case (2 c s)
  have u: "scan_string ((CHR 0x5C # ''ufffd'') @ t) = prepend (CHR 0x5C # ''ufffd'') (scan_string t)" for t
    by (simp add: scan_string.simps simple_escape_def ishex_def is_digit_def less_eq_char_def)
  consider (ascii) "ord c < 128" | (bad) "128 \<le> ord c" "rune_size (c # s) = 0"
    | (rune) "128 \<le> ord c" "rune_size (c # s) \<noteq> 0" by linarith
  then show ?case
  proof cases
    case ascii
    then show ?thesis using 2(1) by (simp add: json_chars.simps scan_json_char option.map_comp comp_def case_prod_unfold)
  next
    case bad
    then show ?thesis using 2(2) u by (simp add: json_chars.simps option.map_comp comp_def case_prod_unfold)
  next
    case rune
    then show ?thesis using 2(3) scan_json_rune [OF rune_high [OF rune(2,1)]]
      by (simp add: json_chars.simps Let_def option.map_comp comp_def case_prod_unfold)
  qed
qed (simp add: json_chars.simps case_prod_unfold option.map_ident)

lemma scan_json_string: "scan_string (json_chars s @ CHR 0x22 # t) = Some (json_chars s, t)"
  by (simp add: scan_json_chars scan_string.simps)

lemma unquote_json_rune:
  assumes "rune_size (c # s) \<noteq> 0" "128 \<le> ord c"
  defines "r \<equiv> take (rune_size (c # s)) (c # s)"
  shows "unquote (json_rune r @ t) = r @ unquote t"
proof (cases "json_rune r = r")
  case True
  obtain d r' where r: "r = d # r'" "d = c" using assms(1) by (cases "rune_size (c # s)") (simp_all add: r_def)
  have "rune_size (r @ t) = length r"
    using rune_size_append [OF assms(1), of t] rune_size_le [of "c # s"] by (simp add: r_def)
  then show ?thesis using unquote_rune [of d "r' @ t"] True r assms(2) by (simp add: drop_Cons')
next
  case False
  have "list_all ishex ''2028''" "list_all ishex ''2029''" "hex4 (CHR ''2'') (CHR ''0'') (CHR ''2'') (CHR ''8'') = 0x2028"
    "hex4 (CHR ''2'') (CHR ''0'') (CHR ''2'') (CHR ''9'') = 0x2029"
    by code_simp+
  moreover have "EncodeRune 0x2028 = [CHR 0xE2, CHR 0x80, CHR 0xA8]" "EncodeRune 0x2029 = [CHR 0xE2, CHR 0x80, CHR 0xA9]"
    by (simp_all add: EncodeRune_def surrogate_def char_eq_ord del: of_char_eq_iff)
  ultimately show ?thesis using False
    by (auto simp: json_rune_def unquote_u surrogate_def split: if_splits)
qed

text \<open>What is left of a string when every byte that is not part of valid UTF-8 is replaced by
  U+FFFD.\<close>

function to_valid :: "string \<Rightarrow> string" where
  "to_valid [] = []"
| "to_valid (c # s) =
     (let n = rune_size (c # s)
      in if n = 0 then replacement @ to_valid s else take n (c # s) @ to_valid (drop (n - 1) s))"
  by pat_completeness auto
termination by (relation "measure length") (auto simp: le_imp_less_Suc)

declare to_valid.simps [simp del]

lemma to_valid_Nil [simp]: "to_valid [] = []"
  by (simp add: to_valid.simps)

lemma to_valid_id [simp]: "valid_utf8 s \<Longrightarrow> to_valid s = s"
proof (induction s rule: to_valid.induct)
  case (2 c s)
  let ?n = "rune_size (c # s)"
  have n: "?n \<noteq> 0" "valid_utf8 (drop (?n - 1) s)" using 2(3) by (simp_all add: valid_utf8.simps)
  have "take ?n (c # s) @ drop (?n - 1) s = c # s" using n(1) by (metis append_take_drop_id drop_Cons')
  then show ?case using 2(2) n by (simp add: to_valid.simps Let_def)
qed simp

lemma unquote_replacement: "unquote (CHR 0x5C # ''ufffd'' @ t) = replacement @ unquote t"
proof -
  have hex: "list_all ishex ''fffd''" "unhex (CHR ''f'') = 15" "unhex (CHR ''d'') = 13" by code_simp+
  then have "hex4 (CHR ''f'') (CHR ''f'') (CHR ''f'') (CHR ''d'') = 0xFFFD" by (simp add: hex4_def)
  moreover have "EncodeRune 0xFFFD = replacement" by (simp add: EncodeRune_def surrogate_def char_eq_ord del: of_char_eq_iff)
  ultimately show ?thesis using hex(1) unquote_u [of "CHR ''f''" "CHR ''f''" "CHR ''f''" "CHR ''d''" t] by (simp add: surrogate_def)
qed

lemma unquote_json_chars: "unquote (json_chars s @ t) = to_valid s @ unquote t"
proof (induction s rule: json_chars.induct)
  case (2 c s)
  consider (ascii) "ord c < 128" | (bad) "128 \<le> ord c" "rune_size (c # s) = 0"
    | (rune) "128 \<le> ord c" "rune_size (c # s) \<noteq> 0" by linarith
  then show ?case
  proof cases
    case ascii
    then show ?thesis using 2(1) by (simp add: json_chars.simps unquote_json_char to_valid.simps(2) rune_size_ascii)
  next
    case bad
    then show ?thesis using 2(2) unquote_replacement by (simp add: json_chars.simps to_valid.simps(2))
  next
    case rune
    then show ?thesis using 2(3) unquote_json_rune [of c s]
      by (simp add: json_chars.simps to_valid.simps(2) Let_def)
  qed
qed (simp add: json_chars.simps)

lemma unquote_json_string [simp]: "unquote (json_chars s) = to_valid s"
  using unquote_json_chars [of s "[]"] by (simp add: unquote.simps)

text \<open>What the decoder returns is valid UTF-8, whatever the body holds.\<close>

lemma escape_value_ascii: "simple_escape e \<Longrightarrow> ord (escape_value e) < 128"
proof -
  have "list_all (\<lambda>e. ord (escape_value e) < 128) (CHR 0x5C # CHR 0x22 # ''bfnrt/'')" by code_simp
  then show "simple_escape e \<Longrightarrow> ?thesis" by (auto simp: simple_escape_def)
qed

lemma valid_utf8_unquote: "valid_utf8 (unquote s)"
proof (induction s rule: unquote.induct)
  case (2 c s)
  show ?case
  proof (cases "c = CHR 0x5C")
    case True
    then show ?thesis using 2(1-4)
      by (subst unquote.simps(2)) (auto split: option.split list.split simp: escape_value_ascii valid_utf8_replacement [simplified])
  next
    case False
    let ?n = "rune_size (c # s)"
    have "valid_utf8 (take ?n (c # s) @ unquote (drop (?n - 1) s))" if "?n \<noteq> 0"
      using valid_utf8_rune [of "take ?n (c # s)"] rune_size_append [OF that, of "[]"] rune_size_le [of "c # s"]
        2(7) False that
      by (cases "ord c < 128") (simp_all add: rune_size_ascii 2(5))
    then show ?thesis using False 2(5,6)
      by (subst unquote.simps(2)) (auto simp: Let_def valid_utf8_replacement [simplified])
  qed
qed (simp add: unquote.simps)

lemma valid_utf8_to_valid [simp]: "valid_utf8 (to_valid s)"
  using valid_utf8_unquote [of "json_chars s"] by simp

section \<open>The readers consume what they read\<close>

lemma scan_string_length: "scan_string s = Some (r, t) \<Longrightarrow> length t < length s"
proof (induction s arbitrary: r t rule: scan_string.induct)
  case (2 c s)
  then show ?case
    by (subst (asm) scan_string.simps(2)) (fastforce split: if_splits list.splits)
qed (simp add: scan_string.simps)

lemma dropWhile_length: "length (dropWhile P s) \<le> length s"
  by (rule length_dropWhile_le)

lemma scan_digits_length: "scan_digits s = Some t \<Longrightarrow> length t < length s"
  by (auto simp: scan_digits_def le_imp_less_Suc dropWhile_length split: list.splits if_splits)

lemma scan_int_length: "scan_int s = Some t \<Longrightarrow> length t < length s"
  by (auto simp: scan_int_def le_imp_less_Suc dropWhile_length split: list.splits if_splits)

lemma scan_frac_length: "scan_frac s = Some t \<Longrightarrow> length t \<le> length s"
  by (auto simp: scan_frac_def dest: scan_digits_length split: list.splits if_splits)

lemma scan_exp_length: "scan_exp s = Some t \<Longrightarrow> length t \<le> length s"
  by (auto simp: scan_exp_def dest!: scan_digits_length split: list.splits if_splits)

lemma scan_number_length: "scan_number s = Some t \<Longrightarrow> length t < length s"
  by (force simp: scan_number_def bind_eq_Some_conv dest!: scan_int_length scan_frac_length scan_exp_length
      split: if_splits)

lemma HasPrefix_length: "HasPrefix s p \<Longrightarrow> length p \<le> length s"
  by (auto simp: HasPrefix_iff prefix_def)

lemma read_literal_length: "read_literal s = Some (v, t) \<Longrightarrow> length t < length s"
  by (auto simp: read_literal_def dest: scan_number_length HasPrefix_length split: if_splits)

lemma skip_ws_length: "skip_ws s = t \<Longrightarrow> length t \<le> length s"
  using length_dropWhile_le by blast

lemma skip_ws_Cons: "skip_ws s = e # u \<Longrightarrow> length u < length s"
  by (metis Suc_le_eq length_Cons length_dropWhile_le)

lemma read_value_length: "read_value n d s = Some (v, t) \<Longrightarrow> length t < length s"
  and read_members_length: "read_members n d s = Some (ms, t) \<Longrightarrow> length t < length s"
  and read_elements_length: "read_elements n d s = Some (vs, t) \<Longrightarrow> length t < length s"
proof (induction n d s and n d s and n d s arbitrary: v t and ms t and vs t
    rule: read_value_read_members_read_elements.induct)
  case (2 n d s)
  show ?case
  proof (cases s)
    case (Cons c s1)
    consider (str) "c = CHR 0x22" | (obj) "c = CHR ''{''" | (arr) "c = CHR ''[''"
      | (lit) "c \<noteq> CHR 0x22" "c \<noteq> CHR ''{''" "c \<noteq> CHR ''[''" by blast
    then show ?thesis
    proof cases
      case str
      then show ?thesis using 2(3) Cons scan_string_length [of s1] by (auto simp: read_value.simps)
    next
      case obj
      then obtain e u where u: "d \<noteq> 0" "skip_ws s1 = e # u"
        using 2(3) Cons by (auto simp: read_value.simps split: if_splits list.splits)
      from skip_ws_Cons [OF u(2)] show ?thesis using 2(1) [OF Cons _ obj u] 2(3) Cons obj u
        by (fastforce simp: read_value.simps split: if_splits)
    next
      case arr
      then obtain e u where u: "d \<noteq> 0" "skip_ws s1 = e # u"
        using 2(3) Cons by (auto simp: read_value.simps split: if_splits list.splits)
      from skip_ws_Cons [OF u(2)] show ?thesis using 2(2) [OF Cons _ _ arr u] 2(3) Cons arr u
        by (fastforce simp: read_value.simps split: if_splits)
    next
      case lit
      then show ?thesis using 2(3) Cons read_literal_length [of "c # s1" v t] by (simp add: read_value.simps)
    qed
  qed (use 2 in \<open>simp add: read_value.simps\<close>)
next
  case (4 n d s)
  obtain c s1 k s2 e s3 v s4 f s5 where
    s: "s = c # s1" "c = CHR 0x22" "scan_string s1 = Some (k, s2)" "skip_ws s2 = e # s3" "e = CHR '':''"
      "read_value n d (skip_ws s3) = Some (v, s4)" "skip_ws s4 = f # s5"
      "f = CHR ''}'' \<or> f = CHR '',''"
    using 4(3) by (auto simp: read_members.simps split: list.splits if_splits option.splits)
  have "length (skip_ws s3) \<le> length s3" "length (skip_ws s5) \<le> length s5" by (rule length_dropWhile_le)+
  moreover have "length s4 < length (skip_ws s3)" using 4(1) s by simp
  moreover have "length s = Suc (length s1)" using s(1) by simp
  ultimately have le: "length s5 < length s" "length (skip_ws s5) < length s"
    using scan_string_length [OF s(3)] skip_ws_Cons [OF s(4)] skip_ws_Cons [OF s(7)] by linarith+
  show ?case
  proof (cases "f = CHR ''}''")
    case True
    then show ?thesis using 4(3) s le by (simp add: read_members.simps)
  next
    case False
    then show ?thesis using 4(2) 4(3) s le by (fastforce simp: read_members.simps)
  qed
next
  case (6 n d s)
  obtain v s1 f s2 where s: "read_value n d s = Some (v, s1)" "skip_ws s1 = f # s2"
      "f = CHR '']'' \<or> f = CHR '',''"
    using 6(3) by (auto simp: read_elements.simps split: list.splits if_splits option.splits)
  have "length (skip_ws s2) \<le> length s2" by (rule length_dropWhile_le)
  moreover have "length s1 < length s" using 6(1) s by simp
  ultimately have le: "length s2 < length s" "length (skip_ws s2) < length s"
    using skip_ws_Cons [OF s(2)] by linarith+
  show ?case
  proof (cases "f = CHR '']''")
    case True
    then show ?thesis using 6(3) s le by (simp add: read_elements.simps)
  next
    case False
    then show ?thesis using 6(2) 6(3) s le by (fastforce simp: read_elements.simps)
  qed
qed (simp_all add: read_value.simps read_members.simps read_elements.simps)

text \<open>More fuel than twice the length of the input changes nothing.\<close>

lemma read_value_fuel: "2 * length s < n \<Longrightarrow> read_value (n + j) d s = read_value n d s"
  and read_members_fuel: "2 * length s < n \<Longrightarrow> read_members (n + j) d s = read_members n d s"
  and read_elements_fuel: "2 * length s + 1 < n \<Longrightarrow> read_elements (n + j) d s = read_elements n d s"
proof (induction n d s and n d s and n d s rule: read_value_read_members_read_elements.induct)
  case (2 n d s)
  show ?case
  proof (cases s)
    case (Cons c s1)
    have len: "2 * length (e # u) < n" "2 * length (e # u) + 1 < n" if "skip_ws s1 = e # u" for e u
      using skip_ws_Cons [OF that] 2(3) Cons by simp_all
    show ?thesis
    proof (cases "skip_ws s1")
      case Nil
      then show ?thesis using Cons by (simp add: read_value.simps del: dropWhile_eq_Nil_conv)
    next
      case u: (Cons e u)
      have m: "read_members (n + j) (d - 1) (e # u) = read_members n (d - 1) (e # u)"
        if "c = CHR ''{''" "d \<noteq> 0" "e \<noteq> CHR ''}''"
        using 2(1) [OF Cons _ that(1,2) u that(3)] that len [OF u] by simp
      have e: "read_elements (n + j) (d - 1) (e # u) = read_elements n (d - 1) (e # u)"
        if "c = CHR ''[''" "d \<noteq> 0" "e \<noteq> CHR '']''"
        using 2(2) [OF Cons _ _ that(1,2) u that(3)] that len [OF u] by simp
      show ?thesis using Cons u m e by (simp add: read_value.simps)
    qed
  qed (simp add: read_value.simps)
next
  case (4 n d s)
  show ?case
  proof (cases "\<exists>s1 k s2 s3. s = CHR 0x22 # s1 \<and> scan_string s1 = Some (k, s2) \<and> skip_ws s2 = CHR '':'' # s3")
    case True
    then obtain s1 k s2 s3 where
      s: "s = CHR 0x22 # s1" "scan_string s1 = Some (k, s2)" "skip_ws s2 = CHR '':'' # s3" by blast
    have le: "length (skip_ws s3) < length s1"
      using scan_string_length [OF s(2)] skip_ws_Cons [OF s(3)] length_dropWhile_le [of json_space s3] by linarith
    then have v: "read_value (n + j) d (skip_ws s3) = read_value n d (skip_ws s3)" using 4(1) 4(3) s by simp
    have m: "read_members (n + j) d (skip_ws s5) = read_members n d (skip_ws s5)"
      if "read_value n d (skip_ws s3) = Some (x, s4)" "skip_ws s4 = CHR '','' # s5" for x s4 s5
    proof -
      have "length (skip_ws s5) < length s1"
        using le read_value_length [OF that(1)] skip_ws_Cons [OF that(2)] length_dropWhile_le [of json_space s5]
        by linarith
      then show ?thesis using 4(2) 4(3) s that by simp
    qed
    show ?thesis using s m by (auto simp: read_members.simps v simp del: dropWhile_eq_Nil_conv split: option.split list.split)
  qed (auto simp: read_members.simps split: list.split option.split)
next
  case (6 n d s)
  have v: "read_value (n + j) d s = read_value n d s" using 6(1) 6(3) by simp
  have m: "read_elements (n + j) d (skip_ws s2) = read_elements n d (skip_ws s2)"
    if "read_value n d s = Some (x, s1)" "skip_ws s1 = CHR '','' # s2" for x s1 s2
  proof -
    have "length (skip_ws s2) < length s"
      using read_value_length [OF that(1)] skip_ws_Cons [OF that(2)] length_dropWhile_le [of json_space s2]
      by linarith
    then show ?thesis using 6(2) 6(3) that by simp
  qed
  show ?case using m by (auto simp: read_elements.simps v simp del: dropWhile_eq_Nil_conv split: option.split list.split)
qed simp_all

section \<open>Round trip\<close>

lemma not_space [simp]: "\<not> json_space (CHR 0x22)" "\<not> json_space (CHR ''{'')" "\<not> json_space (CHR ''}'')"
    "\<not> json_space (CHR '':'')" "\<not> json_space (CHR '','')"
  by (simp_all add: json_space_def)

text \<open>The value a printed one is read as.\<close>

fun embed :: "json \<Rightarrow> json_value" where
  "embed (JStr s) = VStr (to_valid s)"
| "embed (JInt i) = VNum (show_int i)"
| "embed (JBool b) = VBool b"
| "embed (JObj fs) = VObj (map (\<lambda>(k, v). (to_valid k, embed v)) fs)"

fun json_depth :: "json \<Rightarrow> nat" where
  "json_depth (JObj fs) = Suc (foldr max (map (\<lambda>(k, v). json_depth v) fs) 0)"
| "json_depth v = 0"

text \<open>What may follow a value: nothing that goes on with a number.\<close>

definition ends_value :: "string \<Rightarrow> bool" where
  "ends_value t \<longleftrightarrow> (case t of [] \<Rightarrow> True | c # _ \<Rightarrow> \<not> is_digit c \<and> c \<notin> set ''.eE'')"

lemma ends_value_simps [simp]: "ends_value []" "ends_value (CHR '','' # t)" "ends_value (CHR ''}'' # t)" "ends_value (CHR 0x0A # t)"
  by (simp_all add: ends_value_def is_digit_def less_eq_char_def)

lemma digit_char: "n < 10 \<Longrightarrow> is_digit (char_of (n + 48 :: nat)) \<and> (char_of (n + 48) = CHR ''0'' \<longleftrightarrow> n = 0)"
proof -
  have "list_all (\<lambda>n :: nat. is_digit (char_of (n + 48)) \<and> (char_of (n + 48) = CHR ''0'' \<longleftrightarrow> n = 0)) [0..<10]" by code_simp
  then show "n < 10 \<Longrightarrow> ?thesis" by (simp add: list_all_iff)
qed

lemma show_digits_shape:
  "\<exists>c ds. show_digits 10 n = c # ds \<and> is_digit c \<and> list_all is_digit ds \<and> (c = CHR ''0'' \<longrightarrow> n = 0 \<and> ds = [])"
proof (induction n rule: less_induct)
  case (less n)
  show ?case
  proof (cases "n < 10")
    case True
    then show ?thesis using digit_char [of n] by (simp add: show_digits.simps [of 10 n])
  next
    case False
    then obtain c ds where "show_digits 10 (n div 10) = c # ds" "is_digit c" "list_all is_digit ds" "c \<noteq> CHR ''0''"
      using less [of "n div 10"] by (metis div_less_dividend div_greater_zero_iff not_less one_less_numeral_iff semiring_norm(76) zero_less_numeral less_le_trans not_less_zero)
    then show ?thesis using False digit_char [of "n mod 10"] by (simp add: show_digits.simps [of 10 n])
  qed
qed

lemma scan_show_digits: "ends_value t \<Longrightarrow> scan_int (show_digits 10 n @ t) = Some t"
proof -
  assume t: "ends_value t"
  obtain c ds where d: "show_digits 10 n = c # ds" "is_digit c" "list_all is_digit ds" "c = CHR ''0'' \<longrightarrow> ds = []"
    using show_digits_shape by metis
  have "dropWhile is_digit (ds @ t) = t"
    using d(3) t by (cases t) (auto simp: ends_value_def list_all_iff dropWhile_append2)
  then show ?thesis using d by (auto simp: scan_int_def)
qed

lemma scan_show_int:
  assumes "ends_value t"
  shows "scan_number (show_int i @ t) = Some t"
proof -
  obtain c ds where "show_digits 10 (nat i) = c # ds" "is_digit c" using show_digits_shape by metis
  then have digits: "\<not> HasPrefix (show_digits 10 (nat i) @ t) ''-''"
    by (auto simp: HasPrefix_char is_digit_def less_eq_char_def)
  have "scan_int (if HasPrefix (show_int i @ t) ''-'' then tl (show_int i @ t) else show_int i @ t) = Some t"
  proof (cases "i < 0")
    case True
    then have s: "show_int i @ t = CHR ''-'' # (show_digits 10 (nat (- i)) @ t)" by (simp add: show_int_def)
    show ?thesis unfolding s using scan_show_digits [OF assms] by (simp add: HasPrefix_def)
  next
    case False
    then have s: "show_int i @ t = show_digits 10 (nat i) @ t" by (simp add: show_int_def)
    show ?thesis unfolding s using scan_show_digits [OF assms] digits by simp
  qed
  moreover have "scan_frac t = Some t" "scan_exp t = Some t"
    using assms by (cases t; auto simp: scan_frac_def scan_exp_def ends_value_def)+
  ultimately show ?thesis by (simp only: scan_number_def bind.bind_lunit)
qed

lemma show_int_shape: "\<exists>c s. show_int i = c # s \<and> (is_digit c \<or> c = CHR ''-'')"
proof (cases "i < 0")
  case False
  obtain c ds where "show_digits 10 (nat i) = c # ds" "is_digit c" using show_digits_shape by metis
  then show ?thesis using False by (simp add: show_int_def)
qed (simp add: show_int_def)

lemma read_show_int:
  assumes "ends_value t"
  shows "read_value (Suc n) d (show_int i @ t) = Some (VNum (show_int i), t)"
proof -
  obtain c s where c: "show_int i = c # s" "is_digit c \<or> c = CHR ''-''" using show_int_shape by blast
  then have plain: "c \<noteq> CHR 0x22" "c \<noteq> CHR ''{''" "c \<noteq> CHR ''[''" "c \<noteq> CHR ''n''" "c \<noteq> CHR ''t''" "c \<noteq> CHR ''f''"
    by (auto simp: is_digit_def less_eq_char_def)
  then have "read_literal (show_int i @ t) = Some (VNum (show_int i), t)"
    using scan_show_int [OF assms, of i] c(1) by (simp add: read_literal_def HasPrefix_def)
  then show ?thesis using plain c(1) by (simp add: read_value.simps)
qed

lemma read_value_string: "read_value (Suc n) d (json_string s @ t) = Some (VStr (to_valid s), t)"
  by (simp add: read_value.simps json_string_def scan_json_string)

abbreviation (input) members_text :: "(string \<times> json) list \<Rightarrow> string" where
  "members_text fs \<equiv> Join (map (\<lambda>(k, v). json_string k @ '':'' @ json_text v) fs) '',''"

lemma members_text_Cons: "fs \<noteq> [] \<Longrightarrow> \<exists>w. members_text fs = CHR 0x22 # w"
  by (cases fs; cases "tl fs") (auto simp: json_string_def)

text \<open>The first byte of a printed value.\<close>

lemma json_text_Cons: "\<exists>c w. json_text v = c # w \<and> \<not> json_space c"
proof (cases v)
  case (JInt i)
  then show ?thesis using show_int_shape [of i] by (auto simp: json_space_def is_digit_def less_eq_char_def)
qed (auto simp: json_string_def json_space_def)

lemma read_one_member:
  assumes "read_value n d (json_text v @ e # t) = Some (x, e # t)" "e = CHR ''}'' \<or> e = CHR '',''"
  shows "read_members (Suc n) d (json_string k @ '':'' @ json_text v @ e # t) =
      (if e = CHR ''}'' then Some ([(to_valid k, x)], t)
       else map_option (\<lambda>(ms, t5). ((to_valid k, x) # ms, t5)) (read_members n d (skip_ws t)))"
proof -
  obtain c w where "json_text v = c # w" "\<not> json_space c" using json_text_Cons by blast
  then have "skip_ws (json_text v @ e # t) = json_text v @ e # t" by simp
  then show ?thesis using assms
    by (auto simp: read_members.simps json_string_def [of k] scan_json_string)
qed

lemma read_members_text:
  assumes "\<And>k v n t. (k, v) \<in> set fs \<Longrightarrow> length (json_text v) < n \<Longrightarrow> ends_value t \<Longrightarrow>
      read_value n d (json_text v @ t) = Some (embed v, t)"
    and "fs \<noteq> []" "length (members_text fs) < n"
  shows "read_members n d (members_text fs @ CHR ''}'' # t) = Some (map (\<lambda>(k, v). (to_valid k, embed v)) fs, t)"
  using assms
proof (induction fs arbitrary: n)
  case (Cons f fs)
  obtain k v where f: "f = (k, v)" by fastforce
  obtain m where n: "n = Suc m" using Cons.prems(3) by (cases n) auto
  have len: "length (json_text v) < m" using Cons.prems(3) n f
    by (cases "fs = []") (auto simp: Join_Cons json_string_def)
  have v: "read_value m d (json_text v @ e # t2) = Some (embed v, e # t2)" if "e = CHR ''}'' \<or> e = CHR '',''" for e t2
    using Cons.prems(1) [of k v m "e # t2"] f len that by auto
  note one = read_one_member [where k = k, OF v]
  show ?case
  proof (cases "fs = []")
    case True
    then show ?thesis using one [of "CHR ''}''" t] f n by simp
  next
    case False
    obtain w where "members_text fs = CHR 0x22 # w" using members_text_Cons [OF False] by blast
    then have ws: "skip_ws (members_text fs @ CHR ''}'' # t) = members_text fs @ CHR ''}'' # t" by simp
    have "length (members_text fs) < m" using Cons.prems(3) n f False by (simp add: Join_Cons)
    then have "read_members m d (members_text fs @ CHR ''}'' # t) = Some (map (\<lambda>(k, v). (to_valid k, embed v)) fs, t)"
    proof (intro Cons.IH False)
      fix k v n t
      assume "(k, v) \<in> set fs" "length (json_text v) < n" "ends_value t"
      then show "read_value n d (json_text v @ t) = Some (embed v, t)" by (intro Cons.prems(1) [of k]) auto
    qed
    then show ?thesis using one [of "CHR '',''" "members_text fs @ CHR ''}'' # t"] ws n f False
      by (simp add: Join_Cons)
  qed
qed simp

lemma foldr_max_le: "x \<in> set xs \<Longrightarrow> x \<le> foldr max xs (0 :: nat)"
  by (induction xs) (auto simp: le_max_iff_disj)

theorem read_value_text:
  "json_depth v \<le> d \<Longrightarrow> length (json_text v) < n \<Longrightarrow> ends_value t \<Longrightarrow>
    read_value n d (json_text v @ t) = Some (embed v, t)"
proof (induction v arbitrary: n d t rule: json_text.induct)
  case (1 s)
  then show ?case using read_value_string [where s = s] by (cases n) auto
next
  case (2 i)
  then show ?case using read_show_int [of t] by (cases n) auto
next
  case (3 b)
  then show ?case by (cases n) (auto simp: read_value.simps read_literal_def HasPrefix_def)
next
  case (4 fs)
  obtain m where n: "n = Suc m" using 4(3) by (cases n) auto
  obtain e where d: "d = Suc e" using 4(2) by (cases d) auto
  show ?case
  proof (cases "fs = []")
    case True
    then show ?thesis by (simp add: n d read_value.simps)
  next
    case False
    then obtain w where w: "members_text fs = CHR 0x22 # w" using members_text_Cons by blast
    have "read_members m e (members_text fs @ CHR ''}'' # t) = Some (map (\<lambda>(k, v). (to_valid k, embed v)) fs, t)"
    proof (rule read_members_text [OF _ False])
      show "length (members_text fs) < m" using 4(3) n by (simp add: comp_def case_prod_unfold)
      fix k v n t assume kv: "(k, v) \<in> set fs" and "length (json_text v) < n" "ends_value t"
      moreover have "json_depth v \<le> e"
        using 4(2) d kv foldr_max_le [of "json_depth v" "map (\<lambda>(k, v). json_depth v) fs"] by force
      ultimately show "read_value n e (json_text v @ t) = Some (embed v, t)" using 4(1) [of "(k, v)" k v] by simp
    qed
    then show ?thesis using w by (simp add: n d read_value.simps comp_def case_prod_unfold)
  qed
qed

lemma read_json_text:
  assumes "json_depth v \<le> maxNestingDepth" "ends_value t"
  shows "read_json (json_text v @ t) = Some (embed v, t)"
proof -
  obtain c w where "json_text v = c # w" "\<not> json_space c" using json_text_Cons by blast
  then have "skip_ws (json_text v @ t) = json_text v @ t" by simp
  then show ?thesis using read_value_text [OF assms(1) _ assms(2), of "2 * length (json_text v @ t) + 1"]
    by (simp add: read_json_def)
qed

abbreviation (input) string_object :: "(string \<times> string) list \<Rightarrow> json" where
  "string_object fs \<equiv> JObj (map (\<lambda>(k, v). (k, JStr v)) fs)"

lemma read_json_strings:
  assumes "list_all (\<lambda>(k, v). valid_utf8 k) fs" "ends_value t"
  shows "read_json (json_text (string_object fs) @ t) = Some (VObj (map (\<lambda>(k, v). (k, VStr (to_valid v))) fs), t)"
proof -
  have "foldr max (map (\<lambda>(k, v). json_depth v) (map (\<lambda>(k, v). (k, JStr v)) fs)) 0 = 0"
    by (induction fs) auto
  then have "json_depth (string_object fs) \<le> maxNestingDepth" by (simp add: maxNestingDepth_def)
  then have "read_json (json_text (string_object fs) @ t) = Some (VObj (map (\<lambda>(k, v). (to_valid k, VStr (to_valid v))) fs), t)"
    using read_json_text [of "string_object fs" t] assms(2) by (simp add: comp_def case_prod_unfold)
  moreover have "map (\<lambda>(k, v). (to_valid k, VStr (to_valid v))) fs = map (\<lambda>(k, v). (k, VStr (to_valid v))) fs"
    using assms(1) by (auto simp: list_all_iff)
  ultimately show ?thesis by (simp only:)
qed

lemma set_fields_strings:
  assumes "distinct_keys fs" "set (map fst fs) \<subseteq> set names"
  shows "set_fields names (map (\<lambda>(k, v). (k, VStr (f v))) fs) st
    = Some (\<lambda>k. case map_of fs k of Some v \<Rightarrow> f v | None \<Rightarrow> st k)"
  using assms
proof (induction fs arbitrary: st)
  case (Cons x fs)
  then have "map_of fs (fst x) = None" by (simp add: map_of_eq_None_iff)
  then show ?case using Cons
    by (auto simp: field_of_def fun_eq_iff split: prod.split option.split)
qed simp

lemma json_Decode_Encode:
  assumes "distinct_keys fs" "set (map fst fs) \<subseteq> set names"
    and "list_all (\<lambda>(k, v). valid_utf8 k) fs"
  shows "json_Decode names \<lparr>br_data = json_Encode (string_object fs), br_fails = e\<rparr>
    = Some (map (\<lambda>k. case map_of fs k of Some v \<Rightarrow> to_valid v | None \<Rightarrow> '''') names)"
  using read_json_strings [OF assms(3), of "[CHR 0x0A]"] set_fields_strings [OF assms(1,2), of to_valid]
  by (simp add: json_Decode_def json_Encode_def)

text \<open>Every string the decoder hands out is valid UTF-8.\<close>

lemma read_value_valid: "read_value n d s = Some (VStr x, t) \<Longrightarrow> valid_utf8 x"
  by (cases n; cases s)
    (auto simp: read_value.simps read_literal_def valid_utf8_unquote split: if_splits list.splits)

lemma read_members_valid: "read_members n d s = Some (ms, t) \<Longrightarrow> (k, VStr x) \<in> set ms \<Longrightarrow> valid_utf8 x"
proof (induction n arbitrary: s ms t)
  case (Suc n)
  from Suc(2,3) show ?case
    by (auto simp: read_members.simps split: if_splits list.splits option.splits)
      (blast dest: read_value_valid Suc(1))+
qed (simp add: read_members.simps)

lemma set_fields_valid:
  assumes "set_fields names ms st = Some st'" "\<And>k x. (k, VStr x) \<in> set ms \<Longrightarrow> P x" "\<And>f. P (st f)"
  shows "P (st' f)"
  using assms
proof (induction names ms st rule: set_fields.induct)
  case (2 names k v ms st)
  from 2(4) show ?case
    using 2(1-3) 2(5,6)
    by (auto simp del: fun_upd_apply split: option.splits json_value.splits) (metis fun_upd_apply)
qed simp

lemma json_Decode_valid:
  assumes "json_Decode names b = Some xs" "x \<in> set xs"
  shows "valid_utf8 x"
proof (cases "read_json (br_data b)")
  case (Some p)
  obtain v t where p: "p = (v, t)" by fastforce
  show ?thesis
  proof (cases v)
    case (VObj ms)
    then have "\<exists>n d s. read_value n d s = Some (VObj ms, t)" using Some p by (auto simp: read_json_def Let_def)
    then have "(k, VStr y) \<in> set ms \<Longrightarrow> valid_utf8 y" for k y
      by (elim exE, rename_tac n d s, case_tac n; case_tac s)
        (auto simp: read_value.simps read_literal_def dest: read_members_valid split: if_splits list.splits)
    then show ?thesis using set_fields_valid [of names ms "\<lambda>_. ''''" _ valid_utf8] assms Some p VObj
      by (auto simp: json_Decode_def)
  qed (use assms Some p in \<open>auto simp: json_Decode_def split: if_splits\<close>)
qed (use assms in \<open>simp add: json_Decode_def\<close>)

end
