(* ===== verification/Admin.thy ===== *)
theory Admin
  imports Security CacheProps JsonDecode
begin

text \<open>
  \<open>proxy/internal/admin/handler.go\<close>: the admin API over any cache backend. The handler is
  written against the interface \<open>Backend\<close>, so its lemmas are proved for every backend that
  keeps \<open>backend_laws\<close> and then used for the memory backend. The JSON bodies are read with
  \<open>json_Decode\<close>.
\<close>

definition stats_json :: "cache_stats \<Rightarrow> json" where
  "stats_json s = JObj
     [(''entries'', JInt (st_Entries s)), (''size_bytes'', JInt (st_SizeBytes s)),
      (''max_entries'', JInt (st_MaxEntries s)), (''max_bytes'', JInt (st_MaxBytes s)),
      (''hits'', JInt (st_Hits s)), (''misses'', JInt (st_Misses s)),
      (''bypasses'', JInt (st_Bypasses s)), (''stores'', JInt (st_Stores s)),
      (''evictions'', JInt (st_Evictions s))]"

definition json_reply :: "'w ResponseWriter \<Rightarrow> json \<Rightarrow> 'w \<Rightarrow> 'w" where
  "json_reply W v w = wo_Write W (json_Encode v) (wo_Set W ''Content-Type'' ''application/json'' w)"

definition json_error :: "'w ResponseWriter \<Rightarrow> int \<Rightarrow> string \<Rightarrow> 'w \<Rightarrow> 'w call" where
  "json_error W code msg w =
     respond W code (json_Encode (JObj [(''error'', JStr msg)]))
       (wo_Set W ''Content-Type'' ''application/json'' w)"

definition authenticate :: "string \<Rightarrow> request \<Rightarrow> bool" where
  "authenticate authToken r =
     (if authToken = '''' then True
      else
        let auth = header_Get (r_Header r) ''Authorization''
        in if auth = '''' then False
           else
             let parts = SplitN2 (CHR '' '') auth
             in if length parts = 2 \<and> EqualFold (parts ! 0) ''Bearer'' then parts ! 1 = authToken
                else auth = authToken)"

definition handleCacheStats :: "'w ResponseWriter \<Rightarrow> 'b Backend \<Rightarrow> 'b \<Rightarrow> 'w \<Rightarrow> 'w" where
  "handleCacheStats W B b w = json_reply W (stats_json (be_Stats B b)) w"

text \<open>A server request always has a body reader; one that sent no body has the empty one.\<close>

definition body_of :: "request \<Rightarrow> body_reader" where
  "body_of r = (case r_Body r of None \<Rightarrow> \<lparr>br_data = '''', br_fails = False\<rparr> | Some b \<Rightarrow> b)"

definition handleCachePurge ::
  "'w ResponseWriter \<Rightarrow> 'b Backend \<Rightarrow> 'b \<Rightarrow> 'w \<Rightarrow> request \<Rightarrow> 'w call \<times> 'b" where
  "handleCachePurge W B b w r =
     (case json_Decode [''url'', ''key''] (body_of r) of
        Some [url, key] \<Rightarrow>
          let key = (if key = '''' then url else key);
              (deleted, b) = be_Delete B key b;
              (deleted, b) =
                (if \<not> deleted \<and> key \<noteq> '''' \<and> hd key = CHR ''/''
                 then (let (count, b) = be_DeleteByPath B key b in (count > 0, b))
                 else (deleted, b))
          in (Returns (json_reply W (JObj [(''deleted'', JBool deleted), (''key'', JStr key)]) w), b)
      | _ \<Rightarrow> (json_error W 400 ''invalid request body'' w, b))"

definition handleCachePurgePrefix ::
  "'w ResponseWriter \<Rightarrow> 'b Backend \<Rightarrow> 'b \<Rightarrow> 'w \<Rightarrow> request \<Rightarrow> 'w call \<times> 'b" where
  "handleCachePurgePrefix W B b w r =
     (case json_Decode [''prefix''] (body_of r) of
        Some [pre] \<Rightarrow>
          let (count, b) = be_DeleteByPrefix B pre b
          in (Returns (json_reply W (JObj [(''deleted_count'', JInt count), (''prefix'', JStr pre)]) w), b)
      | _ \<Rightarrow> (json_error W 400 ''invalid request body'' w, b))"

definition handleCachePurgeAll :: "'w ResponseWriter \<Rightarrow> 'b Backend \<Rightarrow> 'b \<Rightarrow> 'w \<Rightarrow> 'w call \<times> 'b" where
  "handleCachePurgeAll W B b w =
     (let (count, b) = be_Purge B b in (Returns (json_reply W (JObj [(''purged_count'', JInt count)]) w), b))"

definition admin_ServeHTTP ::
  "'w ResponseWriter \<Rightarrow> 'b Backend \<Rightarrow> string \<Rightarrow> 'b \<Rightarrow> 'w \<Rightarrow> request \<Rightarrow> 'w call \<times> 'b" where
  "admin_ServeHTTP W B authToken b w r =
     (if \<not> authenticate authToken r then (json_error W 401 ''unauthorized'' w, b)
      else
        let path = u_Path (r_URL r); meth = r_Method r
        in if path = ''/admin/cache/stats'' \<and> meth = ''GET'' then (Returns (handleCacheStats W B b w), b)
           else if path = ''/admin/cache/purge'' \<and> meth = ''POST'' then handleCachePurge W B b w r
           else if path = ''/admin/cache/purge-prefix'' \<and> meth = ''POST''
           then handleCachePurgePrefix W B b w r
           else if path = ''/admin/cache/purge-all'' \<and> meth = ''POST'' then handleCachePurgeAll W B b w
           else (json_error W 404 ''not found'' w, b))"

section \<open>Lemmas\<close>

text \<open>Who gets in.\<close>

lemma authenticate_sound:
  assumes "authenticate authToken r" "authToken \<noteq> ''''"
  shows "header_Get (r_Header r) ''Authorization'' = authToken
    \<or> (\<exists>s. EqualFold s ''Bearer'' \<and> header_Get (r_Header r) ''Authorization'' = s @ '' '' @ authToken)"
proof (cases "Cut (CHR '' '') (header_Get (r_Header r) ''Authorization'')")
  case (fields a b found)
  from Cut_split [OF fields] have
    auth: "header_Get (r_Header r) ''Authorization'' = (if found then a @ CHR '' '' # b else a)" by blast
  show ?thesis
  proof (cases "found \<and> EqualFold a ''Bearer''")
    case True
    then have "b = authToken" using assms fields
      by (auto simp: authenticate_def SplitN2_def Let_def split: if_splits)
    then show ?thesis using auth True by auto
  next
    case False
    then have "header_Get (r_Header r) ''Authorization'' = authToken" using assms fields
      by (auto simp: authenticate_def SplitN2_def Let_def split: if_splits)
    then show ?thesis by blast
  qed
qed

text \<open>What the handlers do to any backend that keeps the laws.\<close>

context backend_laws begin

lemma purge_look:
  assumes "inv b" "json_Decode [''url'', ''key''] (body_of r) = Some [url, key]"
  defines "k \<equiv> if key = '''' then url else key"
  shows "\<exists>w' b'. handleCachePurge W B b w r = (Returns w', b') \<and> inv b'
    \<and> look b' = (\<lambda>j. if j = k \<or> (look b k = None \<and> HasPrefix k ''/'' \<and> pathMatches j k) then None else look b j)"
proof -
  obtain d b1 where d: "be_Delete B k b = (d, b1)" by fastforce
  from delete_law [OF assms(1) this] have
    b1: "inv b1" "d = (look b k \<noteq> None)" "look b1 = (look b)(k := None)" by blast+
  obtain n b2 where n: "be_DeleteByPath B k b1 = (n, b2)" by fastforce
  from path_law [OF b1(1) this] have
    b2: "inv b2" "look b2 = (\<lambda>j. if pathMatches j k then None else look b1 j)" by blast+
  have slash: "k \<noteq> '''' \<and> hd k = CHR ''/'' \<longleftrightarrow> HasPrefix k ''/''" by (simp add: HasPrefix_char)
  have "\<exists>w'. handleCachePurge W B b w r =
      (Returns w', if \<not> d \<and> HasPrefix k ''/'' then b2 else b1)"
    by (auto simp: handleCachePurge_def assms(2) k_def [symmetric] d n slash Let_def)
  then show ?thesis using b1 b2 by (auto simp: fun_eq_iff)
qed

lemma purge_prefix_look:
  assumes "inv b" "json_Decode [''prefix''] (body_of r) = Some [pre]"
  shows "\<exists>w' b'. handleCachePurgePrefix W B b w r = (Returns w', b') \<and> inv b'
    \<and> look b' = (\<lambda>j. if containsPrefix j pre then None else look b j)"
proof -
  obtain n b1 where n: "be_DeleteByPrefix B pre b = (n, b1)" by fastforce
  from prefix_law [OF assms(1) this] show ?thesis
    by (simp add: handleCachePurgePrefix_def assms(2) n)
qed

end

text \<open>A body that is no such object.\<close>

lemma purge_bad_body:
  "(\<And>url key. json_Decode [''url'', ''key''] (body_of r) \<noteq> Some [url, key]) \<Longrightarrow>
    handleCachePurge W B b w r = (json_error W 400 ''invalid request body'' w, b)"
  by (simp add: handleCachePurge_def split: option.split list.split)

lemma purge_prefix_bad_body:
  "(\<And>pre. json_Decode [''prefix''] (body_of r) \<noteq> Some [pre]) \<Longrightarrow>
    handleCachePurgePrefix W B b w r = (json_error W 400 ''invalid request body'' w, b)"
  by (simp add: handleCachePurgePrefix_def split: option.split list.split)

section \<open>What every call of the API keeps\<close>

text \<open>All the API needs of a backend for a predicate to survive its calls.\<close>

locale purge_contract =
  fixes B :: "'b Backend" and Q :: "'b \<Rightarrow> bool"
  assumes delete_keeps: "Q b \<Longrightarrow> Q (snd (be_Delete B k b))"
    and path_keeps: "Q b \<Longrightarrow> Q (snd (be_DeleteByPath B p b))"
    and prefix_keeps: "Q b \<Longrightarrow> Q (snd (be_DeleteByPrefix B p b))"
    and purge_keeps: "Q b \<Longrightarrow> Q (snd (be_Purge B b))"
begin

lemma purge_ok: "Q b \<Longrightarrow> Q (snd (handleCachePurge W B b w r))"
  using delete_keeps path_keeps
  by (auto simp: handleCachePurge_def Let_def split: option.split list.split prod.split) (metis snd_conv)+

lemma purge_prefix_ok: "Q b \<Longrightarrow> Q (snd (handleCachePurgePrefix W B b w r))"
  using prefix_keeps
  by (auto simp: handleCachePurgePrefix_def split: option.split list.split prod.split) (metis snd_conv)+

lemma purge_all_ok: "Q b \<Longrightarrow> Q (snd (handleCachePurgeAll W B b w))"
  using purge_keeps [of b] by (cases "be_Purge B b") (simp add: handleCachePurgeAll_def)

lemma admin_ok:
  assumes "Q b" "admin_ServeHTTP W B authToken b w r = (c, b')"
  shows "Q b'"
proof -
  have "Q (snd (admin_ServeHTTP W B authToken b w r))"
    using assms(1) by (simp add: admin_ServeHTTP_def Let_def purge_ok purge_prefix_ok purge_all_ok)
  then show ?thesis using assms(2) by simp
qed

end

text \<open>A backend that keeps the laws keeps its invariant.\<close>

sublocale backend_laws \<subseteq> purges: purge_contract B inv
proof (unfold_locales, goal_cases)
  case (1 b k)
  then show ?case using delete_law [of b k] by (cases "be_Delete B k b") auto
next
  case (2 b p)
  then show ?case using path_law [of b p] by (cases "be_DeleteByPath B p b") auto
next
  case (3 b p)
  then show ?case using prefix_law [of b p] by (cases "be_DeleteByPrefix B p b") auto
next
  case (4 b)
  then show ?case using purge_law [of b] by (cases "be_Purge B b") auto
qed

section \<open>Properties\<close>

text \<open>C13: with a token configured, a request whose Authorization header is neither the token
  nor the token after the word Bearer is answered 401 and leaves the cache as it was,
  whatever it asks for and whichever backend is behind the API.\<close>

theorem admin_requires_token:
  assumes "authToken \<noteq> ''''" "header_Get (r_Header r) ''Authorization'' \<noteq> authToken"
    and "\<nexists>s. EqualFold s ''Bearer'' \<and> header_Get (r_Header r) ''Authorization'' = s @ '' '' @ authToken"
    and "rw_Status w = None"
  shows "\<exists>w'. admin_ServeHTTP server_Writer B authToken b w r = (Returns w', b) \<and> rw_Status w' = Some 401"
proof -
  have "\<not> authenticate authToken r" using authenticate_sound assms by blast
  then show ?thesis
    using server_writer.respond_status [of 401 _ "wo_Set server_Writer ''Content-Type'' ''application/json'' w"] assms(4)
    by (auto simp: admin_ServeHTTP_def json_error_def)
qed

theorem admin_requires_token_witness:
  "\<exists>w'. admin_ServeHTTP server_Writer memory_Backend ''secret'' sample_store (new_response False)
      (sample_request ''/admin/cache/purge-all'' '''') = (Returns w', sample_store) \<and> rw_Status w' = Some 401"
proof -
  have "header_Get (r_Header (sample_request ''/admin/cache/purge-all'' '''')) ''Authorization'' = ''''"
    by (simp add: header_Get_def)
  then show ?thesis by (intro admin_requires_token) (simp_all add: new_response_def)
qed

text \<open>C27: an authorised purge removes the entry under the given key or, when there is none and
  the key looks like a path, all entries of that path, and nothing else; a purge by prefix
  removes exactly the entries whose path starts with the prefix. The backend keeps its
  invariant. A body that is not such a JSON object is answered 400 and removes nothing.\<close>

theorem admin_purge_exact:
  assumes "mb_inv b" "authenticate authToken r" "r_Method r = ''POST''" "rw_Status w = None"
  shows "(u_Path (r_URL r) = ''/admin/cache/purge'' \<longrightarrow>
      (case json_Decode [''url'', ''key''] (body_of r) of
         Some [url, key] \<Rightarrow>
           (\<exists>w' b'. admin_ServeHTTP server_Writer memory_Backend authToken b w r = (Returns w', b') \<and> mb_inv b'
             \<and> lookup b' = (let k = if key = '''' then url else key
                in (\<lambda>j. if j = k \<or> (lookup b k = None \<and> HasPrefix k ''/'' \<and> pathMatches j k) then None else lookup b j)))
       | _ \<Rightarrow> (\<exists>w'. admin_ServeHTTP server_Writer memory_Backend authToken b w r = (Returns w', b)
             \<and> rw_Status w' = Some 400)))
    \<and> (u_Path (r_URL r) = ''/admin/cache/purge-prefix'' \<longrightarrow>
      (case json_Decode [''prefix''] (body_of r) of
         Some [pre] \<Rightarrow>
           (\<exists>w' b'. admin_ServeHTTP server_Writer memory_Backend authToken b w r = (Returns w', b') \<and> mb_inv b'
             \<and> lookup b' = (\<lambda>j. if containsPrefix j pre then None else lookup b j))
       | _ \<Rightarrow> (\<exists>w'. admin_ServeHTTP server_Writer memory_Backend authToken b w r = (Returns w', b)
             \<and> rw_Status w' = Some 400)))"
proof -
  obtain w' where bad: "json_error server_Writer 400 ''invalid request body'' w = Returns w'" "rw_Status w' = Some 400"
    using server_writer.respond_status [of 400 _ "wo_Set server_Writer ''Content-Type'' ''application/json'' w"] assms(4)
    by (fastforce simp: json_error_def)
  note purge = memory.purge_look [OF assms(1), of r _ _ server_Writer w]
    and pre = memory.purge_prefix_look [OF assms(1), of r _ server_Writer w]
  show ?thesis
  proof (intro conjI impI, goal_cases)
    case 1
    then have eq: "admin_ServeHTTP server_Writer memory_Backend authToken b w r = handleCachePurge server_Writer memory_Backend b w r"
      using assms(2,3) by (simp add: admin_ServeHTTP_def)
    show ?case
    proof (cases "\<exists>url key. json_Decode [''url'', ''key''] (body_of r) = Some [url, key]")
      case True
      then obtain url key where k: "json_Decode [''url'', ''key''] (body_of r) = Some [url, key]" by blast
      from purge [OF k] show ?thesis using eq by (simp only: k option.case list.case Let_def)
    next
      case False
      then show ?thesis using eq bad purge_bad_body [of r server_Writer memory_Backend b w]
        by (simp split: option.split list.split)
    qed
  next
    case 2
    then have "admin_ServeHTTP server_Writer memory_Backend authToken b w r = handleCachePurgePrefix server_Writer memory_Backend b w r"
      using assms(2,3) by (simp add: admin_ServeHTTP_def)
    then show ?case using pre bad purge_prefix_bad_body [of r server_Writer memory_Backend b w]
      by (simp split: option.split list.split)
  qed
qed

text \<open>A request to purge, as a client writes it.\<close>

definition purge_request :: "string \<Rightarrow> request" where
  "purge_request key =
     (sample_request ''/admin/cache/purge'' '''') \<lparr>r_Method := ''POST'',
        r_Body := Some \<lparr>br_data = json_Encode (JObj [(''key'', JStr key)]), br_fails = False\<rparr>\<rparr>"

lemma purge_request_simps [simp]:
  "authenticate '''' (purge_request k)" "r_Method (purge_request k) = ''POST''"
  "u_Path (r_URL (purge_request k)) = ''/admin/cache/purge''"
  "body_of (purge_request k) = \<lparr>br_data = json_Encode (JObj [(''key'', JStr k)]), br_fails = False\<rparr>"
  by (simp_all add: authenticate_def purge_request_def sample_request_def body_of_def)

lemma purge_body_decodes:
  "json_Decode [''url'', ''key''] \<lparr>br_data = json_Encode (JObj [(''key'', JStr k)]), br_fails = e\<rparr> = Some ['''', to_valid k]"
  using json_Decode_Encode [of "[(''key'', k)]" "[''url'', ''key'']" e]
  by (simp add: valid_utf8_ascii)

theorem admin_purge_exact_witness:
  "\<exists>w' b'. admin_ServeHTTP server_Writer memory_Backend '''' sample_store (new_response False) (purge_request ''a'')
      = (Returns w', b') \<and> lookup b' ''a'' = None \<and> lookup b' ''b'' = lookup sample_store ''b''"
proof -
  have "lookup sample_store ''a'' \<noteq> None" by (simp add: lookup_def sample_store_abs)
  then show ?thesis
    using admin_purge_exact [OF sample_store_inv purge_request_simps(1,2), of "new_response False" "''a''"]
      purge_body_decodes [of "''a''" False]
    by (auto simp: Let_def new_response_def valid_utf8_ascii)
qed

text \<open>C28: a key survives the trip through the body of a purge request: printed as JSON by the
  client and read back by the handler it is the key that is deleted, whatever quotes, control
  characters or HTML it holds, but for the bytes that are not UTF-8, which U+FFFD replaces
  (\<open>to_valid\<close>, the identity on valid keys).\<close>

theorem purge_key_roundtrip:
  assumes "mb_inv b" "authenticate authToken r" "r_Method r = ''POST''" "u_Path (r_URL r) = ''/admin/cache/purge''"
    and "r_Body r = Some \<lparr>br_data = json_Encode (JObj [(''key'', JStr k)]), br_fails = e\<rparr>"
  shows "\<exists>w' b'. admin_ServeHTTP server_Writer memory_Backend authToken b w r = (Returns w', b')
    \<and> lookup b' (to_valid k) = None
    \<and> (\<forall>j. lookup b' j = lookup b j \<or> j = to_valid k \<or> pathMatches j (to_valid k))"
  using memory.purge_look [OF assms(1), of r "''''" "to_valid k" server_Writer w] assms(2-5) purge_body_decodes [of k e]
  by (auto simp: admin_ServeHTTP_def body_of_def)

theorem purge_key_roundtrip_witness:
  "\<exists>w' b'. admin_ServeHTTP server_Writer memory_Backend '''' sample_store (new_response False)
      (purge_request [CHR 0xE2, CHR 0x80, CHR 0xA8, CHR 0x22, CHR 0x0A]) = (Returns w', b')
    \<and> (\<forall>j. lookup b' j = lookup sample_store j \<or> j = [CHR 0xE2, CHR 0x80, CHR 0xA8, CHR 0x22, CHR 0x0A]
          \<or> pathMatches j [CHR 0xE2, CHR 0x80, CHR 0xA8, CHR 0x22, CHR 0x0A])"
proof -
  let ?k = "[CHR 0xE2, CHR 0x80, CHR 0xA8, CHR 0x22, CHR 0x0A]"
  have "valid_utf8 ?k" by (simp add: valid_utf8.simps rune_size.simps second_byte_def cont_byte_def)
  moreover have "r_Body (purge_request ?k) = Some \<lparr>br_data = json_Encode (JObj [(''key'', JStr ?k)]), br_fails = False\<rparr>"
    by (simp add: purge_request_def)
  ultimately show ?thesis
    using purge_key_roundtrip [OF sample_store_inv purge_request_simps(1-3), of ?k ?k False "new_response False"]
    unfolding to_valid_id [OF \<open>valid_utf8 ?k\<close>] by blast
qed

text \<open>An entry whose normalised path is not valid UTF-8 (a client gets one with /%25ff, which
  is decoded twice) is never removed by the purge of a key or path, whatever body is sent:
  JSON carries no such string, the decoder puts U+FFFD in its place.\<close>

theorem non_utf8_path_survives:
  fixes q ae :: string
  assumes "mb_inv b" "CHR ''|'' \<notin> set (meth @ host @ Path p)" "\<not> valid_utf8 (Path p)"
    and "u_Path (r_URL r) = ''/admin/cache/purge''"
  defines "j \<equiv> CacheKey meth host p q ae"
  shows "lookup (snd (admin_ServeHTTP server_Writer memory_Backend authToken b w r)) j = lookup b j"
proof (cases "authenticate authToken r \<and> r_Method r = ''POST''")
  case True
  then have eq: "admin_ServeHTTP server_Writer memory_Backend authToken b w r = handleCachePurge server_Writer memory_Backend b w r"
    using assms(4) by (simp add: admin_ServeHTTP_def)
  show ?thesis
  proof (cases "\<exists>url key. json_Decode [''url'', ''key''] (body_of r) = Some [url, key]")
    case True
    then obtain url key where k: "json_Decode [''url'', ''key''] (body_of r) = Some [url, key]" by blast
    define k' where "k' = (if key = '''' then url else key)"
    have v: "valid_utf8 k'" using json_Decode_valid [OF k] by (simp add: k'_def)
    then have "k' \<noteq> j" "\<not> pathMatches j k'"
      using assms(2,3) CacheKey_matches(2) [of meth host p q ae k']
      by (auto simp: j_def CacheKey_parts valid_utf8_split)
    then show ?thesis using memory.purge_look [OF assms(1) k, of server_Writer w] eq k'_def by auto
  next
    case False
    then show ?thesis using eq purge_bad_body [of r server_Writer memory_Backend b w] by simp
  qed
qed (use assms(4) in \<open>auto simp: admin_ServeHTTP_def\<close>)

definition raw_store :: memory_backend where
  "raw_store = push_entry (CacheKey ''GET'' ''h'' ''/%ff'' '''' '''') (sample_entry ''raw'' 5) (NewMemoryBackend 2 100)"

theorem non_utf8_path_survives_witness:
  "lookup raw_store (CacheKey ''GET'' ''h'' ''/%ff'' '''' '''') \<noteq> None
   \<and> lookup (snd (admin_ServeHTTP server_Writer memory_Backend '''' raw_store (new_response False)
         (purge_request (CacheKey ''GET'' ''h'' ''/%ff'' '''' '''')))) (CacheKey ''GET'' ''h'' ''/%ff'' '''' '''')
     = lookup raw_store (CacheKey ''GET'' ''h'' ''/%ff'' '''' '''')"
proof -
  have p: "Path ''/%ff'' = [CHR ''/'', CHR 0xFF]" by code_simp
  have new: "mb_abs (NewMemoryBackend 2 100) = []" by (simp add: mb_abs_def NewMemoryBackend_def)
  have inv: "mb_inv raw_store" unfolding raw_store_def
    by (rule push_entry_inv) (simp_all add: mb_inv_new new sample_entry_def)
  have "lookup raw_store (CacheKey ''GET'' ''h'' ''/%ff'' '''' '''') \<noteq> None"
    by (simp add: lookup_def raw_store_def push_entry_abs new)
  moreover have "\<not> valid_utf8 (Path ''/%ff'')" unfolding p
    by (simp add: valid_utf8.simps rune_size.simps)
  moreover have "CHR ''|'' \<notin> set (''GET'' @ ''h'' @ Path ''/%ff'')" unfolding p by simp
  ultimately show ?thesis using non_utf8_path_survives [OF inv] purge_request_simps(3) by blast
qed

end
