(* ===== verification/UrlResolve.thy ===== *)
theory UrlResolve
  imports Http
begin

text \<open>
  \<open>URL.ResolveReference\<close> of \<open>net/url\<close>, which the cached path of the proxy uses to turn the
  URL of a request into the URL it fetches.
\<close>

definition validEncodedPath :: "string \<Rightarrow> bool" where
  "validEncodedPath s \<longleftrightarrow>
     list_all (\<lambda>c. c \<in> set ''!$&()*+,;=:@[]%'' \<or> c = CHR 0x27 \<or> \<not> shouldEscape EncodePath c) s"

definition EscapedPath :: "url \<Rightarrow> string" where
  "EscapedPath u =
     (if u_RawPath u \<noteq> '''' \<and> validEncodedPath (u_RawPath u) \<and> unescape EncodePath (u_RawPath u) = Some (u_Path u)
      then u_RawPath u
      else if u_Path u = ''*'' then ''*''
      else escape EncodePath (u_Path u))"

text \<open>\<open>setPath\<close>; on a malformed path the source ignores the error and changes nothing.\<close>

definition setPath :: "string \<Rightarrow> url \<Rightarrow> url" where
  "setPath p u =
     (case unescape EncodePath p of
        None \<Rightarrow> u
      | Some path \<Rightarrow>
          u\<lparr>u_Path := path, u_RawPath := (if escape EncodePath path = p then '''' else p)\<rparr>)"

text \<open>The loop of \<open>resolvePath\<close> over the elements; the text written so far is kept without
  its leading slash.\<close>

definition drop_elem :: "string \<Rightarrow> string \<times> bool" where
  "drop_elem str =
     (case Index (rev str) ''/'' of
        None \<Rightarrow> ('''', True)
      | Some i \<Rightarrow> (take (length str - 1 - i) str, False))"

fun resolve_elems :: "string list \<Rightarrow> bool \<Rightarrow> string \<Rightarrow> string" where
  "resolve_elems [] first dst = dst"
| "resolve_elems (elem # elems) first dst =
     (if elem = ''.'' then resolve_elems elems False dst
      else if elem = ''..''
      then (case drop_elem dst of (str, was_none) \<Rightarrow> resolve_elems elems (was_none \<or> first) str)
      else resolve_elems elems False (dst @ (if first then '''' else ''/'') @ elem))"

definition resolvePath :: "string \<Rightarrow> string \<Rightarrow> string" where
  "resolvePath base ref =
     (let full = (if ref = '''' then base
                  else if hd ref \<noteq> CHR ''/''
                  then (case Index (rev base) ''/'' of
                          None \<Rightarrow> ref
                        | Some i \<Rightarrow> take (length base - i) base @ ref)
                  else ref)
      in if full = '''' then ''''
         else
           let elems = Split (CHR ''/'') full;
               out = resolve_elems elems True '''';
               r = ''/'' @ out @ (if last elems = ''.'' \<or> last elems = ''..'' then ''/'' else '''')
           in if length r > 1 \<and> r ! 1 = CHR ''/'' then tl r else r)"

definition ResolveReference :: "url \<Rightarrow> url \<Rightarrow> url" where
  "ResolveReference u ref =
     (let url = (if u_Scheme ref = '''' then ref\<lparr>u_Scheme := u_Scheme u\<rparr> else ref)
      in if u_Scheme ref \<noteq> '''' \<or> u_Host ref \<noteq> '''' \<or> u_User ref \<noteq> None
         then setPath (resolvePath (EscapedPath ref) '''') url
         else if u_Opaque ref \<noteq> ''''
         then url\<lparr>u_User := None, u_Host := '''', u_Path := ''''\<rparr>
         else
           let url = (if u_Path ref = '''' \<and> u_RawQuery ref = '''' then url\<lparr>u_RawQuery := u_RawQuery u\<rparr> else url)
           in if u_Path ref = '''' \<and> u_Opaque u \<noteq> ''''
              then url\<lparr>u_Opaque := u_Opaque u, u_User := None, u_Host := '''', u_Path := ''''\<rparr>
              else setPath (resolvePath (EscapedPath u) (EscapedPath ref))
                     (url\<lparr>u_Host := u_Host u, u_User := u_User u\<rparr>))"

lemma setPath_frame [simp]:
  "u_Host (setPath p u) = u_Host u" "u_Scheme (setPath p u) = u_Scheme u" "u_RawQuery (setPath p u) = u_RawQuery u"
  "u_User (setPath p u) = u_User u" "u_Opaque (setPath p u) = u_Opaque u"
  by (simp_all add: setPath_def split: option.split)

text \<open>Where the fetch goes.\<close>

lemma ResolveReference_origin_form:
  assumes "u_Scheme ref = ''''" "u_Host ref = ''''" "u_User ref = None" "u_Opaque ref = ''''" "u_Path ref \<noteq> ''''"
  shows "u_Host (ResolveReference u ref) = u_Host u" "u_Scheme (ResolveReference u ref) = u_Scheme u"
    "u_User (ResolveReference u ref) = u_User u" "u_Opaque (ResolveReference u ref) = ''''"
    "u_RawQuery (ResolveReference u ref) = u_RawQuery ref"
  using assms by (simp_all add: ResolveReference_def)

lemma ResolveReference_absolute:
  assumes "u_Scheme ref \<noteq> '''' \<or> u_Host ref \<noteq> ''''"
  shows "u_Host (ResolveReference u ref) = u_Host ref"
    "u_Scheme (ResolveReference u ref) = (if u_Scheme ref = '''' then u_Scheme u else u_Scheme ref)"
    "u_User (ResolveReference u ref) = u_User ref" "u_Opaque (ResolveReference u ref) = u_Opaque ref"
    "u_RawQuery (ResolveReference u ref) = u_RawQuery ref"
  using assms by (auto simp: ResolveReference_def Let_def)

end
