(* ===== verification/UrlParse.thy ===== *)
theory UrlParse
  imports UrlResolve
begin

text \<open>
  \<open>URL.String\<close> and \<open>url.Parse\<close> of \<open>net/url\<close>: the cached path of the proxy prints the URL it wants to
  fetch and has \<open>http.NewRequestWithContext\<close> parse it again; start-up parses the base URL of the
  upstream. The record of a URL leaves out the fragment (parsed, checked and dropped, as the
  transport drops it), \<open>ForceQuery\<close> and \<open>OmitHost\<close>, which do not change where a request goes; the user
  information is kept as \<open>Userinfo.String\<close> prints it.
\<close>

section \<open>Hosts and user information\<close>

text \<open>\<open>shouldEscape\<close> in the modes \<open>encodeHost\<close> and \<open>encodeZone\<close>, and in \<open>encodeUserPassword\<close>.\<close>

definition shouldEscape_host :: "char \<Rightarrow> bool" where
  "shouldEscape_host c \<longleftrightarrow> \<not> (unreserved c \<or> c \<in> set ''!$&()*+,;=:[]<>'' \<or> c = CHR 0x27 \<or> c = CHR 0x22)"

definition shouldEscape_user :: "char \<Rightarrow> bool" where
  "shouldEscape_user c \<longleftrightarrow> \<not> (unreserved c \<or> c \<in> set ''$&+,;='')"

definition percent :: "char \<Rightarrow> string" where
  "percent c = [CHR ''%'', upperhex (ord c div 16), upperhex (ord c mod 16)]"

definition escape_host :: "string \<Rightarrow> string" where
  "escape_host s = concat (map (\<lambda>c. if shouldEscape_host c then percent c else [c]) s)"

definition escape_user :: "string \<Rightarrow> string" where
  "escape_user s = concat (map (\<lambda>c. if shouldEscape_user c then percent c else [c]) s)"

text \<open>What \<open>unescape\<close> checks in a host and in a zone on top of well-formed escapes: in a host only
  bytes from 128 on and the percent sign itself may be escaped.\<close>

fun host_text_ok :: "bool \<Rightarrow> string \<Rightarrow> bool" where
  "host_text_ok zone [] = True"
| "host_text_ok zone (CHR ''%'' # cs) =
     (case cs of
        a # b # rest \<Rightarrow>
          ishex a \<and> ishex b
          \<and> (if zone
             then (a = CHR ''2'' \<and> b = CHR ''5'') \<or> char_of (16 * unhex a + unhex b) = CHR '' ''
               \<or> \<not> shouldEscape_host (char_of (16 * unhex a + unhex b))
             else 8 \<le> unhex a \<or> (a = CHR ''2'' \<and> b = CHR ''5''))
          \<and> host_text_ok zone rest
      | _ \<Rightarrow> False)"
| "host_text_ok zone (c # cs) = ((128 \<le> ord c \<or> \<not> shouldEscape_host c) \<and> host_text_ok zone cs)"

definition unescape_host :: "bool \<Rightarrow> string \<Rightarrow> string option" where
  "unescape_host zone s = (if host_text_ok zone s then unescape EncodePath s else None)"

definition validOptionalPort :: "string \<Rightarrow> bool" where
  "validOptionalPort port = (case port of [] \<Rightarrow> True | c # ds \<Rightarrow> c = CHR '':'' \<and> list_all is_digit ds)"

text \<open>\<open>strings.LastIndex\<close> for one byte: what is before the last one and what is after it.\<close>

definition CutLast :: "char \<Rightarrow> string \<Rightarrow> (string \<times> string) option" where
  "CutLast d s = (case Cut d (rev s) of (b, a, found) \<Rightarrow> if found then Some (rev a, rev b) else None)"

definition parseHost :: "string \<Rightarrow> string option" where
  "parseHost host =
     (if HasPrefix host ''[''
      then (case CutLast (CHR '']'') host of
              None \<Rightarrow> None
            | Some (addr, colonPort) \<Rightarrow>
                if \<not> validOptionalPort colonPort then None
                else (case Index addr ''%25'' of
                        None \<Rightarrow> unescape_host False host
                      | Some i \<Rightarrow>
                          Option.bind (unescape_host False (take i addr)) (\<lambda>host1.
                          Option.bind (unescape_host True (drop i addr)) (\<lambda>host2.
                          map_option (\<lambda>host3. host1 @ host2 @ host3) (unescape_host False ('']'' @ colonPort))))))
      else (case CutLast (CHR '':'') host of
              Some (name, port) \<Rightarrow> if \<not> validOptionalPort ('':'' @ port) then None else unescape_host False host
            | None \<Rightarrow> unescape_host False host))"

definition validUserinfo :: "string \<Rightarrow> bool" where
  "validUserinfo s \<longleftrightarrow> list_all (\<lambda>c. unreserved c \<or> c \<in> set '':!$&()*+,;=%@'' \<or> c = CHR 0x27) s"

definition parseUserinfo :: "string \<Rightarrow> string option" where
  "parseUserinfo s =
     (if \<not> validUserinfo s then None
      else (case Cut (CHR '':'') s of
              (name, password, found) \<Rightarrow>
                if found
                then Option.bind (unescape EncodePath name) (\<lambda>name.
                     map_option (\<lambda>password. escape_user name @ '':'' @ escape_user password) (unescape EncodePath password))
                else map_option escape_user (unescape EncodePath name)))"

definition parseAuthority :: "string \<Rightarrow> (string option \<times> string) option" where
  "parseAuthority authority =
     (case CutLast (CHR ''@'') authority of
        None \<Rightarrow> map_option (Pair None) (parseHost authority)
      | Some (userinfo, host) \<Rightarrow>
          Option.bind (parseHost host) (\<lambda>host. map_option (\<lambda>u. (Some u, host)) (parseUserinfo userinfo)))"

section \<open>Parsing\<close>

definition scheme_char :: "char \<Rightarrow> bool" where
  "scheme_char c \<longleftrightarrow> is_digit c \<or> (CHR ''a'' \<le> c \<and> c \<le> CHR ''z'') \<or> (CHR ''A'' \<le> c \<and> c \<le> CHR ''Z'') \<or> c \<in> set ''+-.''"

definition letter :: "char \<Rightarrow> bool" where
  "letter c \<longleftrightarrow> (CHR ''a'' \<le> c \<and> c \<le> CHR ''z'') \<or> (CHR ''A'' \<le> c \<and> c \<le> CHR ''Z'')"

text \<open>\<open>getScheme\<close>: scheme and rest; \<open>None\<close> is a URL that starts with a colon.\<close>

definition getScheme :: "string \<Rightarrow> (string \<times> string) option" where
  "getScheme raw =
     (case raw of
        [] \<Rightarrow> Some ('''', raw)
      | c # _ \<Rightarrow>
          if c = CHR '':'' then None
          else if \<not> letter c then Some ('''', raw)
          else (case dropWhile scheme_char raw of
                  d # rest \<Rightarrow> if d = CHR '':'' then Some (takeWhile scheme_char raw, rest) else Some ('''', raw)
                | [] \<Rightarrow> Some ('''', raw)))"

definition no_url :: url where
  "no_url = \<lparr>u_Scheme = '''', u_Opaque = '''', u_User = None, u_Host = '''', u_Path = '''', u_RawPath = '''', u_RawQuery = ''''\<rparr>"

definition has_ctl :: "string \<Rightarrow> bool" where
  "has_ctl s \<longleftrightarrow> list_ex (\<lambda>c. ord c < 32 \<or> ord c = 127) s"

text \<open>\<open>setPath\<close> with its error.\<close>

definition set_path :: "string \<Rightarrow> url \<Rightarrow> url option" where
  "set_path p u = (if unescape EncodePath p = None then None else Some (setPath p u))"

text \<open>\<open>parse\<close> for a URL that does not come from a request line. A question mark at the very end
  sets \<open>ForceQuery\<close>, which is left out; otherwise it is cut off like any other.\<close>

definition parse_url :: "string \<Rightarrow> url option" where
  "parse_url raw =
     (if has_ctl raw then None
      else if raw = ''*'' then Some (no_url\<lparr>u_Path := ''*''\<rparr>)
      else Option.bind (getScheme raw) (\<lambda>(scheme, rest).
        let scheme = ToLower scheme;
            (rest, query, found) = Cut (CHR ''?'') rest;
            u = no_url\<lparr>u_Scheme := scheme, u_RawQuery := query\<rparr>
        in if \<not> HasPrefix rest ''/'' \<and> scheme \<noteq> '''' then Some (u\<lparr>u_Opaque := rest\<rparr>)
           else if \<not> HasPrefix rest ''/'' \<and> CHR '':'' \<in> set (fst (Cut (CHR ''/'') rest)) then None
           else if HasPrefix rest ''//'' \<and> (scheme \<noteq> '''' \<or> \<not> HasPrefix rest ''///'')
           then (let (authority, path, slash) = Cut (CHR ''/'') (drop 2 rest)
                 in Option.bind (parseAuthority authority) (\<lambda>(user, host).
                      set_path (if slash then CHR ''/'' # path else '''') (u\<lparr>u_User := user, u_Host := host\<rparr>)))
           else set_path rest u))"

definition url_Parse :: "string \<Rightarrow> url option" where
  "url_Parse raw =
     (case Cut (CHR ''#'') raw of
        (u, frag, found) \<Rightarrow>
          Option.bind (parse_url u) (\<lambda>url. if frag \<noteq> '''' \<and> unescape EncodePath frag = None then None else Some url))"

section \<open>Printing\<close>

definition url_String :: "url \<Rightarrow> string" where
  "url_String u =
     (let scheme = (if u_Scheme u \<noteq> '''' then u_Scheme u @ '':'' else '''');
          authority =
            (if u_Scheme u \<noteq> '''' \<or> u_Host u \<noteq> '''' \<or> u_User u \<noteq> None
             then (if u_Host u \<noteq> '''' \<or> u_Path u \<noteq> '''' \<or> u_User u \<noteq> None then ''//'' else '''')
               @ (case u_User u of None \<Rightarrow> '''' | Some ui \<Rightarrow> ui @ ''@'')
               @ escape_host (u_Host u)
             else '''');
          path = EscapedPath u;
          slash = (if path \<noteq> '''' \<and> hd path \<noteq> CHR ''/'' \<and> u_Host u \<noteq> '''' then ''/'' else '''');
          dot = (if scheme @ authority @ slash = '''' \<and> CHR '':'' \<in> set (fst (Cut (CHR ''/'') path)) then ''./'' else '''')
      in scheme
         @ (if u_Opaque u \<noteq> '''' then u_Opaque u else authority @ slash @ dot @ path)
         @ (if u_RawQuery u \<noteq> '''' then ''?'' @ u_RawQuery u else ''''))"

section \<open>What is printed parses again\<close>

text \<open>A registered name or an IPv4 address with an optional port; the hosts the statements are about.\<close>

definition plain_host :: "string \<Rightarrow> bool" where
  "plain_host h \<longleftrightarrow> h \<noteq> '''' \<and> unreserved (hd h) \<and> validOptionalPort (dropWhile unreserved h)"

definition plain_scheme :: "string \<Rightarrow> bool" where
  "plain_scheme s \<longleftrightarrow> s \<noteq> '''' \<and> letter (hd s) \<and> list_all scheme_char s \<and> ToLower s = s"

definition plain_user :: "string option \<Rightarrow> bool" where
  "plain_user u \<longleftrightarrow> (case u of None \<Rightarrow> True | Some ui \<Rightarrow> parseUserinfo ui = Some ui)"

lemma unreserved_facts:
  assumes "unreserved c"
  shows "32 \<le> ord c" "ord c < 127" "c \<notin> set '':/?#@[]%''" "\<not> shouldEscape_host c"
proof -
  show "32 \<le> ord c" "ord c < 127"
    using assms by (auto simp: unreserved_def is_digit_def less_eq_char_def)
  have "\<not> unreserved d" if "d \<in> set '':/?#@[]%''" for d
    using that by (auto simp: unreserved_def is_digit_def less_eq_char_def)
  then show "c \<notin> set '':/?#@[]%''" using assms by blast
  show "\<not> shouldEscape_host c" using assms by (simp add: shouldEscape_host_def)
qed

lemma host_chars:
  assumes "plain_host h" "c \<in> set h"
  shows "unreserved c \<or> c = CHR '':'' \<or> is_digit c"
proof -
  have "c \<in> set (takeWhile unreserved h) \<or> c \<in> set (dropWhile unreserved h)"
    using assms(2) by (metis Un_iff set_append takeWhile_dropWhile_id)
  then show ?thesis using assms(1)
    by (auto simp: plain_host_def validOptionalPort_def list_all_iff dest: set_takeWhileD split: list.splits)
qed

lemma digit_unreserved: "is_digit c \<Longrightarrow> unreserved c"
  by (simp add: unreserved_def)

lemma plain_host_chars: "plain_host h \<Longrightarrow> c \<in> set h \<Longrightarrow> 32 \<le> ord c \<and> ord c < 127 \<and> c \<notin> set ''/?#@[]%'' \<and> \<not> shouldEscape_host c"
proof -
  assume "plain_host h" "c \<in> set h"
  then consider "unreserved c" | "c = CHR '':''" using host_chars digit_unreserved by blast
  then show ?thesis
  proof cases
    case 1
    from unreserved_facts [OF this] show ?thesis by simp
  next
    case 2
    then show ?thesis by (simp add: shouldEscape_host_def)
  qed
qed

lemma host_text_plain: "(\<And>c. c \<in> set h \<Longrightarrow> c \<noteq> CHR ''%'' \<and> \<not> shouldEscape_host c) \<Longrightarrow> host_text_ok zone h"
proof (induction h)
  case (Cons c h)
  then show ?case by (cases "(zone, c # h)" rule: host_text_ok.cases) auto
qed simp

lemma unescape_id: "CHR ''%'' \<notin> set s \<Longrightarrow> unescape EncodePath s = Some s"
  by (induction s) (auto simp add: unescape_plain [OF not_sym])

lemma CutLast_None: "d \<notin> set s \<Longrightarrow> CutLast d s = None"
  by (simp add: CutLast_def Cut_not_found)

lemma CutLast_found: "d \<notin> set b \<Longrightarrow> CutLast d (a @ d # b) = Some (a, b)"
  using Cut_found [of d "rev b" "rev a"] by (simp add: CutLast_def)

lemma parseHost_plain:
  assumes "plain_host h"
  shows "parseHost h = Some h"
proof -
  have un: "unescape_host False h = Some h"
  proof -
    have h: "c \<in> set h \<Longrightarrow> c \<noteq> CHR ''%'' \<and> \<not> shouldEscape_host c" for c using plain_host_chars [OF assms, of c] by auto
    then have "CHR ''%'' \<notin> set h" by blast
    then show ?thesis using host_text_plain [OF h] by (simp add: unescape_host_def unescape_id)
  qed
  have "hd h \<noteq> CHR ''[''" using assms unreserved_facts(3) [of "hd h"] by (auto simp: plain_host_def)
  then have ip: "\<not> HasPrefix h ''[''" by (auto simp: HasPrefix_char)
  have colon: "CHR '':'' \<notin> set (takeWhile unreserved h)"
    using unreserved_facts(3) [of "CHR '':''"] by (auto dest: set_takeWhileD)
  show ?thesis
  proof (cases "dropWhile unreserved h")
    case Nil
    then have "CHR '':'' \<notin> set h" using colon by (metis append_Nil2 takeWhile_dropWhile_id)
    then show ?thesis using un ip by (simp add: parseHost_def CutLast_None)
  next
    case (Cons c ds)
    then have ds: "c = CHR '':''" "list_all is_digit ds" using assms by (auto simp: plain_host_def validOptionalPort_def)
    then have "CHR '':'' \<notin> set ds" by (auto simp: list_all_iff is_digit_def less_eq_char_def)
    then have "CutLast (CHR '':'') h = Some (takeWhile unreserved h, ds)"
      using CutLast_found [of "CHR '':''" ds "takeWhile unreserved h"] Cons ds(1) by (metis takeWhile_dropWhile_id)
    then show ?thesis using un ip ds by (simp add: parseHost_def validOptionalPort_def)
  qed
qed

lemma escape_host_plain: "plain_host h \<Longrightarrow> escape_host h = h"
proof -
  assume "plain_host h"
  then have "\<forall>c \<in> set h. \<not> shouldEscape_host c" using plain_host_chars by blast
  then show ?thesis unfolding escape_host_def by (induction h) auto
qed

text \<open>The path as it is printed.\<close>

lemma EscapedPath_unescapes: "unescape EncodePath (EscapedPath u) = Some (u_Path u)"
  by (auto simp: EscapedPath_def unescape_escape unescape_id)

lemma path_char_facts:
  assumes "c \<in> set ''!$&()*+,;=:@[]%'' \<or> c = CHR 0x27 \<or> \<not> shouldEscape EncodePath c"
  shows "32 \<le> ord c" "ord c < 127" "c \<noteq> CHR ''?''" "c \<noteq> CHR ''#''"
proof -
  have "unreserved c \<or> c \<in> set ''!$&()*+,;=:@[]%/'' \<or> c = CHR 0x27"
    using assms by (auto simp: shouldEscape_def split: if_splits)
  then show "32 \<le> ord c" "ord c < 127" "c \<noteq> CHR ''?''" "c \<noteq> CHR ''#''"
    using unreserved_facts [of c] by auto
qed

abbreviation path_char :: "char \<Rightarrow> bool" where
  "path_char c \<equiv> c \<in> set ''!$&()*+,;=:@[]%'' \<or> c = CHR 0x27 \<or> \<not> shouldEscape EncodePath c"

lemma escape_path_chars: "d \<in> set (escape EncodePath s) \<Longrightarrow> path_char d"
proof -
  assume "d \<in> set (escape EncodePath s)"
  then obtain b where b: "d \<in> set (escape_char EncodePath b)" by (auto simp: escape_def)
  have "ord b div 16 < 16" "ord b mod 16 < 16" using ord_less_256 [of b] by linarith+
  note hex = this [THEN upperhex_unreserved]
  have hex: "\<not> shouldEscape EncodePath (upperhex (ord b div 16))" "\<not> shouldEscape EncodePath (upperhex (ord b mod 16))"
    by (simp_all only: shouldEscape_def hex if_True not_False_eq_True)
  show ?thesis
  proof (cases "shouldEscape EncodePath b")
    case True
    then have "d = CHR ''%'' \<or> d = upperhex (ord b div 16) \<or> d = upperhex (ord b mod 16)"
      using b by (simp add: escape_char_def)
    then show ?thesis using hex by (elim disjE) simp_all
  next
    case False
    then show ?thesis using b by (simp add: escape_char_def)
  qed
qed

lemma EscapedPath_chars:
  assumes "c \<in> set (EscapedPath u)"
  shows "path_char c"
proof -
  consider "EscapedPath u = u_RawPath u" "validEncodedPath (u_RawPath u)" | "EscapedPath u = ''*''"
    | "EscapedPath u = escape EncodePath (u_Path u)"
    unfolding EscapedPath_def by metis
  then show ?thesis
  proof cases
    case 1
    then show ?thesis using assms unfolding validEncodedPath_def list_all_iff by auto
  next
    case 2
    then show ?thesis using assms by simp
  next
    case 3
    then show ?thesis using assms escape_path_chars by simp
  qed
qed

definition printed_path :: "url \<Rightarrow> string" where
  "printed_path u = (if EscapedPath u \<noteq> '''' \<and> hd (EscapedPath u) \<noteq> CHR ''/'' then CHR ''/'' # EscapedPath u else EscapedPath u)"

lemma printed_path_facts:
  "unescape EncodePath (printed_path u) \<noteq> None" "\<not> has_ctl (printed_path u)"
  "CHR ''?'' \<notin> set (printed_path u)" "CHR ''#'' \<notin> set (printed_path u)"
  "printed_path u = '''' \<or> (\<exists>p. printed_path u = CHR ''/'' # p)"
proof -
  show "unescape EncodePath (printed_path u) \<noteq> None"
    by (simp add: printed_path_def EscapedPath_unescapes unescape_plain)
  have c: "32 \<le> ord c \<and> ord c < 127 \<and> c \<noteq> CHR ''?'' \<and> c \<noteq> CHR ''#''" if "c \<in> set (printed_path u)" for c
  proof (cases "c = CHR ''/''")
    case False
    then have "c \<in> set (EscapedPath u)" using that by (auto simp: printed_path_def split: if_splits)
    from path_char_facts [OF EscapedPath_chars [OF this]] show ?thesis by blast
  qed simp
  show "\<not> has_ctl (printed_path u)" using c by (force simp: has_ctl_def list_ex_iff)
  show "CHR ''?'' \<notin> set (printed_path u)" "CHR ''#'' \<notin> set (printed_path u)" using c by blast+
  show "printed_path u = '''' \<or> (\<exists>p. printed_path u = CHR ''/'' # p)"
    by (cases "EscapedPath u") (auto simp: printed_path_def)
qed

lemma user_chars:
  assumes "plain_user (Some ui)" "c \<in> set ui"
  shows "32 \<le> ord c \<and> ord c < 127 \<and> c \<notin> set ''/?#''"
proof -
  have "validUserinfo ui" using assms(1) by (auto simp: plain_user_def parseUserinfo_def split: if_splits)
  then have "unreserved c \<or> c \<in> set '':!$&()*+,;=%@'' \<or> c = CHR 0x27" using assms(2) by (simp add: validUserinfo_def list_all_iff)
  then show ?thesis using unreserved_facts [of c] by (elim disjE) auto
qed

lemma scheme_char_facts:
  assumes "scheme_char c"
  shows "32 \<le> ord c" "ord c < 127" "c \<notin> set '':/?#*''"
proof -
  show "32 \<le> ord c" "ord c < 127"
    using assms by (auto simp: scheme_char_def is_digit_def less_eq_char_def)
  have "\<not> scheme_char d" if "d \<in> set '':/?#*''" for d
    using that by (auto simp: scheme_char_def is_digit_def less_eq_char_def)
  then show "c \<notin> set '':/?#*''" using assms by blast
qed

lemma Cut_append: "d \<notin> set a \<Longrightarrow> Cut d (a @ b) = (case Cut d b of (x, y, found) \<Rightarrow> (a @ x, y, found))"
  by (induction a) (auto split: prod.split)

lemma has_ctl_append [simp]: "has_ctl (a @ b) \<longleftrightarrow> has_ctl a \<or> has_ctl b"
  by (auto simp: has_ctl_def)

definition authority_text :: "url \<Rightarrow> string" where
  "authority_text u = (case u_User u of None \<Rightarrow> '''' | Some ui \<Rightarrow> ui @ ''@'') @ u_Host u"

lemma authority_facts:
  assumes "plain_host (u_Host u)" "plain_user (u_User u)"
  shows "parseAuthority (authority_text u) = Some (u_User u, u_Host u)"
    "\<And>c. c \<in> set (authority_text u) \<Longrightarrow> 32 \<le> ord c \<and> ord c < 127 \<and> c \<notin> set ''/?#''"
proof -
  have at: "CHR ''@'' \<notin> set (u_Host u)" using plain_host_chars [OF assms(1), of "CHR ''@''"] by auto
  show "parseAuthority (authority_text u) = Some (u_User u, u_Host u)"
  proof (cases "u_User u")
    case None
    then show ?thesis using at by (simp add: authority_text_def parseAuthority_def CutLast_None parseHost_plain [OF assms(1)])
  next
    case (Some ui)
    have "CutLast (CHR ''@'') (ui @ CHR ''@'' # u_Host u) = Some (ui, u_Host u)" by (rule CutLast_found [OF at])
    then show ?thesis using assms(2) Some
      by (simp add: authority_text_def parseAuthority_def parseHost_plain [OF assms(1)] plain_user_def)
  qed
  fix c assume "c \<in> set (authority_text u)"
  then consider ui where "u_User u = Some ui" "c \<in> set ui" | "c = CHR ''@''" | "c \<in> set (u_Host u)"
    by (cases "u_User u") (auto simp: authority_text_def)
  then show "32 \<le> ord c \<and> ord c < 127 \<and> c \<notin> set ''/?#''"
  proof cases
    case 1
    then show ?thesis using user_chars assms(2) by metis
  next
    case 3
    then show ?thesis using plain_host_chars [OF assms(1)] by auto
  qed simp
qed

lemma url_String_plain:
  assumes "plain_scheme (u_Scheme u)" "u_Opaque u = ''''" "plain_host (u_Host u)"
  shows "url_String u = u_Scheme u @ '':'' @ ''//'' @ authority_text u @ printed_path u
    @ (if u_RawQuery u \<noteq> '''' then ''?'' @ u_RawQuery u else '''')"
proof -
  have "u_Scheme u \<noteq> ''''" "u_Host u \<noteq> ''''" using assms by (simp_all add: plain_scheme_def plain_host_def)
  then show ?thesis using assms(2)
    by (simp add: url_String_def Let_def escape_host_plain [OF assms(3)] authority_text_def printed_path_def split: option.split)
qed

text \<open>Parsing what was printed gives scheme, user and host back, the path but for a leading slash, and
  the query up to a number sign, where the fragment starts.\<close>

theorem url_Parse_String:
  assumes "plain_scheme (u_Scheme u)" "u_Opaque u = ''''" "plain_host (u_Host u)" "plain_user (u_User u)"
    and "Cut (CHR ''#'') (u_RawQuery u) = (query, frag, found)"
  shows "url_Parse (url_String u) =
    (if has_ctl query \<or> (frag \<noteq> '''' \<and> unescape EncodePath frag = None) then None
     else Some (setPath (printed_path u)
       (no_url\<lparr>u_Scheme := u_Scheme u, u_RawQuery := query, u_User := u_User u, u_Host := u_Host u\<rparr>)))"
proof -
  let ?s = "u_Scheme u" and ?a = "authority_text u" and ?p = "printed_path u"
  let ?q = "if u_RawQuery u \<noteq> '''' then ''?'' @ query else ''''"
  let ?front = "?s @ '':'' @ ''//'' @ ?a @ ?p"
  note a = authority_facts [OF assms(3,4)] and p = printed_path_facts [of u]
  have s: "?s \<noteq> ''''" "letter (hd ?s)" "\<forall>c \<in> set ?s. scheme_char c" "ToLower ?s = ?s"
    using assms(1) by (auto simp: plain_scheme_def list_all_iff)
  have hash: "CHR ''#'' \<notin> set ?front" using s(3) scheme_char_facts(3) [of "CHR ''#''"] a(2) [of "CHR ''#''"] p(4) by auto
  have cut: "Cut (CHR ''#'') (url_String u) = (?front @ ?q, frag, found)"
    using assms(5) Cut_append [OF hash, of "if u_RawQuery u \<noteq> '''' then ''?'' @ u_RawQuery u else ''''"]
    by (auto simp: url_String_plain [OF assms(1-3)])
  have ctl: "has_ctl (?front @ ?q) \<longleftrightarrow> has_ctl query"
  proof -
    have "\<not> has_ctl ?s" "\<not> has_ctl ?a"
      using s(3) scheme_char_facts(1,2) a(2) by (force simp: has_ctl_def list_ex_iff)+
    moreover have "u_RawQuery u = '''' \<Longrightarrow> query = ''''" using assms(5) by simp
    ultimately show ?thesis using p(2) by (auto simp: has_ctl_def)
  qed
  have hd: "hd (?front @ ?q) = hd ?s" "?front @ ?q \<noteq> ''''" using s(1) by (cases ?s; simp)+
  have star: "?front @ ?q \<noteq> ''*''" using s(1,3) scheme_char_facts(3) [of "CHR ''*''"] by (cases ?s) auto
  have scheme: "getScheme (?front @ ?q) = Some (?s, ''//'' @ ?a @ ?p @ ?q)"
  proof -
    have colon: "\<not> scheme_char (CHR '':'')" using scheme_char_facts(3) [of "CHR '':''"] by auto
    then have "dropWhile scheme_char (?front @ ?q) = CHR '':'' # ''//'' @ ?a @ ?p @ ?q"
      "takeWhile scheme_char (?front @ ?q) = ?s"
      using s(3) by (simp_all add: dropWhile_append2 takeWhile_append2)
    moreover obtain c t where t: "?s = c # t" using s(1) by (cases ?s) auto
    moreover have "c \<noteq> CHR '':''" using s(3) t colon by auto
    ultimately show ?thesis using s(2) by (simp add: getScheme_def)
  qed
  have quest: "CHR ''?'' \<notin> set (''//'' @ ?a @ ?p)" using a(2) [of "CHR ''?''"] p(3) by auto
  have "\<exists>f. Cut (CHR ''?'') ?q = ('''', query, f)" using assms(5) by (cases "u_RawQuery u = ''''") auto
  then obtain f where query: "Cut (CHR ''?'') (''//'' @ ?a @ ?p @ ?q) = (''//'' @ ?a @ ?p, query, f)"
    using Cut_append [OF quest, of ?q] unfolding append_assoc by (auto simp del: append_Cons)
  have slash: "CHR ''/'' \<notin> set ?a" using a(2) [of "CHR ''/''"] by auto
  have path: "(case Cut (CHR ''/'') (?a @ ?p) of (authority, path, slash) \<Rightarrow>
      Option.bind (parseAuthority authority) (\<lambda>(user, host). set_path (if slash then CHR ''/'' # path else '''') (U user host)))
    = Some (setPath ?p (U (u_User u) (u_Host u)))" for U
    using p(5) p(1) by (auto simp: Cut_append [OF slash] a(1) set_path_def)
  have "parse_url (?front @ ?q) = (if has_ctl query then None else Some (setPath ?p
      (no_url\<lparr>u_Scheme := ?s, u_RawQuery := query, u_User := u_User u, u_Host := u_Host u\<rparr>)))"
  proof (cases "has_ctl query")
    case False
    have "HasPrefix (''//'' @ ?a @ ?p) ''/''" "HasPrefix (''//'' @ ?a @ ?p) ''//''" "drop 2 (''//'' @ ?a @ ?p) = ?a @ ?p"
      by (simp_all add: HasPrefix_def)
    then show ?thesis
      unfolding parse_url_def ctl if_not_P [OF False] if_not_P [OF star] scheme bind.bind_lunit prod.case Let_def s(4) query
      using s(1) path by simp
  qed (simp only: parse_url_def ctl if_True)
  then show ?thesis by (simp add: url_Parse_def cut)
qed

text \<open>The URL a fetch is built from, for a target and a client URL of the usual shape: an origin form
  request goes to the target, any other one to its own host.\<close>

definition plain_target :: "url \<Rightarrow> bool" where
  "plain_target u \<longleftrightarrow> plain_scheme (u_Scheme u) \<and> plain_host (u_Host u) \<and> plain_user (u_User u)"

definition origin_form :: "url \<Rightarrow> bool" where
  "origin_form u \<longleftrightarrow> u_Scheme u = '''' \<and> u_Host u = '''' \<and> u_User u = None \<and> u_Opaque u = '''' \<and> u_Path u \<noteq> ''''"

definition absolute_form :: "url \<Rightarrow> bool" where
  "absolute_form u \<longleftrightarrow> plain_target u \<and> u_Opaque u = ''''"

lemma resolved_Parse_String:
  assumes "plain_target target" "origin_form ref \<or> absolute_form ref"
    and "Cut (CHR ''#'') (u_RawQuery ref) = (query, frag, found)"
  defines "u \<equiv> if origin_form ref then target else ref"
  shows "url_Parse (url_String (ResolveReference target ref)) =
    (if has_ctl query \<or> (frag \<noteq> '''' \<and> unescape EncodePath frag = None) then None
     else Some (setPath (printed_path (ResolveReference target ref))
       (no_url\<lparr>u_Scheme := u_Scheme u, u_RawQuery := query, u_User := u_User u, u_Host := u_Host u\<rparr>)))"
proof -
  let ?v = "ResolveReference target ref"
  have v: "u_Scheme ?v = u_Scheme u \<and> u_Host ?v = u_Host u \<and> u_User ?v = u_User u \<and> u_Opaque ?v = ''''
    \<and> u_RawQuery ?v = u_RawQuery ref"
  proof (cases "origin_form ref")
    case True
    then show ?thesis using ResolveReference_origin_form [of ref target] by (simp add: u_def origin_form_def)
  next
    case False
    then have "u_Host ref \<noteq> ''''" "u_Scheme ref \<noteq> ''''" "u_Opaque ref = ''''"
      using assms(2) by (auto simp: absolute_form_def plain_target_def plain_host_def plain_scheme_def)
    with False show ?thesis using ResolveReference_absolute [of ref target] by (simp add: u_def)
  qed
  have "plain_target u" using assms(1,2) by (auto simp: u_def absolute_form_def)
  then show ?thesis using url_Parse_String [of ?v query frag found] v assms(3) by (simp add: plain_target_def)
qed

lemma resolved_parses:
  assumes "plain_target target" "origin_form ref" "CHR ''#'' \<notin> set (u_RawQuery ref)" "\<not> has_ctl (u_RawQuery ref)"
  shows "\<exists>u. url_Parse (url_String (ResolveReference target ref)) = Some u"
  using resolved_Parse_String [OF assms(1) disjI1 [OF assms(2)] Cut_not_found [OF assms(3)]] assms(4) by simp

end
