(* ===== verification/ReverseProxy.thy ===== *)
theory ReverseProxy
  imports UrlParse GoNet
begin

text \<open>
  What \<open>proxy/handler.go\<close> uses of \<open>httputil.NewSingleHostReverseProxy\<close>: the request it
  sends on. The target's scheme, host, path and query are put in front of the client's, the
  hop-by-hop headers and those the client lists in \<open>Connection\<close> are dropped, and the client
  address is appended to X-Forwarded-For. Also the requests and answers of a transport.
\<close>

section \<open>Requests and answers of the transport\<close>

record out_request =
  o_Method :: string
  o_URL :: url
  o_Host :: string
  o_Header :: header
  o_Body :: "body_reader option"
  o_ContentLength :: int

datatype origin_result = OriginResponse int header body_reader | OriginError

section \<open>The director\<close>

definition singleJoiningSlash :: "string \<Rightarrow> string \<Rightarrow> string" where
  "singleJoiningSlash a b =
     (if HasSuffix a ''/'' \<and> HasPrefix b ''/'' then a @ drop 1 b
      else if \<not> HasSuffix a ''/'' \<and> \<not> HasPrefix b ''/'' then a @ ''/'' @ b
      else a @ b)"

definition joinURLPath :: "url \<Rightarrow> url \<Rightarrow> string \<times> string" where
  "joinURLPath a b =
     (if u_RawPath a = '''' \<and> u_RawPath b = '''' then (singleJoiningSlash (u_Path a) (u_Path b), '''')
      else
        let apath = EscapedPath a; bpath = EscapedPath b
        in if HasSuffix apath ''/'' \<and> HasPrefix bpath ''/'' then (u_Path a @ drop 1 (u_Path b), apath @ drop 1 bpath)
           else if \<not> HasSuffix apath ''/'' \<and> \<not> HasPrefix bpath ''/''
           then (u_Path a @ ''/'' @ u_Path b, apath @ ''/'' @ bpath)
           else (u_Path a @ u_Path b, apath @ bpath))"

definition rewriteRequestURL :: "url \<Rightarrow> url \<Rightarrow> url" where
  "rewriteRequestURL target u =
     (case joinURLPath target u of
        (path, raw) \<Rightarrow>
          u\<lparr>u_Scheme := u_Scheme target, u_Host := u_Host target, u_Path := path, u_RawPath := raw,
            u_RawQuery := (if u_RawQuery target = '''' \<or> u_RawQuery u = '''' then u_RawQuery target @ u_RawQuery u
                           else u_RawQuery target @ ''&'' @ u_RawQuery u)\<rparr>)"

section \<open>Headers\<close>

definition trim_set :: "char set \<Rightarrow> string \<Rightarrow> string" where
  "trim_set cs s = rev (dropWhile (\<lambda>c. c \<in> cs) (rev (dropWhile (\<lambda>c. c \<in> cs) s)))"

definition header_Del :: "string \<Rightarrow> header \<Rightarrow> header" where
  "header_Del k h = AList.delete (CanonicalHeaderKey k) h"

definition header_Values :: "header \<Rightarrow> string \<Rightarrow> string list" where
  "header_Values h k = (case map_of h k of None \<Rightarrow> [] | Some vs \<Rightarrow> vs)"

text \<open>\<open>httpguts.HeaderValuesContainsToken\<close>.\<close>

definition tokenEqual :: "string \<Rightarrow> string \<Rightarrow> bool" where
  "tokenEqual s t \<longleftrightarrow> list_all (\<lambda>c. ord c < 128) s \<and> ToLower s = ToLower t"

definition HeaderValuesContainsToken :: "string list \<Rightarrow> string \<Rightarrow> bool" where
  "HeaderValuesContainsToken vs token \<longleftrightarrow>
     list_ex (\<lambda>v. list_ex (\<lambda>t. tokenEqual (trim_set {CHR '' '', CHR 0x09} t) token) (Split (CHR '','') v)) vs"

definition upgradeType :: "header \<Rightarrow> string" where
  "upgradeType h =
     (if HeaderValuesContainsToken (header_Values h ''Connection'') ''Upgrade'' then header_Get h ''Upgrade'' else '''')"

definition is_print :: "string \<Rightarrow> bool" where
  "is_print s \<longleftrightarrow> list_all (\<lambda>c. 32 \<le> ord c \<and> ord c \<le> 126) s"

definition hopHeaders :: "string list" where
  "hopHeaders = [''Connection'', ''Proxy-Connection'', ''Keep-Alive'', ''Proxy-Authenticate'', ''Proxy-Authorization'',
     ''Te'', ''Trailer'', ''Transfer-Encoding'', ''Upgrade'']"

text \<open>The names the client lists in its Connection headers.\<close>

definition connection_options :: "header \<Rightarrow> string list" where
  "connection_options h =
     filter (\<lambda>s. s \<noteq> '''')
       (map (trim_set {CHR '' '', CHR 0x09, CHR 0x0A, CHR 0x0D})
         (concat (map (Split (CHR '','')) (header_Values h ''Connection''))))"

definition removeHopByHopHeaders :: "header \<Rightarrow> header" where
  "removeHopByHopHeaders h = fold header_Del hopHeaders (fold header_Del (connection_options h) h)"

text \<open>The headers sent on, from the client's request as the handler left it.\<close>

definition proxied_headers :: "string \<Rightarrow> header \<Rightarrow> header" where
  "proxied_headers remoteAddr h =
     (let upType = upgradeType h;
          g = removeHopByHopHeaders h;
          g = (if HeaderValuesContainsToken (header_Values h ''Te'') ''trailers'' then header_Set ''Te'' ''trailers'' g else g);
          g = (if upType \<noteq> '''' then header_Set ''Upgrade'' upType (header_Set ''Connection'' ''Upgrade'' g) else g);
          g = (case SplitHostPort remoteAddr of
                 None \<Rightarrow> g
               | Some (clientIP, port) \<Rightarrow>
                   (case map_of g ''X-Forwarded-For'' of
                      None \<Rightarrow> header_Set ''X-Forwarded-For'' clientIP g
                    | Some prior \<Rightarrow>
                        header_Set ''X-Forwarded-For''
                          (if prior = [] then clientIP else Join prior '', '' @ '', '' @ clientIP) g))
      in if map_of g ''User-Agent'' = None then header_Set ''User-Agent'' '''' g else g)"

text \<open>The request the reverse proxy sends; \<open>None\<close> when the client asks for an unprintable
  protocol, which goes to the error handler.\<close>

definition proxied_request :: "url \<Rightarrow> request \<Rightarrow> out_request option" where
  "proxied_request target r =
     (if \<not> is_print (upgradeType (r_Header r)) then None
      else Some \<lparr>o_Method = r_Method r, o_URL = rewriteRequestURL target (r_URL r), o_Host = r_Host r,
                 o_Header = proxied_headers (r_RemoteAddr r) (r_Header r),
                 o_Body = (if r_ContentLength r = 0 then None else r_Body r),
                 o_ContentLength = r_ContentLength r\<rparr>)"

text \<open>\<open>NewRequestWithContext\<close> takes the host from the URL, without an empty port.\<close>

definition removeEmptyPort :: "string \<Rightarrow> string" where
  "removeEmptyPort host = (if HasSuffix host '':'' then butlast host else host)"

end
