(* ===== verification/ProxyHandler.thy ===== *)
theory ProxyHandler
  imports Middleware Admin ReverseProxy
begin

text \<open>
  \<open>proxy/internal/proxy/handler.go\<close>: the request handler that puts firewall, rate limiter,
  cache and origin together. What lies outside the repository is in the record \<open>world_lib\<close>:
  the transport, the token bucket, the clock, and the call already running under a key in the
  single-flight group of \<open>golang.org/x/sync/singleflight\<close>. Cache, limiter and emitted events are
  the state.
\<close>

section \<open>State and surroundings\<close>

record 'l proxy_state =
  ps_cache :: memory_backend
  ps_limiter :: "'l limiter option"
  ps_events :: "event list"

definition emit :: "event \<Rightarrow> 'l proxy_state \<Rightarrow> 'l proxy_state" where
  "emit e s = s\<lparr>ps_events := ps_events s @ [e]\<rparr>"

definition emits :: "event list \<Rightarrow> 'l proxy_state \<Rightarrow> 'l proxy_state" where
  "emits es s = s\<lparr>ps_events := ps_events s @ es\<rparr>"

record proxy_handler =
  ph_cfg :: config
  ph_cachePolicy :: policy
  ph_wafEngine :: "engine option"
  ph_upstreamName :: string  \<comment> \<open>of the upstream the error handler reports\<close>
  ph_targetURL :: url

text \<open>What a call under way in the single-flight group returns.\<close>

datatype sf_result = SfEntry cache_entry | SfError

record 'l world_lib =

  wl_RoundTrip :: "out_request \<Rightarrow> origin_result"
  wl_rate :: "'l rate_lib"
  wl_clock :: "nat \<Rightarrow> instant"  \<comment> \<open>the readings of the clock during one request\<close>
  wl_inflight :: "string \<Rightarrow> sf_result option"  \<comment> \<open>what the running call for a key returns\<close>

section \<open>Construction\<close>

definition NewHandler ::
  "config \<Rightarrow> policy \<Rightarrow> engine option \<Rightarrow> proxy_handler option" where
  "NewHandler cfg cachePolicy wafEngine =
     (case find (\<lambda>u. up_Name u = DefaultUpstream (Routing cfg)) (Upstreams cfg) of
        None \<Rightarrow> None
      | Some upstream \<Rightarrow>
          (case url_Parse (BaseURL upstream) of
             None \<Rightarrow> None
           | Some targetURL \<Rightarrow>
               Some \<lparr>ph_cfg = cfg, ph_cachePolicy = cachePolicy, ph_wafEngine = wafEngine,
                     ph_upstreamName = up_Name upstream, ph_targetURL = targetURL\<rparr>))"

text \<open>The error handler of the reverse proxy.\<close>

definition ErrorHandler ::
  "'w ResponseWriter \<Rightarrow> proxy_handler \<Rightarrow> ('w, 'l proxy_state) handler" where
  "ErrorHandler W h w r s =
     (let s = emit (UpstreamErrorsInc (ph_upstreamName h) ''proxy_error'') s;
          w = wo_Set W ''Content-Type'' ''application/json'' w;
          w = wo_Set W ''X-Request-ID'' (GetRequestID r) w
      in finish (respond W 502 ''{\"error\":\"bad gateway\",\"detail\":\"upstream unreachable\"}'' w) r s)"

section \<open>Helpers\<close>

definition setDebugHeaders :: "'w ResponseWriter \<Rightarrow> proxy_handler \<Rightarrow> string \<Rightarrow> 'w \<Rightarrow> 'w" where
  "setDebugHeaders W h status w =
     (if DebugHeaders (CacheCfg (ph_cfg h)) then wo_Set W ''X-Edge-Cache'' status w else w)"

definition add_headers :: "'w ResponseWriter \<Rightarrow> header \<Rightarrow> 'w \<Rightarrow> 'w" where
  "add_headers W hs w = fold (\<lambda>(k, vs) w. fold (\<lambda>v w. wo_Add W k v w) vs w) hs w"

definition writeEntry :: "'w ResponseWriter \<Rightarrow> cache_entry \<Rightarrow> 'w \<Rightarrow> 'w call" where
  "writeEntry W entry w = respond W (e_StatusCode entry) (e_Body entry) (add_headers W (e_Headers entry) w)"

definition serveCached :: "'w ResponseWriter \<Rightarrow> proxy_handler \<Rightarrow> cache_entry \<Rightarrow> 'w \<Rightarrow> 'w call" where
  "serveCached W h entry w = writeEntry W entry (setDebugHeaders W h StatusHIT w)"

definition out_headers :: "header \<Rightarrow> header" where
  "out_headers h = fold (\<lambda>(k, vs) acc. AList.update k vs acc) h []"

text \<open>The request to the origin, for the URL as it is printed and parsed again; \<open>None\<close> when it does
  not parse.\<close>

definition origin_request :: "proxy_handler \<Rightarrow> request \<Rightarrow> out_request option" where
  "origin_request h r =
     (let originURL = ResolveReference (ph_targetURL h) (r_URL r)
      in map_option (\<lambda>outURL. \<lparr>o_Method = r_Method r, o_URL = outURL\<lparr>u_Host := removeEmptyPort (u_Host outURL)\<rparr>,
           o_Host = removeEmptyPort (u_Host outURL), o_Header = out_headers (r_Header r), o_Body = r_Body r,
           o_ContentLength = 0\<rparr>) (url_Parse (url_String originURL)))"

definition fetchFromOrigin ::
  "'l world_lib \<Rightarrow> proxy_handler \<Rightarrow> request \<Rightarrow> 'l proxy_state \<Rightarrow> cache_entry option \<times> 'l proxy_state" where
  "fetchFromOrigin L h r s =
     (case origin_request h r of
           None \<Rightarrow> (None, s)
         | Some outReq \<Rightarrow>
             let dflt = DefaultUpstream (Routing (ph_cfg h));
                 s = emit (UpstreamDurationObserve dflt) s
             in (case wl_RoundTrip L outReq of
                   OriginError \<Rightarrow> (None, emit (UpstreamErrorsInc dflt ''roundtrip_error'') s)
                 | OriginResponse code hs body \<Rightarrow>
                     (case read_limited (MaxRequestBodyBytes (Security (ph_cfg h))) body of
                        None \<Rightarrow> (None, s)
                      | Some bodyBytes \<Rightarrow>
                          (Some \<lparr>e_Key = '''', e_StatusCode = code, e_Headers = hs, e_Body = bodyBytes,
                                 e_StoredAt = 0, e_TTL = 0, e_Size = int (length bodyBytes)\<rparr>, s))))"

text \<open>Reading the body to its end and putting it back; a failed read is ignored.\<close>

definition restore_body :: "request \<Rightarrow> request" where
  "restore_body r =
     (case r_Body r of
        None \<Rightarrow> r
      | Some b \<Rightarrow>
          (case read_all b of
             None \<Rightarrow> r\<lparr>r_Body := Some \<lparr>br_data = '''', br_fails = True\<rparr>\<rparr>
           | Some body \<Rightarrow> r\<lparr>r_Body := Some \<lparr>br_data = body, br_fails = False\<rparr>\<rparr>))"

text \<open>\<open>ServeHTTP\<close> of the reverse proxy. The writer it is handed, the one of the access log,
  cannot be hijacked, so a switch of protocols (101) ends in the error handler, twice when
  the origin names an unprintable protocol. A body that breaks off makes it panic.\<close>

definition ReverseProxy_ServeHTTP ::
  "'w ResponseWriter \<Rightarrow> 'l world_lib \<Rightarrow> proxy_handler \<Rightarrow> ('w, 'l proxy_state) handler" where
  "ReverseProxy_ServeHTTP W L h w r s =
     (case proxied_request (ph_targetURL h) r of
        None \<Rightarrow> ErrorHandler W h w r s
      | Some outreq \<Rightarrow>
          (case wl_RoundTrip L outreq of
             OriginError \<Rightarrow> ErrorHandler W h w r s
           | OriginResponse code hs body \<Rightarrow>
               if code = 101
               then
                 (case ErrorHandler W h w r s of
                    Returned w r s \<Rightarrow> if is_print (upgradeType hs) then Returned w r s else ErrorHandler W h w r s
                  | out \<Rightarrow> out)
               else
                 finish (and_then (wo_WriteHeader W code (add_headers W (removeHopByHopHeaders hs) w)) (\<lambda>w.
                   let w = (if br_data body = '''' then w else wo_Write W (br_data body) w)
                   in if br_fails body then Panics w else Returns w)) r s))"

definition proxyToOrigin ::
  "'w ResponseWriter \<Rightarrow> 'l world_lib \<Rightarrow> proxy_handler \<Rightarrow> ('w, 'l proxy_state) handler" where
  "proxyToOrigin W L h w r s =
     (let r = restore_body r
      in case ReverseProxy_ServeHTTP W L h w r s of
           Returned w r s \<Rightarrow> Returned w r (emit (UpstreamDurationObserve (DefaultUpstream (Routing (ph_cfg h)))) s)
         | out \<Rightarrow> out)"

section \<open>The cached path\<close>

text \<open>The function the single-flight group runs: its result, or \<open>None\<close> when \<open>Set\<close> hangs.\<close>

definition fill_cache ::
  "'l world_lib \<Rightarrow> proxy_handler \<Rightarrow> string \<Rightarrow> request \<Rightarrow> 'l proxy_state
     \<Rightarrow> (sf_result \<times> 'l proxy_state) option" where
  "fill_cache L h cacheKey r s =
     (let (found, c) = Get (wl_clock L 2) cacheKey (ps_cache s);
          s = s\<lparr>ps_cache := c\<rparr>
      in case found of
           Some entry \<Rightarrow> Some (SfEntry entry, s)
         | None \<Rightarrow>
             (case fetchFromOrigin L h r s of
                (None, s) \<Rightarrow> Some (SfError, s)
              | (Some entry, s) \<Rightarrow>
                  if fst (IsResponseStorable (ph_cachePolicy h) (e_StatusCode entry) (e_Headers entry))
                  then
                    let ttl = DetermineTTL (ph_cachePolicy h) (u_Path (r_URL r)) (e_Headers entry);
                        entry = entry\<lparr>e_Key := cacheKey, e_TTL := ttl, e_StoredAt := wl_clock L 3\<rparr>
                    in (case SetEntry cacheKey entry (ps_cache s) of
                          None \<Rightarrow> None
                        | Some c \<Rightarrow>
                            let s = s\<lparr>ps_cache := c\<rparr>;
                                s = emits [CacheOperationsInc ''store'',
                                           CacheGauges (st_SizeBytes (Stats c)) (st_Entries (Stats c))] s
                            in Some (SfEntry entry, s))
                  else Some (SfEntry entry, s)))"

text \<open>\<open>sfGroup.Do\<close>: wait for the running call under the key, or run the function.\<close>

definition sf_Do ::
  "'l world_lib \<Rightarrow> proxy_handler \<Rightarrow> string \<Rightarrow> request \<Rightarrow> 'l proxy_state
     \<Rightarrow> (sf_result \<times> 'l proxy_state) option" where
  "sf_Do L h cacheKey r s =
     (case wl_inflight L cacheKey of
        Some res \<Rightarrow> Some (res, s)
      | None \<Rightarrow> fill_cache L h cacheKey r s)"

definition request_key :: "request \<Rightarrow> string" where
  "request_key r =
     CacheKey (r_Method r) (r_Host r) (u_Path (r_URL r)) (u_RawQuery (r_URL r))
       (header_Get (r_Header r) ''Accept-Encoding'')"

definition handleWithCache ::
  "'w ResponseWriter \<Rightarrow> 'l world_lib \<Rightarrow> proxy_handler \<Rightarrow> ('w, 'l proxy_state) handler" where
  "handleWithCache W L h w r s =
     (if \<not> fst (IsRequestCacheable (ph_cachePolicy h) r) \<or> header_Get (r_Header r) ''X-OpenFlare-No-Cache'' = ''1''
      then
        let s = s\<lparr>ps_cache := IncrementBypasses (ps_cache s)\<rparr>;
            s = emit (CacheOperationsInc ''bypass'') s
        in proxyToOrigin W L h (setDebugHeaders W h StatusBYPASS w) r s
      else
        let cacheKey = request_key r;
            (found, c) = Get (wl_clock L 1) cacheKey (ps_cache s);
            s = s\<lparr>ps_cache := c\<rparr>
        in case found of
             Some entry \<Rightarrow> finish (serveCached W h entry w) r (emit (CacheOperationsInc ''hit'') s)
           | None \<Rightarrow>
               (case sf_Do L h cacheKey r (emit (CacheOperationsInc ''miss'') s) of
                  None \<Rightarrow> Hangs
                | Some (SfError, s) \<Rightarrow>
                    let s = emit (UpstreamErrorsInc (DefaultUpstream (Routing (ph_cfg h))) ''fetch_error'') s;
                        w = wo_Set W ''X-Request-ID'' (GetRequestID r) w
                    in finish (http_Error W ''{\"error\":\"upstream error\"}'' 502 w) r s
                | Some (SfEntry entry, s) \<Rightarrow>
                    finish (writeEntry W entry (setDebugHeaders W h StatusMISS w)) r s))"

section \<open>The pipeline\<close>

definition answer :: "'w ResponseWriter \<Rightarrow> string \<Rightarrow> string \<Rightarrow> 'w \<Rightarrow> 'w" where
  "answer W ctype body w = wo_Write W body (wo_Set W ''Content-Type'' ctype w)"

definition normalize_request :: "request \<Rightarrow> request" where
  "normalize_request r =
     (let u = (r_URL r)\<lparr>u_Path := Path (u_Path (r_URL r))\<rparr>;
          u = (if u_RawQuery u \<noteq> '''' then u\<lparr>u_RawQuery := Query (u_RawQuery u)\<rparr> else u)
      in r\<lparr>r_URL := u\<rparr>)"

text \<open>Steps 5 and 6: forwarded headers, then cache or origin.\<close>

definition forward ::
  "'w ResponseWriter \<Rightarrow> 'l world_lib \<Rightarrow> proxy_handler \<Rightarrow> ('w, 'l proxy_state) handler" where
  "forward W L h w r s =
     (let r = SetForwardedHeaders (TrustXForwardedFor (Security (ph_cfg h))) r
      in if CacheEnabled (CacheCfg (ph_cfg h)) then handleWithCache W L h w r s
         else proxyToOrigin W L h w r s)"

text \<open>Step 4.\<close>

definition rate_limit_step ::
  "'w ResponseWriter \<Rightarrow> 'l world_lib \<Rightarrow> proxy_handler \<Rightarrow> ('w, 'l proxy_state) handler" where
  "rate_limit_step W L h w r s =
     (case ps_limiter s of
        None \<Rightarrow> forward W L h w r s
      | Some l \<Rightarrow>
          (case Allow (wl_rate L) (wl_clock L 0) r l of
             ((allowed, ruleID, _), evs, l) \<Rightarrow>
               let s = emits (map RateLimitEvent evs) (s\<lparr>ps_limiter := Some l\<rparr>)
               in if \<not> allowed then finish (HandleDeny W w ruleID) r s else forward W L h w r s))"

text \<open>Step 3.\<close>

definition waf_step ::
  "'w ResponseWriter \<Rightarrow> 'l world_lib \<Rightarrow> proxy_handler \<Rightarrow> string \<Rightarrow> ('w, 'l proxy_state) handler" where
  "waf_step W L h body w r s =
     (case ph_wafEngine h of
        None \<Rightarrow> rate_limit_step W L h w r s
      | Some e \<Rightarrow>
          (case Evaluate e r body of
             None \<Rightarrow> Panicked w r s
           | Some (d, evs) \<Rightarrow>
               let s = emits (map WafEvent evs) s
               in if d_Matched d \<and> d_Action d = ''block''
                  then
                    let w = wo_Set W ''Content-Type'' ''application/json'' w;
                        w = wo_Set W ''X-Request-ID'' (GetRequestID r) w
                    in finish (respond W (GetBlockStatusCode e (d_RuleID d))
                         (''{\"error\":\"blocked by WAF\",\"rule_id\":\"'' @ d_RuleID d @ ''\"}'') w) r s
                  else
                    let r = (if d_Matched d \<and> d_Action d = ''bypass_cache''
                             then r\<lparr>r_Header := header_Set ''X-OpenFlare-No-Cache'' ''1'' (r_Header r)\<rparr> else r)
                    in rate_limit_step W L h w r s))"

text \<open>The whole handler: built-in endpoints, then steps 1 to 6.\<close>

definition ServeHTTP ::
  "'w ResponseWriter \<Rightarrow> 'l world_lib \<Rightarrow> proxy_handler \<Rightarrow> ('w, 'l proxy_state) handler" where
  "ServeHTTP W L h w r s =
     (let path = u_Path (r_URL r)
      in if path = ''/healthz'' \<or> path = ''/readyz''
         then Returned (answer W ''application/json'' ''{\"status\":\"ok\"}'' w) r s
         else if path = ''/metrics''
         then Returned (answer W ''text/plain'' ''# metrics served via /metrics endpoint'' w) r s
         else
           (case (if r_Body r \<noteq> None \<and> r_ContentLength r \<noteq> 0
                  then ReadBodyForInspection r (MaxBodyInspectBytes (Security (ph_cfg h)))
                  else Some (Inr ('''', r))) of
              None \<Rightarrow> Panicked w r s
            | Some (Inl _) \<Rightarrow> finish (http_Error W ''{\"error\":\"failed to read body\"}'' 400 w) r s
            | Some (Inr (body, r)) \<Rightarrow> waf_step W L h body w (normalize_request r) s))"

end
