(* ===== verification/Pipeline.thy ===== *)
theory Pipeline
  imports ProxyHandler
begin

text \<open>
  Invariants through the request pipeline. The locale \<open>handler_contract\<close> says what the handler
  relies on: a predicate of the cache that lookups, stores of storable entries and the bypass
  counter keep, one of the limiter that \<open>Allow\<close> keeps, and, for a live cache, that a
  store returns. Every step of \<open>proxy/handler.go\<close> then keeps both predicates and, with a live
  cache, never hangs. It is interpreted on the memory backend and the limiter of the
  model, once for safety and once for liveness.
\<close>

section \<open>States and outcomes\<close>

lemma emit_simps [simp]:
  "ps_cache (emit e s) = ps_cache s" "ps_limiter (emit e s) = ps_limiter s"
  "ps_cache (emits es s) = ps_cache s" "ps_limiter (emits es s) = ps_limiter s"
  by (simp_all add: emit_def emits_def)

fun outcome_state :: "('w, 's) outcome \<Rightarrow> 's option" where
  "outcome_state (Returned w r s) = Some s"
| "outcome_state (Panicked w r s) = Some s"
| "outcome_state Hangs = None"

lemma finish_state [simp]: "outcome_state (finish c r s) = Some s"
  by (cases c) simp_all

text \<open>An outcome in a good state; a hang counts only where nothing promises an answer.\<close>

definition keeps :: "bool \<Rightarrow> ('s \<Rightarrow> bool) \<Rightarrow> ('w, 's) outcome \<Rightarrow> bool" where
  "keeps live I out = (case outcome_state out of None \<Rightarrow> \<not> live | Some t \<Rightarrow> I t)"

lemma keeps_simps [simp]:
  "keeps live I (finish c r s) = I s" "keeps live I (Returned w r s) = I s"
  "keeps live I (Panicked w r s) = I s" "keeps live I Hangs = (\<not> live)"
  by (simp_all add: keeps_def)

lemma keepsD: "keeps live I out \<Longrightarrow> outcome_state out = Some t \<Longrightarrow> I t"
  and keeps_live: "keeps True I out \<Longrightarrow> out \<noteq> Hangs"
  by (auto simp: keeps_def)

definition state_ok :: "(memory_backend \<Rightarrow> bool) \<Rightarrow> ('l limiter \<Rightarrow> bool) \<Rightarrow> 'l proxy_state \<Rightarrow> bool" where
  "state_ok Q P s \<longleftrightarrow> Q (ps_cache s) \<and> (\<forall>l. ps_limiter s = Some l \<longrightarrow> P l)"

lemma state_ok_simps [simp]:
  "state_ok Q P (emit e s) = state_ok Q P s" "state_ok Q P (emits es s) = state_ok Q P s"
  by (simp_all add: state_ok_def)

text \<open>The entries the policy allows, each under its own key and with its true size.\<close>

definition entry_ok :: "policy \<Rightarrow> string \<Rightarrow> cache_entry \<Rightarrow> bool" where
  "entry_ok p k e \<longleftrightarrow>
     fst (IsResponseStorable p (e_StatusCode e) (e_Headers e)) \<and> e_Key e = k \<and> e_Size e = int (length (e_Body e))"

section \<open>Steps that leave cache and limiter alone\<close>

lemma ErrorHandler_finish: "\<exists>c e. ErrorHandler W h w r s = finish c r (emit e s)"
  by (auto simp: ErrorHandler_def Let_def)

lemma ReverseProxy_keeps:
  assumes "\<And>e s. I (emit e s) = I s" "I s"
  shows "keeps live I (ReverseProxy_ServeHTTP W L h w r s)"
proof -
  have E: "keeps live I (ErrorHandler W h w r s)" if "I s" for w r s
  proof -
    obtain c e where "ErrorHandler W h w r s = finish c r (emit e s)"
      using ErrorHandler_finish [of W h w r s] by blast
    then show ?thesis using that assms(1) by simp
  qed
  have E2: "keeps live I (case ErrorHandler W h w r s of
      Returned w r s \<Rightarrow> if b then Returned w r s else ErrorHandler W h w r s | out \<Rightarrow> out)" for b
    using E [OF assms(2), of w r] E by (cases "ErrorHandler W h w r s") auto
  show ?thesis
    using E [OF assms(2)] E2 assms(2)
    by (auto simp: ReverseProxy_ServeHTTP_def split: option.split origin_result.split)
qed

lemma proxyToOrigin_keeps:
  assumes "\<And>e s. I (emit e s) = I s" "I s"
  shows "keeps live I (proxyToOrigin W L h w r s)"
  using ReverseProxy_keeps [OF assms, of live W L h w "restore_body r"] assms(1)
  by (cases "ReverseProxy_ServeHTTP W L h w (restore_body r) s") (simp_all add: proxyToOrigin_def)

lemma fetchFromOrigin_facts:
  assumes "fetchFromOrigin L h r s = (res, t)"
  shows "ps_cache t = ps_cache s" "ps_limiter t = ps_limiter s"
    "res = Some e \<Longrightarrow> e_Size e = int (length (e_Body e))"
    "res = Some e \<Longrightarrow> int (length (e_Body e)) \<le> max 0 (MaxRequestBodyBytes (Security (ph_cfg h)))"
  using assms
  by (auto simp: fetchFromOrigin_def Let_def read_limited_def split: option.splits origin_result.splits if_splits)

section \<open>The contract\<close>

locale handler_contract =
  fixes h :: proxy_handler and Q :: "memory_backend \<Rightarrow> bool" and P :: "'l limiter \<Rightarrow> bool" and live :: bool
  assumes get_keeps: "Q m \<Longrightarrow> Q (snd (Get now k m))"
    and set_keeps: "Q m \<Longrightarrow> entry_ok (ph_cachePolicy h) k e \<Longrightarrow> SetEntry k e m = Some m' \<Longrightarrow> Q m'"
    and set_returns: "live \<Longrightarrow> Q m \<Longrightarrow> entry_ok (ph_cachePolicy h) k e \<Longrightarrow> \<exists>m'. SetEntry k e m = Some m'"
    and bypass_keeps: "Q m \<Longrightarrow> Q (IncrementBypasses m)"
    and allow_keeps: "P l \<Longrightarrow> Allow lib now r l = (res, evs, l') \<Longrightarrow> P l'"
begin

lemma proxy_ok: "state_ok Q P s \<Longrightarrow> keeps live (state_ok Q P) (proxyToOrigin W L h w r s)"
  by (rule proxyToOrigin_keeps) simp

lemma fill_ok:
  assumes "state_ok Q P s"
  shows "case fill_cache L h k r s of None \<Rightarrow> \<not> live | Some (res, t) \<Rightarrow> state_ok Q P t"
proof -
  obtain found c where g: "Get (wl_clock L 2) k (ps_cache s) = (found, c)" by fastforce
  have c: "Q c" using get_keeps [of "ps_cache s" "wl_clock L 2" k] assms g by (simp add: state_ok_def)
  obtain got t1 where f: "fetchFromOrigin L h r (s\<lparr>ps_cache := c\<rparr>) = (got, t1)" by fastforce
  note ff = fetchFromOrigin_facts [OF f]
  have t1: "state_ok Q P t1" using assms c ff(1,2) by (simp add: state_ok_def)
  show ?thesis
  proof (cases "found = None \<and> (\<exists>e. got = Some e \<and> fst (IsResponseStorable (ph_cachePolicy h) (e_StatusCode e) (e_Headers e)))")
    case True
    then obtain e where e: "found = None" "got = Some e"
      "fst (IsResponseStorable (ph_cachePolicy h) (e_StatusCode e) (e_Headers e))" by blast
    let ?e = "e\<lparr>e_Key := k, e_TTL := DetermineTTL (ph_cachePolicy h) (u_Path (r_URL r)) (e_Headers e), e_StoredAt := wl_clock L 3\<rparr>"
    have ok: "entry_ok (ph_cachePolicy h) k ?e" using e ff(3) by (simp add: entry_ok_def)
    show ?thesis
    proof (cases "SetEntry k ?e c")
      case None
      then show ?thesis using g f e ff(1) set_returns [OF _ c ok] by (auto simp: fill_cache_def)
    next
      case (Some c')
      then show ?thesis using g f e ff(1) set_keeps [OF c ok Some] t1
        by (simp add: fill_cache_def Let_def) (simp add: state_ok_def)
    qed
  next
    case False
    have "state_ok Q P (s\<lparr>ps_cache := c\<rparr>)" using assms c by (simp add: state_ok_def)
    then show ?thesis using False g f t1 by (cases found; cases got) (auto simp: fill_cache_def Let_def)
  qed
qed

lemma cached_ok:
  assumes "state_ok Q P s"
  shows "keeps live (state_ok Q P) (handleWithCache W L h w r s)"
proof (cases "\<not> fst (IsRequestCacheable (ph_cachePolicy h) r) \<or> header_Get (r_Header r) ''X-OpenFlare-No-Cache'' = ''1''")
  case True
  have "state_ok Q P (emit (CacheOperationsInc ''bypass'') (s\<lparr>ps_cache := IncrementBypasses (ps_cache s)\<rparr>))"
    using assms bypass_keeps by (simp add: state_ok_def)
  from proxy_ok [OF this] True show ?thesis by (auto simp: handleWithCache_def Let_def)
next
  case False
  obtain found c where g: "Get (wl_clock L 1) (request_key r) (ps_cache s) = (found, c)" by fastforce
  have c: "Q c" using get_keeps [of "ps_cache s" "wl_clock L 1" "request_key r"] assms g by (simp add: state_ok_def)
  let ?s = "emit (CacheOperationsInc ''miss'') (s\<lparr>ps_cache := c\<rparr>)"
  have s: "state_ok Q P ?s" "state_ok Q P (s\<lparr>ps_cache := c\<rparr>)" using assms c by (simp_all add: state_ok_def)
  have "case sf_Do L h (request_key r) r ?s of None \<Rightarrow> \<not> live | Some (res, t) \<Rightarrow> state_ok Q P t"
    using fill_ok [OF s(1), of L "request_key r" r] s(1) by (cases "wl_inflight L (request_key r)") (simp_all add: sf_Do_def)
  then show ?thesis
    using False g s(2)
    by (cases found; cases "sf_Do L h (request_key r) r ?s")
      (auto simp: handleWithCache_def Let_def split: sf_result.split)
qed

lemma forward_ok: "state_ok Q P s \<Longrightarrow> keeps live (state_ok Q P) (forward W L h w r s)"
  by (simp add: forward_def Let_def proxy_ok cached_ok)

lemma rate_limit_ok:
  assumes "state_ok Q P s"
  shows "keeps live (state_ok Q P) (rate_limit_step W L h w r s)"
proof (cases "ps_limiter s")
  case None
  then show ?thesis using forward_ok [OF assms] by (simp add: rate_limit_step_def)
next
  case (Some l)
  obtain allowed ruleID q evs l' where a: "Allow (wl_rate L) (wl_clock L 0) r l = ((allowed, ruleID, q), evs, l')"
    by (metis prod_cases3)
  have "P l'" using allow_keeps [OF _ a] assms Some by (simp add: state_ok_def)
  then have "state_ok Q P (emits (map RateLimitEvent evs) (s\<lparr>ps_limiter := Some l'\<rparr>))"
    using assms by (simp add: state_ok_def)
  then show ?thesis using Some a by (simp add: rate_limit_step_def forward_ok Let_def)
qed

lemma waf_ok:
  assumes "state_ok Q P s"
  shows "keeps live (state_ok Q P) (waf_step W L h body w r s)"
proof (cases "ph_wafEngine h")
  case None
  then show ?thesis using rate_limit_ok [OF assms] by (simp add: waf_step_def)
next
  case (Some e)
  show ?thesis using Some assms
    by (cases "Evaluate e r body") (auto simp: waf_step_def Let_def rate_limit_ok)
qed

lemma serve_ok:
  assumes "state_ok Q P s"
  shows "keeps live (state_ok Q P) (ServeHTTP W L h w r s)"
proof (cases "u_Path (r_URL r) \<in> {''/healthz'', ''/readyz'', ''/metrics''}")
  case True
  then show ?thesis using assms by (auto simp: ServeHTTP_def)
next
  case False
  define b where "b = (if r_Body r \<noteq> None \<and> r_ContentLength r \<noteq> 0
    then ReadBodyForInspection r (MaxBodyInspectBytes (Security (ph_cfg h))) else Some (Inr ('''', r)))"
  have eq: "ServeHTTP W L h w r s = (case b of None \<Rightarrow> Panicked w r s
      | Some (Inl _) \<Rightarrow> finish (http_Error W ''{\"error\":\"failed to read body\"}'' 400 w) r s
      | Some (Inr (body, r)) \<Rightarrow> waf_step W L h body w (normalize_request r) s)"
    using False by (simp add: ServeHTTP_def b_def)
  show ?thesis using assms unfolding eq by (simp add: waf_ok split: option.split sum.split)
qed

end

section \<open>The model's cache and limiter keep the contract\<close>

definition cache_ok :: "policy \<Rightarrow> memory_backend \<Rightarrow> bool" where
  "cache_ok p m \<longleftrightarrow> mb_inv m \<and> (1 \<le> maxEntries m \<longrightarrow> within_limits m)
     \<and> (\<forall>k e. lookup m k = Some e \<longrightarrow> entry_ok p k e)"

definition live_cache :: "policy \<Rightarrow> memory_backend \<Rightarrow> bool" where
  "live_cache p m \<longleftrightarrow> cache_ok p m \<and> 1 \<le> maxEntries m"

lemma cache_ok_new: "0 \<le> maxB \<Longrightarrow> cache_ok p (NewMemoryBackend maxE maxB)"
  by (simp add: cache_ok_def mb_inv_new within_limits_def Len_def lookup_def mb_abs_def)
    (simp add: NewMemoryBackend_def)

lemma live_cache_new: "0 \<le> maxB \<Longrightarrow> 1 \<le> maxE \<Longrightarrow> live_cache p (NewMemoryBackend maxE maxB)"
  by (simp add: live_cache_def cache_ok_new) (simp add: NewMemoryBackend_def)

text \<open>Every call of the backend keeps this, as long as only such entries are stored.\<close>

lemma backend_step_cache_ok:
  assumes "cache_ok p m" "op_ok x" "backend_step memory_Backend x m = Some m'"
    and "\<And>k e. x = OpSet k e \<Longrightarrow> entry_ok p k e"
  shows "cache_ok p m'" "live_cache p m \<Longrightarrow> live_cache p m'"
proof -
  have inv: "mb_inv m" using assms(1) by (simp add: cache_ok_def)
  have le: "lookup m' \<subseteq>\<^sub>m ideal_op x (lookup m)"
    using memory.step_ideal [OF inv assms(2,3)] by simp
  have "entry_ok p k e" if "lookup m' k = Some e" for k e
  proof -
    have "ideal_op x (lookup m) k = Some e" using le that by (auto simp: map_le_def dom_def)
    then show ?thesis using assms(1,4) by (cases x) (auto simp: cache_ok_def split: if_splits)
  qed
  moreover have m: "maxEntries m' = maxEntries m" by (rule memory_step_frame [OF inv assms(2,3)])
  ultimately show ok: "cache_ok p m'"
    using assms(1) memory.step_inv [OF inv assms(2,3)] memory_step_limits [OF inv _ assms(2,3)]
    by (simp add: cache_ok_def)
  show "live_cache p m \<Longrightarrow> live_cache p m'" using ok m by (simp add: live_cache_def)
qed

lemma backend_step_live:
  assumes "live_cache p m" "op_ok x" "backend_step memory_Backend x m = Some m'"
    and "\<And>k e. x = OpSet k e \<Longrightarrow> entry_ok p k e"
  shows "live_cache p m'"
  using backend_step_cache_ok(2) [of p m x m'] assms by (simp add: live_cache_def)

lemma IncrementBypasses_cache_ok: "cache_ok p m \<Longrightarrow> cache_ok p (IncrementBypasses m)"
  by (simp add: cache_ok_def IncrementBypasses_def lookup_def within_limits_def Len_def)

lemma Allow_inv:
  assumes "lm_inv l" "Allow lib now r l = (res, evs, l')"
  shows "lm_inv l'"
  using assms allow_rules_refines [OF assms(1)] by (auto simp: Allow_def Let_def split: if_splits)

interpretation safe: handler_contract h "cache_ok (ph_cachePolicy h)" lm_inv False for h
proof (unfold_locales, goal_cases)
  case (1 m now k)
  then show ?case using backend_step_cache_ok(1) [of _ m "OpGet now k"] by (simp add: memory_Backend_def)
next
  case (2 m k e m')
  then show ?case using backend_step_cache_ok(1) [of _ m "OpSet k e"] by (simp add: memory_Backend_def entry_ok_def)
qed (auto intro: IncrementBypasses_cache_ok Allow_inv)

interpretation live: handler_contract h "live_cache (ph_cachePolicy h)" lm_inv True for h
proof (unfold_locales, goal_cases)
  case (1 m now k)
  then show ?case using backend_step_live [of _ m "OpGet now k"] by (simp add: memory_Backend_def)
next
  case (2 m k e m')
  then show ?case using backend_step_live [of _ m "OpSet k e"] by (simp add: memory_Backend_def entry_ok_def)
next
  case (3 m k e)
  then show ?case using SetEntry_refines [of m e k] by (auto simp: live_cache_def cache_ok_def entry_ok_def)
next
  case (4 m)
  then show ?case using IncrementBypasses_cache_ok by (simp add: live_cache_def IncrementBypasses_def)
qed (auto intro: Allow_inv)

end
