(* ===== verification/ProxyProps.thy ===== *)
theory ProxyProps
  imports Pipeline
begin

text \<open>
  The properties of the request handler: what the cache may come to hold, that a stored
  response is what a later request gets, which requests stop before the origin, and where a
  fetch goes.
\<close>

section \<open>Storing and serving\<close>

lemma Get_hit:
  assumes "mb_inv m" "lookup m k = Some e" "\<not> IsExpired now e"
  shows "fst (Get now k m) = Some e"
proof -
  have "lru_get now k (mb_abs m) = (Some e, (k, e) # AList.delete k (mb_abs m))"
    using assms(2,3) by (simp add: lru_get_def lookup_def)
  with Get_refines [OF assms(1), of now k] show ?thesis by simp
qed

lemma Get_absent:
  assumes "mb_inv m" "lookup m k = None"
  shows "\<exists>m'. Get now k m = (None, m') \<and> mb_inv m' \<and> lookup m' k = None \<and> maxEntries m' = maxEntries m"
proof -
  have "fst (Get now k m) = None" "mb_abs (snd (Get now k m)) = mb_abs m"
    using Get_refines [OF assms(1), of now k] assms(2) by (auto simp: lru_get_def lookup_def)
  then show ?thesis
    using Get_inv [OF assms(1), of now k] assms(2) Get_frame(1) [of now k m]
    by (cases "Get now k m") (simp add: lookup_def)
qed

lemma fetch_state:
  "fst (fetchFromOrigin L h r s) = fst (fetchFromOrigin L h r t)"
  by (simp add: fetchFromOrigin_def Let_def split: option.split origin_result.split)

definition stored_entry :: "'l world_lib \<Rightarrow> proxy_handler \<Rightarrow> request \<Rightarrow> cache_entry \<Rightarrow> cache_entry" where
  "stored_entry L h r e = e\<lparr>e_Key := request_key r,
     e_TTL := DetermineTTL (ph_cachePolicy h) (u_Path (r_URL r)) (e_Headers e), e_StoredAt := wl_clock L 3\<rparr>"

lemma fill_cache_stores:
  assumes "mb_inv (ps_cache s)" "1 \<le> maxEntries (ps_cache s)" "lookup (ps_cache s) (request_key r) = None"
    and "fst (fetchFromOrigin L h r s) = Some e"
    and "fst (IsResponseStorable (ph_cachePolicy h) (e_StatusCode e) (e_Headers e))"
  shows "\<exists>t. fill_cache L h (request_key r) r s = Some (SfEntry (stored_entry L h r e), t)
    \<and> mb_inv (ps_cache t) \<and> lookup (ps_cache t) (request_key r) = Some (stored_entry L h r e)"
proof -
  obtain c where c: "Get (wl_clock L 2) (request_key r) (ps_cache s) = (None, c)" "mb_inv c"
      "maxEntries c = maxEntries (ps_cache s)"
    using Get_absent [OF assms(1,3)] by blast
  obtain t1 where f: "fetchFromOrigin L h r (s\<lparr>ps_cache := c\<rparr>) = (Some e, t1)"
    using assms(4) fetch_state [of L h r "s\<lparr>ps_cache := c\<rparr>" s] by (metis prod.collapse)
  have t1: "ps_cache t1 = c" "e_Size e = int (length (e_Body e))"
    using fetchFromOrigin_facts [OF f] by simp_all
  obtain m where m: "SetEntry (request_key r) (stored_entry L h r e) c = Some m" "mb_inv m"
    using SetEntry_refines [OF c(2), of "stored_entry L h r e" "request_key r"] assms(2) c(3) t1(2)
    by (auto simp: stored_entry_def)
  have "lookup m (request_key r) = Some (stored_entry L h r e)"
    using memory.set_law [OF c(2) _ , of "stored_entry L h r e" "request_key r" m] m t1(2)
    by (simp add: memory_Backend_def stored_entry_def)
  then show ?thesis
    using c f t1 m assms(5) by (simp add: fill_cache_def stored_entry_def)
qed

definition uses_cache :: "proxy_handler \<Rightarrow> request \<Rightarrow> bool" where
  "uses_cache h r \<longleftrightarrow> fst (IsRequestCacheable (ph_cachePolicy h) r)
     \<and> header_Get (r_Header r) ''X-OpenFlare-No-Cache'' \<noteq> ''1''"

lemma handle_miss:
  assumes "mb_inv (ps_cache s)" "1 \<le> maxEntries (ps_cache s)" "lookup (ps_cache s) (request_key r) = None"
    and "uses_cache h r" "wl_inflight L (request_key r) = None"
    and "fst (fetchFromOrigin L h r s) = Some e"
    and "fst (IsResponseStorable (ph_cachePolicy h) (e_StatusCode e) (e_Headers e))"
  shows "\<exists>t. handleWithCache W L h w r s = finish (writeEntry W (stored_entry L h r e) (setDebugHeaders W h ''MISS'' w)) r t
    \<and> mb_inv (ps_cache t) \<and> lookup (ps_cache t) (request_key r) = Some (stored_entry L h r e)"
proof -
  obtain c where c: "Get (wl_clock L 1) (request_key r) (ps_cache s) = (None, c)" "mb_inv c"
      "lookup c (request_key r) = None" "maxEntries c = maxEntries (ps_cache s)"
    using Get_absent [OF assms(1,3)] by blast
  let ?s = "emit (CacheOperationsInc ''miss'') (s\<lparr>ps_cache := c\<rparr>)"
  obtain t where t: "fill_cache L h (request_key r) r ?s = Some (SfEntry (stored_entry L h r e), t)"
      "mb_inv (ps_cache t)" "lookup (ps_cache t) (request_key r) = Some (stored_entry L h r e)"
    using fill_cache_stores [of ?s r L h e] c assms fetch_state [of L h r s ?s] by auto
  then show ?thesis
    using assms(4,5) c by (auto simp: handleWithCache_def uses_cache_def sf_Do_def)
qed

text \<open>Without room for an entry the same miss never ends.\<close>

lemma miss_hangs:
  assumes "mb_inv (ps_cache s)" "maxEntries (ps_cache s) \<le> 0" "lookup (ps_cache s) (request_key r) = None"
    and "uses_cache h r" "wl_inflight L (request_key r) = None"
    and "fst (fetchFromOrigin L h r s) = Some e"
    and "fst (IsResponseStorable (ph_cachePolicy h) (e_StatusCode e) (e_Headers e))"
  shows "handleWithCache W L h w r s = Hangs"
proof -
  obtain c where c: "Get (wl_clock L 1) (request_key r) (ps_cache s) = (None, c)" "mb_inv c"
      "lookup c (request_key r) = None" "maxEntries c = maxEntries (ps_cache s)"
    using Get_absent [OF assms(1,3)] by blast
  let ?s = "emit (CacheOperationsInc ''miss'') (s\<lparr>ps_cache := c\<rparr>)"
  obtain d where d: "Get (wl_clock L 2) (request_key r) c = (None, d)" "mb_inv d" "maxEntries d = maxEntries c"
    using Get_absent [OF c(2,3)] by blast
  obtain t1 where f: "fetchFromOrigin L h r (?s\<lparr>ps_cache := d\<rparr>) = (Some e, t1)"
    using assms(6) fetch_state [of L h r "?s\<lparr>ps_cache := d\<rparr>" s] by (metis prod.collapse)
  have t1: "ps_cache t1 = d" "e_Size e = int (length (e_Body e))"
    using fetchFromOrigin_facts [OF f] by simp_all
  have "SetEntry (request_key r) (stored_entry L h r e) d = None"
    using SetEntry_diverges [OF d(2), of "request_key r" "stored_entry L h r e"] assms(2) c(4) d(3) t1(2)
    by (simp add: stored_entry_def)
  then have "fill_cache L h (request_key r) r ?s = None"
    using c d f t1 assms(7) by (simp add: fill_cache_def stored_entry_def)
  then show ?thesis using assms(4,5) c by (auto simp: handleWithCache_def uses_cache_def sf_Do_def)
qed

lemma handle_hit:
  assumes "mb_inv (ps_cache s)" "lookup (ps_cache s) (request_key r) = Some e" "uses_cache h r"
    and "\<not> IsExpired (wl_clock L 1) e"
  shows "\<exists>t. handleWithCache W L h w r s = finish (writeEntry W e (setDebugHeaders W h ''HIT'' w)) r t"
  using Get_hit [OF assms(1,2,4)] assms(3)
  by (cases "Get (wl_clock L 1) (request_key r) (ps_cache s)")
    (auto simp: handleWithCache_def uses_cache_def serveCached_def)

lemma writeEntry_stored: "writeEntry W (stored_entry L h r e) w = writeEntry W e w"
  by (simp add: writeEntry_def stored_entry_def)

text \<open>Together: what a miss stores is what the next request under the key is served.\<close>

lemma store_then_serve:
  assumes "mb_inv (ps_cache s)" "1 \<le> maxEntries (ps_cache s)" "lookup (ps_cache s) (request_key r) = None"
    and "uses_cache h r" "wl_inflight L (request_key r) = None"
    and "fst (fetchFromOrigin L h r s) = Some e"
    and "fst (IsResponseStorable (ph_cachePolicy h) (e_StatusCode e) (e_Headers e))"
    and "uses_cache h r'" "request_key r' = request_key r"
    and "time_since (wl_clock L' 1) (wl_clock L 3) \<le> DetermineTTL (ph_cachePolicy h) (u_Path (r_URL r)) (e_Headers e)"
  shows "\<exists>t t'. handleWithCache W L h w r s = finish (writeEntry W e (setDebugHeaders W h ''MISS'' w)) r t
    \<and> handleWithCache W L' h w' r' t = finish (writeEntry W e (setDebugHeaders W h ''HIT'' w')) r' t'"
proof -
  obtain t where t: "handleWithCache W L h w r s = finish (writeEntry W e (setDebugHeaders W h ''MISS'' w)) r t"
      "mb_inv (ps_cache t)" "lookup (ps_cache t) (request_key r') = Some (stored_entry L h r e)"
    using handle_miss [OF assms(1-7), of W w] assms(9) by (auto simp: writeEntry_stored)
  have "\<not> IsExpired (wl_clock L' 1) (stored_entry L h r e)"
    using assms(10) by (simp add: IsExpired_def stored_entry_def)
  from handle_hit [OF t(2,3) assms(8) this, of W w'] t(1) show ?thesis
    by (auto simp: writeEntry_stored)
qed

section \<open>A sample handler\<close>

definition sample_cfg :: config where
  "sample_cfg = (let c = applyDefaults sample_config in c\<lparr>CacheCfg := (CacheCfg c)\<lparr>MaxEntries := 10\<rparr>\<rparr>)"

definition sample_handler :: proxy_handler where
  "sample_handler = \<lparr>ph_cfg = sample_cfg, ph_cachePolicy = NewPolicy (\<lambda>_. None) (CacheCfg sample_cfg) [],
     ph_wafEngine = Some (sample_engine ''enforce''), ph_upstreamName = ''origin'',
     ph_targetURL = \<lparr>u_Scheme = ''http'', u_Opaque = '''', u_User = None, u_Host = ''origin:8000'',
       u_Path = '''', u_RawPath = '''', u_RawQuery = ''''\<rparr>\<rparr>"

definition sample_world :: "instant \<Rightarrow> string \<Rightarrow> int world_lib" where
  "sample_world now body = \<lparr>wl_RoundTrip = (\<lambda>_. OriginResponse 200 [] \<lparr>br_data = body, br_fails = False\<rparr>),
     wl_rate = count_lib, wl_clock = (\<lambda>_. now), wl_inflight = (\<lambda>_. None)\<rparr>"

definition sample_state :: "int proxy_state" where
  "sample_state = \<lparr>ps_cache = NewMemoryBackend 10 1000, ps_limiter = None, ps_events = []\<rparr>"

lemma sample_state_cache:
  "mb_inv (ps_cache sample_state)" "1 \<le> maxEntries (ps_cache sample_state)" "lookup (ps_cache sample_state) k = None"
  by (simp_all add: sample_state_def mb_inv_new) (simp_all add: NewMemoryBackend_def lookup_def mb_abs_def)

lemma sample_policy [simp]:
  "pol_compiled (ph_cachePolicy sample_handler) = []" "pol_cfg (ph_cachePolicy sample_handler) = CacheCfg sample_cfg"
  by (simp_all add: sample_handler_def NewPolicy_def)

lemma sample_uses_cache:
  "m \<in> {''GET'', ''HEAD''} \<Longrightarrow> uses_cache sample_handler (sample_request path query \<lparr>r_Method := m\<rparr>)"
  by (auto simp: uses_cache_def IsRequestCacheable_def header_Get_def)

lemma sample_max: "MaxRequestBodyBytes (Security (ph_cfg sample_handler)) = 10485760"
  by (simp add: sample_handler_def sample_cfg_def Let_def applyDefaults_def default_security_def or_default_def sample_config_def)

lemma sample_target: "plain_target (ph_targetURL sample_handler)"
proof -
  have "plain_scheme ''http''"
    by (simp add: plain_scheme_def letter_def scheme_char_def less_eq_char_def ToLower_def ascii_lower_def)
  moreover have "plain_host ''origin:8000''"
    by (simp add: plain_host_def unreserved_def is_digit_def validOptionalPort_def less_eq_char_def)
  ultimately show ?thesis by (simp add: plain_target_def plain_user_def sample_handler_def)
qed

lemma sample_origin_request:
  assumes "ph_targetURL h = ph_targetURL sample_handler" "origin_form (r_URL r)" "u_RawQuery (r_URL r) = ''''"
  shows "\<exists>out. origin_request h r = Some out"
  using resolved_parses [OF sample_target assms(2)] assms(1,3) by (auto simp: origin_request_def Let_def has_ctl_def)

lemma sample_request_form [simp]:
  "origin_form (r_URL (sample_request path query)) \<longleftrightarrow> path \<noteq> ''''" "u_RawQuery (r_URL (sample_request path query)) = query"
  by (simp_all add: origin_form_def sample_request_def)

lemma sample_fetch:
  "origin_form (r_URL r) \<Longrightarrow> u_RawQuery (r_URL r) = '''' \<Longrightarrow>
   fst (fetchFromOrigin (sample_world now body) sample_handler r s) = Some
     \<lparr>e_Key = '''', e_StatusCode = 200, e_Headers = [], e_Body = take 10485760 body, e_StoredAt = 0, e_TTL = 0,
      e_Size = int (length (take 10485760 body))\<rparr>"
  using sample_origin_request [of sample_handler r]
  by (auto simp: fetchFromOrigin_def sample_world_def Let_def read_limited_def sample_max)

lemma sample_storable: "fst (IsResponseStorable p 200 [])"
proof -
  have "ToLower '''' = ''''" "\<not> Contains '''' ''no-store''" "\<not> Contains '''' ''private''" "\<not> Contains '''' ''no-cache''"
    by code_simp+
  then show ?thesis by (simp add: IsResponseStorable_def header_Get_def Let_def)
qed

lemma sample_ttl: "DetermineTTL (ph_cachePolicy sample_handler) path [] = 30 * Second"
proof -
  have "parseSMaxAge '''' = 0" "parseMaxAge '''' = 0" by code_simp+
  then show ?thesis
    by (simp add: DetermineTTL_def header_Get_def DefaultTTL_def seconds_duration_def Second_def Millisecond_def
        sample_cfg_def Let_def applyDefaults_def default_cache_def or_default_def sample_config_def)
qed

lemma sample_key:
  "m \<in> {''GET'', ''HEAD''} \<Longrightarrow> request_key (sample_request path query \<lparr>r_Method := m\<rparr>) =
     CacheKey ''GET'' ''example.com'' path query ''''"
proof -
  have "ToUpper ''GET'' = ''GET''" "ToUpper ''HEAD'' = ''HEAD''" by code_simp+
  then show "m \<in> {''GET'', ''HEAD''} \<Longrightarrow> ?thesis"
    by (auto simp: request_key_def CacheKey_def Let_def header_Get_def) (simp_all add: sample_request_def)
qed

section \<open>What a stored entry looks like on the wire\<close>

context response_writer begin

lemma add_headers_frame: "status (add_headers W hs w) = status w \<and> body (add_headers W hs w) = body w"
proof -
  have inner: "status (fold (\<lambda>v w. wo_Add W k v w) vs w) = status w \<and> body (fold (\<lambda>v w. wo_Add W k v w) vs w) = body w" for k vs w
    by (induction vs arbitrary: w) (simp_all add: add_frame)
  show ?thesis
    unfolding add_headers_def by (induction hs arbitrary: w) (auto simp: inner)
qed

lemma debug_frame: "status (setDebugHeaders W h st w) = status w" "body (setDebugHeaders W h st w) = body w"
  by (simp_all add: setDebugHeaders_def set_frame)

lemma writeEntry_status:
  assumes "200 \<le> e_StatusCode e" "e_StatusCode e \<le> 999" "status w = None"
  shows "\<exists>v. writeEntry W e w = Returns v \<and> status v = Some (e_StatusCode e)"
  using respond_status [OF assms(1,2), of "e_Body e" "add_headers W (e_Headers e) w"] add_headers_frame assms(3)
  by (simp add: writeEntry_def)

end

lemma server_respond_body:
  assumes "rw_Status w = None" "200 \<le> code" "code < 300" "code \<noteq> 204" "\<not> rw_HEAD w"
  shows "\<exists>v. respond server_Writer code b w = Returns v \<and> rw_Status v = Some code \<and> rw_Body v = rw_Body w @ b"
  using assms by (simp add: respond_def WriteHeader_def Write_def Let_def bodyAllowedForStatus_def)

lemma add_headers_HEAD: "rw_HEAD (add_headers server_Writer hs w) = rw_HEAD w"
proof -
  have one: "rw_HEAD (rw_add k v w) = rw_HEAD w" for k v w by (simp add: rw_add_def)
  have inner: "rw_HEAD (fold (\<lambda>v w. rw_add k v w) vs w) = rw_HEAD w" for k vs w
    by (induction vs arbitrary: w) (simp_all add: one)
  have "rw_HEAD (fold (\<lambda>(k, vs) w. fold (\<lambda>v w. rw_add k v w) vs w) hs w) = rw_HEAD w"
  proof (induction hs arbitrary: w)
    case (Cons x hs)
    then show ?case using inner by (cases x) simp
  qed simp
  then show ?thesis by (simp only: add_headers_def server_Writer_simps)
qed

lemma server_writeEntry:
  assumes "200 \<le> e_StatusCode e" "e_StatusCode e < 300" "e_StatusCode e \<noteq> 204"
  shows "\<exists>v. writeEntry server_Writer e (setDebugHeaders server_Writer h st (new_response False)) = Returns v
    \<and> rw_Status v = Some (e_StatusCode e) \<and> rw_Body v = e_Body e"
proof -
  let ?w = "add_headers server_Writer (e_Headers e) (setDebugHeaders server_Writer h st (new_response False))"
  have "rw_Status ?w = None" "rw_Body ?w = ''''"
    using server_writer.add_headers_frame server_writer.debug_frame by (simp_all add: new_response_def)
  moreover have "\<not> rw_HEAD ?w"
    by (simp add: add_headers_HEAD setDebugHeaders_def rw_set_def new_response_def)
  ultimately show ?thesis
    using server_respond_body [OF _ assms, of ?w "e_Body e"] by (simp add: writeEntry_def)
qed

lemma server_writeEntry_HEAD:
  assumes "200 \<le> e_StatusCode e" "e_StatusCode e < 300"
  shows "\<exists>v. writeEntry server_Writer e (setDebugHeaders server_Writer h st (new_response True)) = Returns v
    \<and> rw_Status v = Some (e_StatusCode e)"
  using server_writer.writeEntry_status [of e "setDebugHeaders server_Writer h st (new_response True)"]
    server_writer.debug_frame(1) [of h st "new_response True"] assms by (simp add: new_response_def)

section \<open>Properties\<close>

text \<open>C1: a storable response fetched for one request is what the next request with the same
  key gets, body and status alike, as long as the TTL has not run out; the origin is not
  asked again (the second transport is arbitrary).\<close>

theorem cached_answer_is_stored_answer:
  fixes L L' :: "'l world_lib"
  assumes "mb_inv (ps_cache s)" "1 \<le> maxEntries (ps_cache s)" "lookup (ps_cache s) (request_key r) = None"
    and "uses_cache h r" "wl_inflight L (request_key r) = None"
    and "fst (fetchFromOrigin L h r s) = Some e" "e_StatusCode e \<noteq> 204"
    and "fst (IsResponseStorable (ph_cachePolicy h) (e_StatusCode e) (e_Headers e))"
    and "uses_cache h r'" "request_key r' = request_key r"
    and "time_since (wl_clock L' 1) (wl_clock L 3) \<le> DetermineTTL (ph_cachePolicy h) (u_Path (r_URL r)) (e_Headers e)"
  shows "\<exists>v t v' t'. handleWithCache server_Writer L h (new_response False) r s = Returned v r t
    \<and> handleWithCache server_Writer L' h (new_response False) r' t = Returned v' r' t'
    \<and> rw_Status v = Some (e_StatusCode e) \<and> rw_Body v = e_Body e
    \<and> rw_Status v' = Some (e_StatusCode e) \<and> rw_Body v' = e_Body e"
proof -
  have code: "200 \<le> e_StatusCode e" "e_StatusCode e < 300"
    using assms(8) by (auto simp: IsResponseStorable_def Let_def split: if_splits)
  from store_then_serve [OF assms(1-6,8-11), of server_Writer "new_response False" "new_response False"]
    server_writeEntry [OF code assms(7), of h "''MISS''"] server_writeEntry [OF code assms(7), of h "''HIT''"]
  show ?thesis by fastforce
qed

theorem cached_answer_is_stored_answer_witness:
  "\<exists>v t v' t'. handleWithCache server_Writer (sample_world 0 ''hello'') sample_handler (new_response False)
        (sample_request ''/'' '''' \<lparr>r_Method := ''GET''\<rparr>) sample_state = Returned v (sample_request ''/'' '''' \<lparr>r_Method := ''GET''\<rparr>) t
    \<and> handleWithCache server_Writer (sample_world Second ''changed'') sample_handler (new_response False)
        (sample_request ''/'' '''' \<lparr>r_Method := ''GET''\<rparr>) t = Returned v' (sample_request ''/'' '''' \<lparr>r_Method := ''GET''\<rparr>) t'
    \<and> rw_Body v' = ''hello''"
proof -
  let ?r = "sample_request ''/'' '''' \<lparr>r_Method := ''GET''\<rparr>"
  let ?e = "\<lparr>e_Key = '''', e_StatusCode = 200, e_Headers = [], e_Body = ''hello'', e_StoredAt = 0, e_TTL = 0, e_Size = 5\<rparr>"
  have "fst (fetchFromOrigin (sample_world 0 ''hello'') sample_handler ?r sample_state) = Some ?e"
    by (simp add: sample_fetch)
  from cached_answer_is_stored_answer [where L' = "sample_world Second ''changed''" and r' = "?r",
      OF sample_state_cache sample_uses_cache _ this]
  show ?thesis
    by (simp add: sample_storable sample_uses_cache sample_ttl)
      (auto simp: sample_world_def time_since_def Second_def Millisecond_def)
qed

text \<open>C35: a HEAD request fills the cache for GET. The origin's answer to HEAD has no body;
  stored under the shared key, it is served to the next GET, which gets status 200 and nothing.\<close>

theorem head_empties_get:
  fixes L L' :: "'l world_lib"
  assumes "mb_inv (ps_cache s)" "1 \<le> maxEntries (ps_cache s)" "lookup (ps_cache s) (request_key r) = None"
    and "uses_cache h r" "wl_inflight L (request_key r) = None" "r_Method r = ''HEAD''"
    and "fst (fetchFromOrigin L h r s) = Some e" "e_Body e = ''''" "e_StatusCode e = 200"
    and "fst (IsResponseStorable (ph_cachePolicy h) 200 (e_Headers e))"
    and "uses_cache h (r\<lparr>r_Method := ''GET''\<rparr>)"
    and "time_since (wl_clock L' 1) (wl_clock L 3) \<le> DetermineTTL (ph_cachePolicy h) (u_Path (r_URL r)) (e_Headers e)"
  shows "\<exists>v t v' t'. handleWithCache server_Writer L h (new_response True) r s = Returned v r t
    \<and> handleWithCache server_Writer L' h (new_response False) (r\<lparr>r_Method := ''GET''\<rparr>) t = Returned v' (r\<lparr>r_Method := ''GET''\<rparr>) t'
    \<and> rw_Status v' = Some 200 \<and> rw_Body v' = ''''"
proof -
  have "ToUpper ''HEAD'' = ''HEAD''" "ToUpper ''GET'' = ''GET''" by code_simp+
  then have key: "request_key (r\<lparr>r_Method := ''GET''\<rparr>) = request_key r"
    using assms(6) by (simp add: request_key_def CacheKey_def Let_def)
  have st: "fst (IsResponseStorable (ph_cachePolicy h) (e_StatusCode e) (e_Headers e))" using assms(9,10) by simp
  from store_then_serve [OF assms(1-5,7) st assms(11) key assms(12), of server_Writer "new_response True" "new_response False"]
    server_writeEntry_HEAD [of e h "''MISS''"] server_writeEntry [of e h "''HIT''"] assms(8,9)
  show ?thesis by fastforce
qed

theorem head_empties_get_witness:
  "\<exists>v t v' t' r. handleWithCache server_Writer (sample_world 0 '''') sample_handler (new_response True)
        (sample_request ''/'' '''' \<lparr>r_Method := ''HEAD''\<rparr>) sample_state = Returned v (sample_request ''/'' '''' \<lparr>r_Method := ''HEAD''\<rparr>) t
    \<and> handleWithCache server_Writer (sample_world Second ''the page'') sample_handler (new_response False)
        (sample_request ''/'' '''' \<lparr>r_Method := ''GET''\<rparr>) t = Returned v' r t'
    \<and> rw_Status v' = Some 200 \<and> rw_Body v' = ''''"
proof -
  let ?r = "sample_request ''/'' '''' \<lparr>r_Method := ''HEAD''\<rparr>"
  let ?e = "\<lparr>e_Key = '''', e_StatusCode = 200, e_Headers = [], e_Body = '''', e_StoredAt = 0, e_TTL = 0, e_Size = 0\<rparr>"
  have "fst (fetchFromOrigin (sample_world 0 '''') sample_handler ?r sample_state) = Some ?e"
    by (simp add: sample_fetch)
  from head_empties_get [where L' = "sample_world Second ''the page''", OF sample_state_cache sample_uses_cache _ _ this]
  show ?thesis
    by (simp add: sample_storable sample_uses_cache sample_ttl)
      (force simp: sample_world_def time_since_def Second_def Millisecond_def)
qed

text \<open>The part of a body the firewall sees; \<open>None\<close> when reading it fails.\<close>

definition inspected_body :: "int \<Rightarrow> request \<Rightarrow> string option" where
  "inspected_body mx r =
     (case r_Body r of
        None \<Rightarrow> Some ''''
      | Some b \<Rightarrow>
          if r_ContentLength r = 0 then Some ''''
          else if br_fails b \<and> int (length (br_data b)) \<le> mx then None
          else Some (take (nat mx) (br_data b)))"

lemma inspected_body_read:
  assumes "inspected_body mx r = Some body" "0 \<le> mx" "mx < max_i64"
  shows "\<exists>b. (if r_Body r \<noteq> None \<and> r_ContentLength r \<noteq> 0 then ReadBodyForInspection r mx
    else Some (Inr ('''', r))) = Some (Inr (body, r\<lparr>r_Body := b\<rparr>))"
proof (cases "r_Body r")
  case None
  then have "body = ''''" "r\<lparr>r_Body := None\<rparr> = r" using assms(1) by (cases r; simp add: inspected_body_def)+
  then show ?thesis using None by (intro exI [of _ None]) simp
next
  case (Some b)
  show ?thesis
  proof (cases "r_ContentLength r = 0")
    case True
    then have "body = ''''" "r\<lparr>r_Body := Some b\<rparr> = r" using assms(1) Some by (cases r; simp add: inspected_body_def)+
    then show ?thesis using True by (intro exI [of _ "Some b"]) simp
  next
    case False
    then have ok: "\<not> (br_fails b \<and> int (length (br_data b)) \<le> mx)" "body = take (nat mx) (br_data b)"
      using assms(1) Some by (simp_all add: inspected_body_def split: if_splits)
    let ?d = "take (nat (mx + 1)) (br_data b)"
    have "i64 (mx + 1) = mx + 1" using assms(2,3) by simp
    then have "read_limited (i64 (mx + 1)) b = Some ?d"
      using ok(1) by (auto simp: read_limited_def)
    moreover have "int (length ?d) > mx \<Longrightarrow> take (nat mx) ?d = body" "\<not> int (length ?d) > mx \<Longrightarrow> ?d = body"
      using assms(2) ok(2) by (auto simp: min_def split: if_splits)
    ultimately show ?thesis using Some False assms(2) by (auto simp: ReadBodyForInspection_def Let_def)
  qed
qed

lemma body_frame:
  "normalize_request (r\<lparr>r_Body := b\<rparr>) = (normalize_request r)\<lparr>r_Body := b\<rparr>"
  "settling_rule e (r\<lparr>r_Body := b\<rparr>) body = settling_rule e r body"
  "GetRequestID (r\<lparr>r_Body := b\<rparr>) = GetRequestID r"
  by (simp_all add: normalize_request_def Let_def settling_rule_def rule_holds_def cond_holds_def UserAgent_def GetRequestID_def)

text \<open>C9: a request, with or without a body, whose settling rule blocks in enforce mode is answered with the status of
  that rule's id; cache and rate limiter stay as they were and nothing of the outside world
  (origin, clock, buckets) has a say in the outcome. What the rules see of a body is its part up
  to max_body_inspect_bytes.\<close>

theorem blocked_request_stops:
  fixes L L' :: "'l world_lib"
  assumes "u_Path (r_URL r) \<notin> {''/healthz'', ''/readyz'', ''/metrics''}"
    and "0 \<le> MaxBodyInspectBytes (Security (ph_cfg h))" "MaxBodyInspectBytes (Security (ph_cfg h)) < max_i64"
    and "inspected_body (MaxBodyInspectBytes (Security (ph_cfg h))) r = Some body"
    and "ph_wafEngine h = Some e" "0 \<le> wf_maxBodyInspect e" "wf_mode e = ''enforce''"
    and "settling_rule e (normalize_request r) body = Some rule" "wa_Type (wr_Action (wf_config rule)) = ''block''"
    and "GetBlockStatusCode e (wr_ID (wf_config rule)) \<in> {200 .. 999}"
  shows "\<exists>w' r' s'. ServeHTTP server_Writer L h (new_response isHEAD) r s = Returned w' r' s'
    \<and> ServeHTTP server_Writer L' h (new_response isHEAD) r s = Returned w' r' s'
    \<and> rw_Status w' = Some (GetBlockStatusCode e (wr_ID (wf_config rule)))
    \<and> ps_cache s' = ps_cache s \<and> ps_limiter s' = ps_limiter s"
proof -
  obtain b where b: "(if r_Body r \<noteq> None \<and> r_ContentLength r \<noteq> 0
      then ReadBodyForInspection r (MaxBodyInspectBytes (Security (ph_cfg h))) else Some (Inr ('''', r)))
      = Some (Inr (body, r\<lparr>r_Body := b\<rparr>))"
    using inspected_body_read [OF assms(4,2,3)] by blast
  let ?r = "normalize_request (r\<lparr>r_Body := b\<rparr>)"
  obtain d evs where d: "Evaluate e ?r body = Some (d, evs)" "d_Matched d"
      "d_RuleID d = wr_ID (wf_config rule)" "d_Action d = ''block''"
    using Evaluate_settled [OF assms(6), of ?r body] assms(7-9)
    by (auto simp: effective_action_def body_frame)
  let ?w = "wo_Set server_Writer ''X-Request-ID'' (GetRequestID ?r)
    (wo_Set server_Writer ''Content-Type'' ''application/json'' (new_response isHEAD))"
  let ?body = "''{\"error\":\"blocked by WAF\",\"rule_id\":\"'' @ d_RuleID d @ ''\"}''"
  obtain v where v: "respond server_Writer (GetBlockStatusCode e (wr_ID (wf_config rule))) ?body ?w = Returns v"
      "rw_Status v = Some (GetBlockStatusCode e (wr_ID (wf_config rule)))"
    using server_writer.respond_status [of "GetBlockStatusCode e (wr_ID (wf_config rule))" ?body ?w] assms(10)
    by (auto simp: new_response_def)
  have eq: "ServeHTTP server_Writer K h (new_response isHEAD) r s = Returned v ?r (emits (map WafEvent evs) s)"
    for K :: "'l world_lib"
  proof -
    have "ServeHTTP server_Writer K h (new_response isHEAD) r s = waf_step server_Writer K h body (new_response isHEAD) ?r s"
    proof -
      have "u_Path (r_URL r) \<noteq> ''/healthz''" "u_Path (r_URL r) \<noteq> ''/readyz''" "u_Path (r_URL r) \<noteq> ''/metrics''"
        using assms(1) by auto
      then show ?thesis by (simp only: ServeHTTP_def Let_def b option.case sum.case prod.case simp_thms if_False)
    qed
    also have "\<dots> = finish (respond server_Writer (GetBlockStatusCode e (d_RuleID d)) ?body ?w)
        ?r (emits (map WafEvent evs) s)"
      by (simp only: waf_step_def assms(5) option.case d(1) prod.case Let_def d(2,4) simp_thms if_True)
    finally show ?thesis by (simp only: d(3) v(1) [unfolded d(3)] finish.simps)
  qed
  show ?thesis using eq v(2) by simp
qed

text \<open>An upload whose body a rule blocks.\<close>

definition upload_rule :: compiled_rule where
  "upload_rule =
     \<lparr>wf_config = sample_rule ''upload'' ''block'' (no_condition\<lparr>wc_BodyRegex := ''union select''\<rparr>),
      wf_conditions = [\<lparr>cd_original = no_condition\<lparr>wc_BodyRegex := ''union select''\<rparr>,
        cd_pathRe = None, cd_queryRe = None, cd_bodyRe = sample_compile ''union select'', cd_headerRe = None,
        cd_uaRe = None, cd_ipNet = None\<rparr>]\<rparr>"

definition upload_handler :: proxy_handler where
  "upload_handler = sample_handler\<lparr>ph_wafEngine :=
     Some ((sample_engine ''enforce'')\<lparr>wf_rules := [upload_rule], wf_maxBodyInspect := 100\<rparr>)\<rparr>"

definition upload_request :: request where
  "upload_request = (sample_request ''/form'' '''')\<lparr>r_Method := ''POST'', r_ContentLength := 14,
     r_Body := Some \<lparr>br_data = ''q=union select'', br_fails = False\<rparr>\<rparr>"

theorem blocked_request_stops_witness:
  "\<exists>w' r' s'. ServeHTTP server_Writer (sample_world 0 ''hello'') upload_handler (new_response False) upload_request sample_state
      = Returned w' r' s' \<and> rw_Status w' = Some 403"
proof -
  let ?e = "(sample_engine ''enforce'')\<lparr>wf_rules := [upload_rule], wf_maxBodyInspect := 100\<rparr>"
  have mx: "MaxBodyInspectBytes (Security (ph_cfg upload_handler)) = 65536"
    by (simp add: upload_handler_def sample_handler_def sample_cfg_def Let_def applyDefaults_def default_security_def
        or_default_def sample_config_def)
  have body: "inspected_body 65536 upload_request = Some ''q=union select''"
    by (simp add: inspected_body_def upload_request_def)
  have "rule_holds 100 upload_rule r ''q=union select''" for r
    by (simp add: rule_holds_def cond_holds_def upload_rule_def sample_compile_def sample_contains)
  then have "settling_rule ?e (normalize_request upload_request) ''q=union select'' = Some upload_rule"
    by (simp add: settling_rule_def rule_decides_def) (simp add: upload_rule_def sample_rule_def)
  moreover have "GetBlockStatusCode ?e (wr_ID (wf_config upload_rule)) = 403"
    "wa_Type (wr_Action (wf_config upload_rule)) = ''block''"
    by (simp_all add: GetBlockStatusCode_def) (simp_all add: upload_rule_def sample_rule_def)
  moreover have "ph_wafEngine upload_handler = Some ?e" by (simp add: upload_handler_def)
  moreover have "u_Path (r_URL upload_request) = ''/form''" by (simp add: upload_request_def)
  ultimately show ?thesis
    using blocked_request_stops [of upload_request upload_handler "''q=union select''" ?e upload_rule
        "sample_world 0 ''hello''" False sample_state] mx body
    by (simp add: sample_engine_mode) blast
qed

text \<open>C16: a request the limiter denies is answered 429 before cache and origin are touched,
  whatever the origin would answer.\<close>

theorem denied_request_stops:
  assumes "ps_limiter s = Some l" "Allow (wl_rate L) (wl_clock L 0) r l = ((False, ident, rule), evs, l')"
  shows "\<exists>w' s'. rate_limit_step server_Writer L h (new_response isHEAD) r s = Returned w' r s'
    \<and> rate_limit_step server_Writer (L\<lparr>wl_RoundTrip := rt\<rparr>) h (new_response isHEAD) r s = Returned w' r s'
    \<and> rw_Status w' = Some 429 \<and> ps_cache s' = ps_cache s \<and> ps_limiter s' = Some l'"
proof -
  let ?w = "wo_Set server_Writer ''Retry-After'' ''1'' (wo_Set server_Writer ''Content-Type'' ''application/json'' (new_response isHEAD))"
  obtain v where "HandleDeny server_Writer (new_response isHEAD) ident = Returns v" "rw_Status v = Some 429"
    using server_writer.respond_status [of 429 "json_Encode (JObj [(''error'', JStr ''rate limit exceeded''), (''rule_id'', JStr ident)])" ?w]
    by (auto simp: HandleDeny_def new_response_def Let_def)
  then show ?thesis using assms by (simp add: rate_limit_step_def)
qed

theorem denied_request_stops_witness:
  "\<exists>w' s'. rate_limit_step server_Writer (sample_world 0 ''hello'') sample_handler (new_response False)
      (sample_request ''/login'' '''') (sample_state\<lparr>ps_limiter := Some (sample_limiter\<lparr>lm_store := [0],
         lm_limiters := [(''rl:login:ip:10.0.0.7'', \<lparr>le_limiter = 0, le_lastSeen = 0\<rparr>)]\<rparr>)\<rparr>)
    = Returned w' (sample_request ''/login'' '''') s' \<and> rw_Status w' = Some 429"
proof -
  let ?l = "sample_limiter\<lparr>lm_store := [0], lm_limiters := [(''rl:login:ip:10.0.0.7'', \<lparr>le_limiter = 0, le_lastSeen = 0\<rparr>)]\<rparr>"
  let ?r = "sample_request ''/login'' ''''"
  have ip: "extractClientIP (r_RemoteAddr ?r) = ''10.0.0.7''" unfolding sample_request_def by code_simp
  have "\<not> isExempt (lm_exemptions ?l) (extractClientIP (r_RemoteAddr ?r)) (u_Path (r_URL ?r))"
    using sample_limiter_facts(4) by simp
  then obtain evs l' where "Allow count_lib 0 ?r ?l = ((False, ''login'', Some (hd (rl_Rules sample_limit))), evs, l')"
    using sample_scope(1) [of "[]"] sample_scope(2) [of ?r "''10.0.0.7''"] ip
    by (simp add: Allow_def sample_limiter_facts(3) sample_limit_def getLimiter_def call_Allow_def count_lib_def Let_def)
  then show ?thesis
    using denied_request_stops [of "sample_state\<lparr>ps_limiter := Some ?l\<rparr>" ?l "sample_world 0 ''hello''" ?r]
    by (simp add: sample_world_def) blast
qed

text \<open>C36: on the cached path the client chooses the server that is asked as soon as its
  request line holds an absolute URL: the fetch goes to that host, not to the configured
  upstream, and names it in the Host header. Only a request in origin form goes to the
  upstream. The reverse proxy, which serves the requests that bypass the cache, always goes
  to the upstream, but passes the client's own Host header on.\<close>

theorem fetch_host:
  assumes "plain_target (ph_targetURL h)" "origin_form (r_URL r) \<or> absolute_form (r_URL r)"
    and "origin_request h r = Some out" "proxied_request (ph_targetURL h) r = Some out'"
  defines "asked \<equiv> if origin_form (r_URL r) then ph_targetURL h else r_URL r"
  shows "u_Host (o_URL out) = removeEmptyPort (u_Host asked) \<and> u_Scheme (o_URL out) = u_Scheme asked
    \<and> o_Host out = u_Host (o_URL out)
    \<and> u_Host (o_URL out') = u_Host (ph_targetURL h) \<and> u_Scheme (o_URL out') = u_Scheme (ph_targetURL h)
    \<and> o_Host out' = r_Host r"
proof -
  obtain query frag found where "Cut (CHR ''#'') (u_RawQuery (r_URL r)) = (query, frag, found)" by (rule prod_cases3)
  from resolved_Parse_String [OF assms(1,2) this] show ?thesis using assms(3,4)
    by (auto simp: asked_def origin_request_def Let_def proxied_request_def rewriteRequestURL_def split: if_splits prod.splits)
qed

abbreviation absolute_request :: request where
  "absolute_request \<equiv> sample_request ''/meta'' ''''
     \<lparr>r_URL := (r_URL (sample_request ''/meta'' ''''))\<lparr>u_Scheme := ''http'', u_Host := ''169.254.169.254''\<rparr>\<rparr>"

theorem fetch_host_witness:
  "\<exists>out out'. origin_request sample_handler absolute_request = Some out \<and> o_Host out = ''169.254.169.254''
    \<and> proxied_request (ph_targetURL sample_handler) absolute_request = Some out' \<and> u_Host (o_URL out') = ''origin:8000''"
proof -
  have "plain_host ''169.254.169.254''" "plain_scheme ''http''"
    using sample_target
    by (simp_all add: plain_host_def unreserved_def is_digit_def validOptionalPort_def less_eq_char_def
        plain_target_def sample_handler_def)
  then have form: "absolute_form (r_URL absolute_request)" "\<not> origin_form (r_URL absolute_request)"
    by (simp_all add: absolute_form_def origin_form_def plain_target_def plain_user_def sample_request_def)
  have "Cut (CHR ''#'') (u_RawQuery (r_URL absolute_request)) = ('''', '''', False)" by (simp add: sample_request_def)
  from resolved_Parse_String [OF sample_target disjI2 [OF form(1)] this]
  obtain out where out: "origin_request sample_handler absolute_request = Some out"
    by (auto simp: origin_request_def Let_def has_ctl_def)
  obtain out' where out': "proxied_request (ph_targetURL sample_handler) absolute_request = Some out'"
    by (simp add: proxied_request_def upgradeType_def header_Values_def HeaderValuesContainsToken_def is_print_def)
  have "u_Host (ph_targetURL sample_handler) = ''origin:8000''" "removeEmptyPort ''169.254.169.254'' = ''169.254.169.254''"
    by (simp_all add: sample_handler_def removeEmptyPort_def HasSuffix_def HasPrefix_def)
  with fetch_host [OF sample_target disjI2 [OF form(1)] out out'] form(2) out out' show ?thesis by simp
qed

text \<open>A response longer than max_request_body_bytes is cut off at that length without an
  error, its headers kept, and counts as a whole response for storing; even a failure of the
  connection behind that point goes unnoticed.\<close>

theorem long_response_truncated:
  assumes "origin_request h r = Some out" "wl_RoundTrip L out = OriginResponse code hs b"
    and "0 \<le> MaxRequestBodyBytes (Security (ph_cfg h))"
    and "MaxRequestBodyBytes (Security (ph_cfg h)) \<le> int (length (br_data b))"
  shows "\<exists>e. fst (fetchFromOrigin L h r s) = Some e \<and> e_StatusCode e = code \<and> e_Headers e = hs
    \<and> e_Body e = take (nat (MaxRequestBodyBytes (Security (ph_cfg h)))) (br_data b)
    \<and> e_Size e = MaxRequestBodyBytes (Security (ph_cfg h))"
  using assms by (simp add: fetchFromOrigin_def read_limited_def Let_def)

definition short_handler :: proxy_handler where
  "short_handler = sample_handler\<lparr>ph_cfg := sample_cfg\<lparr>Security := (Security sample_cfg)\<lparr>MaxRequestBodyBytes := 3\<rparr>\<rparr>\<rparr>"

theorem long_response_truncated_witness:
  "\<exists>e. fst (fetchFromOrigin (sample_world 0 ''hello'') short_handler (sample_request ''/'' '''') sample_state) = Some e
    \<and> e_Body e = ''hel''"
proof -
  obtain out where out: "origin_request short_handler (sample_request ''/'' '''') = Some out"
    using sample_origin_request [of short_handler "sample_request ''/'' ''''"] by (auto simp: short_handler_def)
  from long_response_truncated [OF this, of "sample_world 0 ''hello''" 200 "[]" "\<lparr>br_data = ''hello'', br_fails = False\<rparr>" sample_state] show ?thesis
    by (auto simp: sample_world_def short_handler_def numeral_eq_Suc)
qed

text \<open>C37: a request that finds another one for its key under way is served that one's response,
  whether or not it may be stored: a private answer or one that sets a cookie goes to every
  waiting client.\<close>

theorem waiting_request_shares_response:
  assumes "mb_inv (ps_cache s)" "lookup (ps_cache s) (request_key r) = None" "uses_cache h r"
    and "wl_inflight L (request_key r) = Some (SfEntry e)" "200 \<le> e_StatusCode e" "e_StatusCode e < 300" "e_StatusCode e \<noteq> 204"
  shows "\<exists>v t. handleWithCache server_Writer L h (new_response False) r s = Returned v r t
    \<and> rw_Status v = Some (e_StatusCode e) \<and> rw_Body v = e_Body e"
proof -
  obtain c where "Get (wl_clock L 1) (request_key r) (ps_cache s) = (None, c)"
    using Get_absent [OF assms(1,2)] by blast
  then show ?thesis
    using server_writeEntry [OF assms(5-7), of h "''MISS''"] assms(3,4)
    by (auto simp: handleWithCache_def uses_cache_def sf_Do_def)
qed

theorem waiting_request_shares_response_witness:
  "\<exists>v t. handleWithCache server_Writer (sample_world 0 '''' \<lparr>wl_inflight := (\<lambda>_. Some (SfEntry
        (sample_entry '''' 5 \<lparr>e_Headers := [(''Cache-Control'', [''private''])]\<rparr>)))\<rparr>) sample_handler (new_response False)
      (sample_request ''/me'' '''' \<lparr>r_Method := ''GET''\<rparr>) sample_state = Returned v (sample_request ''/me'' '''' \<lparr>r_Method := ''GET''\<rparr>) t
    \<and> rw_Body v = ''hello''
    \<and> \<not> fst (IsResponseStorable (ph_cachePolicy sample_handler) 200 [(''Cache-Control'', [''private''])])"
proof -
  let ?e = "sample_entry '''' 5 \<lparr>e_Headers := [(''Cache-Control'', [''private''])]\<rparr>"
  let ?L = "sample_world 0 '''' \<lparr>wl_inflight := (\<lambda>_. Some (SfEntry ?e))\<rparr>"
  have e: "wl_inflight ?L k = Some (SfEntry ?e)" "200 \<le> e_StatusCode ?e" "e_StatusCode ?e < 300"
      "e_StatusCode ?e \<noteq> 204" "e_Body ?e = ''hello''" for k
    by (simp_all add: sample_entry_def)
  have "Contains (ToLower (header_Get [(''Cache-Control'', [''private''])] ''Cache-Control'')) ''private''"
    by code_simp
  then have "\<not> fst (IsResponseStorable (ph_cachePolicy sample_handler) 200 [(''Cache-Control'', [''private''])])"
    by (simp add: IsResponseStorable_def Let_def)
  moreover have "uses_cache sample_handler (sample_request ''/me'' '''' \<lparr>r_Method := ''GET''\<rparr>)"
    by (rule sample_uses_cache) simp
  ultimately show ?thesis
    using waiting_request_shares_response [OF sample_state_cache(1) sample_state_cache(3) _ e(1-4), of sample_handler
        "sample_request ''/me'' '''' \<lparr>r_Method := ''GET''\<rparr>"]
    unfolding e(5) by blast
qed

end
