(* ===== verification/ServeMux.thy ===== *)
theory ServeMux
  imports UrlResolve Middleware
begin

text \<open>
  \<open>http.ServeMux\<close> of Go 1.22 as \<open>server.go\<close> uses it: patterns without methods, hosts and
  wildcards. A pattern is its literal segments, and whether it ends in a slash and so covers
  the subtree. The request path is matched in its escaped form, segment by segment after
  unescaping; outside \<open>CONNECT\<close> a path that is not clean is answered with a redirect, and
  so is \<open>/tree\<close> when only \<open>/tree/\<close> is registered.
\<close>

type_synonym mux_pattern = "string list \<times> bool"

definition pathUnescape :: "string \<Rightarrow> string" where
  "pathUnescape s = (case PathUnescape s of None \<Rightarrow> s | Some u \<Rightarrow> u)"

function path_segments :: "string \<Rightarrow> string list" where
  "path_segments [] = []"
| "path_segments (c # cs) =
     (if c # cs = ''/'' then [''/'']
      else pathUnescape (takeWhile (\<lambda>d. d \<noteq> CHR ''/'') cs) # path_segments (dropWhile (\<lambda>d. d \<noteq> CHR ''/'') cs))"
  by pat_completeness auto
termination by (relation "measure length") (simp_all add: le_imp_less_Suc length_dropWhile_le)

definition pat_matches :: "mux_pattern \<Rightarrow> string list \<Rightarrow> bool" where
  "pat_matches pat segs =
     (if snd pat then length (fst pat) < length segs \<and> take (length (fst pat)) segs = fst pat
      else segs = fst pat)"

text \<open>The most specific pattern: a literal one, else the longest subtree.\<close>

definition mux_find :: "(mux_pattern \<times> 'h) list \<Rightarrow> string \<Rightarrow> (mux_pattern \<times> 'h) option" where
  "mux_find pats path =
     (let ms = filter (\<lambda>(pat, h). pat_matches pat (path_segments path)) pats
      in case find (\<lambda>(pat, h). \<not> snd pat) ms of
           Some m \<Rightarrow> Some m
         | None \<Rightarrow>
             (case rev (sort_key (\<lambda>(pat, h). length (fst pat)) ms) of [] \<Rightarrow> None | m # _ \<Rightarrow> Some m))"

definition exactMatch :: "(mux_pattern \<times> 'h) option \<Rightarrow> string \<Rightarrow> bool" where
  "exactMatch n path =
     (case n of
        None \<Rightarrow> False
      | Some ((segs, tree), h) \<Rightarrow>
          if \<not> tree then True
          else if path \<noteq> '''' \<and> last path \<noteq> CHR ''/'' then False
          else length segs + 1 = length (filter (\<lambda>c. c = CHR ''/'') path))"

definition cleanPath :: "string \<Rightarrow> string" where
  "cleanPath p =
     (if p = '''' then ''/''
      else
        let p = (if hd p \<noteq> CHR ''/'' then ''/'' @ p else p);
            np = Clean p
        in if last p = CHR ''/'' \<and> np \<noteq> ''/'' then np @ ''/'' else np)"

text \<open>The matching pattern, or the query and path of a redirect that adds the slash.\<close>

definition matchOrRedirect ::
  "(mux_pattern \<times> 'h) list \<Rightarrow> string \<Rightarrow> url option \<Rightarrow> (mux_pattern \<times> 'h) option \<times> (string \<times> string) option" where
  "matchOrRedirect pats path u =
     (let n = mux_find pats path
      in case u of
           None \<Rightarrow> (n, None)
         | Some u \<Rightarrow>
             if \<not> exactMatch n path \<and> \<not> HasSuffix path ''/'' \<and> exactMatch (mux_find pats (path @ ''/'')) (path @ ''/'')
             then (None, Some (cleanPath (u_Path u) @ ''/'', u_RawQuery u))
             else (n, None))"

datatype 'h mux_target = MuxHandler 'h | MuxRedirect string string | MuxNotFound

definition findHandler :: "(mux_pattern \<times> 'h) list \<Rightarrow> request \<Rightarrow> 'h mux_target" where
  "findHandler pats r =
     (let escapedPath = EscapedPath (r_URL r);
          found = (\<lambda>n. case n of None \<Rightarrow> MuxNotFound | Some (pat, h) \<Rightarrow> MuxHandler h)
      in if r_Method r = ''CONNECT''
         then (case snd (matchOrRedirect pats escapedPath (Some (r_URL r))) of
                 Some (p, q) \<Rightarrow> MuxRedirect p q
               | None \<Rightarrow> found (fst (matchOrRedirect pats escapedPath None)))
         else
           let path = cleanPath escapedPath
           in case matchOrRedirect pats path (Some (r_URL r)) of
                (n, Some (p, q)) \<Rightarrow> MuxRedirect p q
              | (n, None) \<Rightarrow>
                  if path \<noteq> escapedPath then MuxRedirect path (u_RawQuery (r_URL r)) else found n)"

section \<open>Redirects\<close>

definition hex_lower :: "nat \<Rightarrow> char" where
  "hex_lower n = ''0123456789abcdef'' ! n"

definition hexEscapeNonASCII :: "string \<Rightarrow> string" where
  "hexEscapeNonASCII s =
     concat (map (\<lambda>c. if ord c < 128 then [c]
                      else [CHR ''%'', hex_lower (ord c div 16), hex_lower (ord c mod 16)]) s)"

definition htmlEscape :: "string \<Rightarrow> string" where
  "htmlEscape s =
     concat (map (\<lambda>c. if c = CHR ''&'' then ''&amp;'' else if c = CHR ''<'' then ''&lt;''
                      else if c = CHR ''>'' then ''&gt;'' else if c = CHR 0x22 then ''&#34;''
                      else if c = CHR 0x27 then ''&#39;'' else [c]) s)"

text \<open>\<open>URL.String\<close> of a URL that has a rooted path and a query only.\<close>

definition path_url_String :: "string \<Rightarrow> string \<Rightarrow> string" where
  "path_url_String p q =
     (if p = ''*'' then ''*'' else escape EncodePath p) @ (if q = '''' then '''' else ''?'' @ q)"

text \<open>\<open>http.Redirect\<close> with status 301 to such a URL.\<close>

definition Redirect301 :: "'w ResponseWriter \<Rightarrow> string \<Rightarrow> 'w \<Rightarrow> request \<Rightarrow> 'w call" where
  "Redirect301 W target w r =
     (let (p, q) = (case Index target ''?'' of None \<Rightarrow> (target, '''') | Some i \<Rightarrow> (take i target, drop i target));
          c = Clean p;
          c = (if HasSuffix p ''/'' \<and> \<not> HasSuffix c ''/'' then c @ ''/'' else c);
          loc = c @ q;
          hadCT = map_of (wo_Header W w) ''Content-Type'' \<noteq> None;
          w = wo_Set W ''Location'' (hexEscapeNonASCII loc) w;
          w = (if \<not> hadCT \<and> r_Method r \<in> {''GET'', ''HEAD''}
               then wo_Set W ''Content-Type'' ''text/html; charset=utf-8'' w else w)
      in and_then (wo_WriteHeader W 301 w) (\<lambda>w.
           Returns (if \<not> hadCT \<and> r_Method r = ''GET''
                    then wo_Write W (''<a href=\"'' @ htmlEscape loc @ ''\">Moved Permanently</a>.'' @ [CHR 0x0A, CHR 0x0A]) w
                    else w)))"

text \<open>\<open>ServeMux.ServeHTTP\<close>; the request target \<open>*\<close> is refused, over HTTP/1.1 with the
  connection closed.\<close>

definition mux_ServeHTTP ::
  "'w ResponseWriter \<Rightarrow> (mux_pattern \<times> ('w, 's) handler) list \<Rightarrow> ('w, 's) handler" where
  "mux_ServeHTTP W pats w r s =
     (if u_Path (r_URL r) = ''*''
      then finish (wo_WriteHeader W 400 (wo_Set W ''Connection'' ''close'' w)) r s
      else
        case findHandler pats r of
          MuxHandler h \<Rightarrow> h w r s
        | MuxRedirect p q \<Rightarrow> finish (Redirect301 W (path_url_String p q) w r) r s
        | MuxNotFound \<Rightarrow> finish (http_Error W ''404 page not found'' 404 w) r s)"

end
