(* ===== verification/Server.thy ===== *)
theory Server
  imports ProxyHandler ServeMux
begin

text \<open>
  \<open>proxy/internal/server/server.go\<close>: the public server with its middleware chain and the
  admin server, each behind a \<open>ServeMux\<close>. The metrics handler of
  \<open>github.com/prometheus/client_golang\<close> is an argument \<open>prom\<close>; it answers and leaves the state of the
  program alone. The request id that \<open>github.com/google/uuid\<close> draws for a request is the argument of the
  public server's handler.
\<close>

record ('w, 's) http_server =
  hs_Addr :: string
  hs_Handler :: "string \<Rightarrow> ('w, 's) handler"
  hs_ReadTimeout :: duration
  hs_WriteTimeout :: duration
  hs_IdleTimeout :: duration
  hs_MaxHeaderBytes :: int

definition stateless :: "('w \<Rightarrow> request \<Rightarrow> 'w) \<Rightarrow> ('w, 's) handler" where
  "stateless h w r s = Returned (h w r) r s"

definition public_chain ::
  "'w ResponseWriter \<Rightarrow> (string list \<Rightarrow> bool) \<Rightarrow> string \<Rightarrow> ('w statusWriter, 'l proxy_state) handler \<Rightarrow> ('w, 'l proxy_state) handler" where
  "public_chain W label_ok ident handler =
     RequestID W ident (AccessLog W label_ok emit (Recovery (status_Writer W) emit handler))"

definition public_mux ::
  "('w \<Rightarrow> request \<Rightarrow> 'w) \<Rightarrow> ('w, 's) handler \<Rightarrow> (mux_pattern \<times> ('w, 's) handler) list" where
  "public_mux prom chain = [(([''metrics''], False), stateless prom), (([], True), chain)]"

definition NewPublicServer ::
  "'w ResponseWriter \<Rightarrow> (string list \<Rightarrow> bool) \<Rightarrow> ('w \<Rightarrow> request \<Rightarrow> 'w) \<Rightarrow> server_config
     \<Rightarrow> ('w statusWriter, 'l proxy_state) handler \<Rightarrow> ('w, 'l proxy_state) http_server" where
  "NewPublicServer W label_ok prom cfg handler =
     \<lparr>hs_Addr = ListenAddr cfg,
      hs_Handler = (\<lambda>ident. mux_ServeHTTP W (public_mux prom (public_chain W label_ok ident handler))),
      hs_ReadTimeout = ReadTimeout cfg, hs_WriteTimeout = WriteTimeout cfg,
      hs_IdleTimeout = IdleTimeout cfg, hs_MaxHeaderBytes = MaxHeaderBytes cfg\<rparr>"

text \<open>The health endpoint of the admin server, and the admin handler on the shared cache.\<close>

definition health :: "'w ResponseWriter \<Rightarrow> 'w \<Rightarrow> request \<Rightarrow> 'w" where
  "health W w r = wo_Write W ''{\"status\":\"ok\"}'' (wo_Set W ''Content-Type'' ''application/json'' w)"

definition admin_handler ::
  "'w ResponseWriter \<Rightarrow> string \<Rightarrow> ('w, 'l proxy_state) handler" where
  "admin_handler W authToken w r s =
     (case admin_ServeHTTP W memory_Backend authToken (ps_cache s) w r of
        (c, b) \<Rightarrow> finish c r (s\<lparr>ps_cache := b\<rparr>))"

definition admin_mux ::
  "'w ResponseWriter \<Rightarrow> ('w \<Rightarrow> request \<Rightarrow> 'w) \<Rightarrow> ('w, 's) handler \<Rightarrow> (mux_pattern \<times> ('w, 's) handler) list" where
  "admin_mux W prom adminHandler =
     [(([''admin''], True), adminHandler), (([''metrics''], False), stateless prom),
      (([''healthz''], False), stateless (health W))]"

definition NewAdminServer ::
  "'w ResponseWriter \<Rightarrow> ('w \<Rightarrow> request \<Rightarrow> 'w) \<Rightarrow> server_config
     \<Rightarrow> ('w, 'l proxy_state) handler \<Rightarrow> ('w, 'l proxy_state) http_server" where
  "NewAdminServer W prom cfg adminHandler =
     \<lparr>hs_Addr = AdminListenAddr cfg,
      hs_Handler = (\<lambda>ident. mux_ServeHTTP W (admin_mux W prom adminHandler)),
      hs_ReadTimeout = ReadTimeout cfg, hs_WriteTimeout = WriteTimeout cfg,
      hs_IdleTimeout = IdleTimeout cfg, hs_MaxHeaderBytes = MaxHeaderBytes cfg\<rparr>"

section \<open>What the mux lets through\<close>

text \<open>A clean path is rooted and its segments are plain, but for a slash at the end.\<close>

lemma cleanPath_shape:
  "\<exists>segs. list_all plain_seg segs \<and>
     (cleanPath p = ''/'' @ Join segs ''/'' \<or> (segs \<noteq> [] \<and> cleanPath p = ''/'' @ Join segs ''/'' @ ''/''))"
proof -
  define q where "q = (if p \<noteq> '''' \<and> hd p \<noteq> CHR ''/'' then ''/'' @ p else if p = '''' then ''/'' else p)"
  have q: "HasPrefix q ''/''" by (cases p) (auto simp: q_def HasPrefix_def)
  have c: "Clean q = ''/'' @ Join (clean_segs q) ''/''"
    using q by (auto simp: Clean_def HasPrefix_def)
  have "clean_segs ''/'' = []" by code_simp
  then have "cleanPath p = Clean q \<or> (Clean q \<noteq> ''/'' \<and> cleanPath p = Clean q @ ''/'')"
    by (auto simp: cleanPath_def q_def Let_def Clean_def HasPrefix_def)
  moreover have "Clean q \<noteq> ''/'' \<Longrightarrow> clean_segs q \<noteq> []" using c by auto
  ultimately show ?thesis
    using clean_segs_plain [OF q] c by (intro exI [of _ "clean_segs q"]) auto
qed

lemma cleanPath_rooted: "HasPrefix (cleanPath p) ''/''"
  using cleanPath_shape [of p] by (auto simp: HasPrefix_def)

lemma unescape_slash: "unescape m (CHR ''/'' # s) = map_option (Cons (CHR ''/'')) (unescape m s)"
  by simp

lemma EscapedPath_rooted:
  assumes "HasPrefix (EscapedPath u) ''/''" 
  shows "HasPrefix (u_Path u) ''/''"
proof (cases "EscapedPath u = u_RawPath u \<and> unescape EncodePath (u_RawPath u) = Some (u_Path u)")
  case True
  then show ?thesis using assms
    by (cases "u_RawPath u") (auto simp: HasPrefix_def dest!: sym [where t = "u_Path u"])
next
  case False
  then have e: "EscapedPath u = escape EncodePath (u_Path u)"
    using assms by (auto simp: EscapedPath_def HasPrefix_def split: if_splits)
  show ?thesis
  proof (cases "u_Path u")
    case Nil
    then show ?thesis using assms e by (simp add: escape_def HasPrefix_def)
  next
    case (Cons c cs)
    then show ?thesis using assms e by (auto simp: escape_def escape_char_def HasPrefix_def split: if_splits)
  qed
qed

lemma path_segments_rooted: "HasPrefix p ''/'' \<Longrightarrow> path_segments p \<noteq> []"
  by (cases p) (auto simp: HasPrefix_def)

lemma public_find:
  assumes "path_segments path \<noteq> []"
  shows "mux_find (public_mux prom chain) path =
    Some (if path_segments path = [''metrics''] then (([''metrics''], False), stateless prom) else (([], True), chain))"
  using assms by (auto simp: mux_find_def public_mux_def pat_matches_def sort_key_def)

lemma path_segments_slash_end:
  "path_segments (p @ ''/'') \<noteq> [''metrics'']"
proof -
  have last: "path_segments (p @ ''/'') \<noteq> [] \<and> last (path_segments (p @ ''/'')) = ''/''"
  proof (induction "length p" arbitrary: p rule: less_induct)
    case less
    show ?case
    proof (cases p)
      case (Cons c cs)
      have d: "\<exists>q. dropWhile (\<lambda>d. d \<noteq> CHR ''/'') (cs @ ''/'') = q @ ''/'' \<and> length q < length p"
        using Cons by (induction cs arbitrary: p c) (auto simp: less_Suc_eq)
      then obtain q where "dropWhile (\<lambda>d. d \<noteq> CHR ''/'') (cs @ ''/'') = q @ ''/''" "length q < length p" by blast
      then show ?thesis using less [of q] Cons by simp
    qed simp
  qed
  then show ?thesis by auto
qed

lemma public_no_slash_redirect:
  assumes "HasPrefix path ''/''" "\<not> HasSuffix path ''/''"
  shows "\<not> exactMatch (mux_find (public_mux prom chain) (path @ ''/'')) (path @ ''/'')"
proof -
  obtain cs where cs: "path = CHR ''/'' # cs" using assms(1) by (cases path) (auto simp: HasPrefix_def)
  have "path_segments (path @ ''/'') \<noteq> []" using cs by simp
  then have "mux_find (public_mux prom chain) (path @ ''/'') = Some (([], True), chain)"
    using public_find [of "path @ ''/''" prom chain] path_segments_slash_end [of path] by (simp only: not_False_eq_True if_False)
  then show ?thesis by (simp add: exactMatch_def cs)
qed

lemma public_target:
  assumes "r_Method r \<noteq> ''CONNECT''"
  shows "findHandler (public_mux prom chain) r =
    (let e = EscapedPath (r_URL r); path = cleanPath e
     in if path \<noteq> e then MuxRedirect path (u_RawQuery (r_URL r))
        else if path_segments path = [''metrics''] then MuxHandler (stateless prom) else MuxHandler chain)"
proof -
  let ?path = "cleanPath (EscapedPath (r_URL r))"
  have "matchOrRedirect (public_mux prom chain) ?path (Some (r_URL r)) = (mux_find (public_mux prom chain) ?path, None)"
    using public_no_slash_redirect [OF cleanPath_rooted, of "EscapedPath (r_URL r)" prom chain]
    by (auto simp: matchOrRedirect_def Let_def)
  then show ?thesis
    using assms public_find [OF path_segments_rooted [OF cleanPath_rooted], of prom chain "EscapedPath (r_URL r)"]
    by (auto simp: findHandler_def Let_def)
qed

text \<open>So a request that reaches the middleware has a rooted path.\<close>

lemma chain_path_rooted:
  assumes "findHandler (public_mux prom chain) r = MuxHandler h" "r_Method r \<noteq> ''CONNECT''"
  shows "HasPrefix (u_Path (r_URL r)) ''/''"
proof -
  have "cleanPath (EscapedPath (r_URL r)) = EscapedPath (r_URL r)"
    using assms by (auto simp: public_target Let_def split: if_splits)
  then show ?thesis using cleanPath_rooted EscapedPath_rooted by metis
qed

section \<open>Whatever the mux answers\<close>

text \<open>The mux runs one of the registered handlers or answers itself.\<close>

lemma mux_find_in: "mux_find pats path = Some (pat, h) \<Longrightarrow> (pat, h) \<in> set pats"
proof -
  let ?ms = "filter (\<lambda>(pat, h). pat_matches pat (path_segments path)) pats"
  assume a: "mux_find pats path = Some (pat, h)"
  show ?thesis
  proof (cases "find (\<lambda>(pat, h). \<not> snd pat) ?ms")
    case None
    then have "(pat, h) \<in> set (rev (sort_key (\<lambda>(pat, h). length (fst pat)) ?ms))"
      using a by (auto simp: mux_find_def Let_def simp del: set_rev set_sort split: list.splits)
    then show ?thesis by (simp only: set_rev set_sort set_filter) blast
  next
    case (Some x)
    then have "x \<in> set ?ms" by (rule find_in)
    then show ?thesis using a Some by (auto simp: mux_find_def Let_def)
  qed
qed

lemma findHandler_in:
  assumes "findHandler pats r = MuxHandler h"
  shows "\<exists>pat. (pat, h) \<in> set pats"
proof -
  obtain path pat where "mux_find pats path = Some (pat, h)"
    using assms
    by (auto simp: findHandler_def matchOrRedirect_def Let_def split: if_splits option.splits prod.splits)
  then show ?thesis by (blast dest: mux_find_in)
qed

lemma mux_cases:
  "(\<exists>c. mux_ServeHTTP W pats w r s = finish c r s)
   \<or> (\<exists>pat h. (pat, h) \<in> set pats \<and> mux_ServeHTTP W pats w r s = h w r s)"
  by (cases "findHandler pats r") (auto simp: mux_ServeHTTP_def dest!: findHandler_in)

lemma Returned_finish: "\<exists>c. Returned w r s = finish c r s"
  by (rule exI [of _ "Returns w"]) simp

lemma public_cases:
  "(\<exists>c. mux_ServeHTTP W (public_mux prom chain) w r s = finish c r s)
   \<or> mux_ServeHTTP W (public_mux prom chain) w r s = chain w r s"
  using mux_cases [of W "public_mux prom chain" w r s] by (auto simp: public_mux_def stateless_def Returned_finish)

lemma admin_cases:
  "(\<exists>c. mux_ServeHTTP W (admin_mux W prom h) w r s = finish c r s)
   \<or> mux_ServeHTTP W (admin_mux W prom h) w r s = h w r s"
  using mux_cases [of W "admin_mux W prom h" w r s] by (auto simp: admin_mux_def stateless_def Returned_finish)

text \<open>The mux's own answers never panic, and Recovery turns panics into answers.\<close>

lemma Redirect301_returns: "\<exists>v. Redirect301 server_Writer target w r = Returns v"
proof -
  have "\<exists>v. WriteHeader 301 v' = Returns v" for v' using server_writer.valid_code [of 301 v'] by auto
  then show ?thesis
    by (auto simp: Redirect301_def Let_def split: prod.split option.split) (metis and_then.simps(1))+
qed

lemma mux_returns:
  "(\<exists>w'. mux_ServeHTTP server_Writer pats w r s = Returned w' r s)
   \<or> (\<exists>pat h. (pat, h) \<in> set pats \<and> mux_ServeHTTP server_Writer pats w r s = h w r s)"
proof -
  have "\<exists>v. WriteHeader 400 v' = Returns v" for v' using server_writer.valid_code [of 400 v'] by auto
  moreover have "\<exists>v. http_Error server_Writer msg 404 v' = Returns v" for msg v'
    using server_writer.error_status [of 404 msg v'] by auto
  ultimately show ?thesis
    using Redirect301_returns [of _ w r] findHandler_in [of pats r]
    by (cases "findHandler pats r") (auto simp: mux_ServeHTTP_def, (metis finish.simps(1))+)
qed

text \<open>With Recovery inside, the chain returns, unless the metrics refuse the path.\<close>

lemma chain_returns:
  assumes "\<And>w r. handler w r s \<noteq> Hangs"
  shows "\<exists>w' r' s'. public_chain server_Writer label_ok ident handler w r s = Returned w' r' s'
    \<or> (public_chain server_Writer label_ok ident handler w r s = Panicked w' r' s'
       \<and> (\<exists>st. \<not> (label_ok [r_Method r', show_int st, u_Path (r_URL r')] \<and> label_ok [r_Method r', u_Path (r_URL r')])))"
proof -
  let ?w = "new_statusWriter (rw_set ''X-Request-ID'' ident w)"
  let ?r = "r\<lparr>r_RequestID := Some ident\<rparr>"
  let ?rec = "Recovery (status_Writer server_Writer) emit handler ?w ?r s"
  have "\<exists>w' r' s'. ?rec = Returned w' r' s'"
  proof (cases "handler ?w ?r s")
    case (Panicked w1 r1 s1)
    obtain v where "http_Error (status_Writer server_Writer) ''{\"error\":\"internal server error\"}'' 500 w1 = Returns v"
      using logged_writer.error_status [of 500 "''{\"error\":\"internal server error\"}''" w1] by auto
    then show ?thesis using Panicked by (simp add: Recovery_def)
  qed (use assms in \<open>simp_all add: Recovery_def\<close>)
  then show ?thesis by (auto simp: public_chain_def RequestID_def AccessLog_def Let_def)
qed

section \<open>Properties\<close>

text \<open>C17: a request other than CONNECT that the public server takes either goes through the
  middleware, and then the path the firewall, the cache and the origin are shown has no dot segments
  and no double slash, or it is answered by the mux (redirect, metrics, bad request)
  without the handler and without touching the state.\<close>

theorem served_paths_normal:
  assumes "r_Method r \<noteq> ''CONNECT''"
  shows "(mux_ServeHTTP W (public_mux prom chain) w r s = chain w r s
      \<and> HasPrefix (u_Path (r_URL (normalize_request r))) ''/''
      \<and> ''.'' \<notin> set (Split (CHR ''/'') (u_Path (r_URL (normalize_request r))))
      \<and> ''..'' \<notin> set (Split (CHR ''/'') (u_Path (r_URL (normalize_request r))))
      \<and> \<not> Contains (u_Path (r_URL (normalize_request r))) ''//'')
    \<or> (\<exists>c. \<forall>chain. mux_ServeHTTP W (public_mux prom chain) w r s = finish c r s)"
proof (cases "u_Path (r_URL r) = ''*'' \<or> cleanPath (EscapedPath (r_URL r)) \<noteq> EscapedPath (r_URL r)
    \<or> path_segments (EscapedPath (r_URL r)) = [''metrics'']")
  case True
  then show ?thesis
    by (intro disjI2; cases "u_Path (r_URL r) = ''*''"; cases "cleanPath (EscapedPath (r_URL r)) = EscapedPath (r_URL r)")
      (auto simp: mux_ServeHTTP_def public_target [OF assms] Let_def stateless_def Returned_finish)
next
  case False
  then have "HasPrefix (u_Path (r_URL r)) ''/''"
    using cleanPath_rooted [of "EscapedPath (r_URL r)"] EscapedPath_rooted by metis
  from Path_plain [OF decode_path_rooted [OF this]] False show ?thesis
    by (simp add: mux_ServeHTTP_def public_target [OF assms] Let_def normalize_request_def)
qed

text \<open>Encoded dot segments pass the mux, which looks at the escaped path, and are resolved by
  the handler; plain ones are redirected.\<close>

abbreviation encoded_dots :: request where
  "encoded_dots \<equiv> sample_request ''/../secret'' ''''
     \<lparr>r_URL := (r_URL (sample_request ''/../secret'' ''''))\<lparr>u_RawPath := ''/%2e%2e/secret''\<rparr>\<rparr>"

theorem served_paths_normal_witness:
  "mux_ServeHTTP server_Writer (public_mux (\<lambda>w r. w) (\<lambda>w r s. Hangs)) (new_response False) encoded_dots () = Hangs
   \<and> ''..'' \<notin> set (Split (CHR ''/'') (u_Path (r_URL (normalize_request encoded_dots))))"
proof -
  let ?pub = "\<lambda>chain. mux_ServeHTTP server_Writer (public_mux (\<lambda>w r. w) chain) (new_response False) encoded_dots ()"
  have m: "r_Method encoded_dots \<noteq> ''CONNECT''" by (simp add: sample_request_def)
  have "EscapedPath (r_URL encoded_dots) = ''/%2e%2e/secret''" "cleanPath ''/%2e%2e/secret'' = ''/%2e%2e/secret''"
      "path_segments ''/%2e%2e/secret'' \<noteq> [''metrics'']" "u_Path (r_URL encoded_dots) \<noteq> ''*''"
    unfolding sample_request_def by code_simp+
  then have hangs: "?pub (\<lambda>w r s. Hangs) = Hangs"
    by (simp add: mux_ServeHTTP_def public_target [OF m] Let_def)
  then have "\<not> (\<exists>c. \<forall>chain. ?pub chain = finish c encoded_dots ())"
    by (metis finish.elims outcome.distinct(3) outcome.distinct(5))
  then show ?thesis
    using hangs served_paths_normal [OF m, of server_Writer "\<lambda>w r. w" "\<lambda>w r s. Hangs" "new_response False" "()"]
    by blast
qed

end
