(* ===== verification/System.thy ===== *)
theory System
  imports ProxyProps Server
begin

text \<open>
  The running program: requests on the public server, calls of the admin API and ticks of
  the limiter's cleanup, in any order (\<open>app.go\<close> starts them on shared state), as a step
  relation, with the invariant of its reachable states.
\<close>

section \<open>Steps of the program\<close>

text \<open>One request through the public chain, one call of the admin API on the same backend,
  or one tick of the cleanup goroutine. A hanging request takes no step: it holds the
  lock of the cache for good.\<close>

inductive proxy_step :: "proxy_handler \<Rightarrow> 'l proxy_state \<Rightarrow> 'l proxy_state \<Rightarrow> bool" for h where
  step_request:
    "outcome_state (hs_Handler (NewPublicServer server_Writer label_ok prom srv (ServeHTTP (status_Writer server_Writer) L h)) ident w r s) = Some t
      \<Longrightarrow> proxy_step h s t"
| step_admin:
    "outcome_state (hs_Handler (NewAdminServer server_Writer prom srv (admin_handler server_Writer token)) ident w r s) = Some t
      \<Longrightarrow> proxy_step h s t"
| step_cleanup:
    "ps_limiter s = Some l \<Longrightarrow> proxy_step h s (s\<lparr>ps_limiter := Some (cleanup_tick now l)\<rparr>)"

definition initial_state :: "config \<Rightarrow> rate_limit_config option \<Rightarrow> 'l proxy_state" where
  "initial_state cfg rl =
     \<lparr>ps_cache = NewMemoryBackend (MaxEntries (CacheCfg cfg)) (MaxBytes (CacheCfg cfg)),
      ps_limiter = Some (NewLimiter rl True), ps_events = []\<rparr>"

definition sys_inv :: "proxy_handler \<Rightarrow> 'l proxy_state \<Rightarrow> bool" where
  "sys_inv h = state_ok (cache_ok (ph_cachePolicy h)) lm_inv"

definition sys_live :: "proxy_handler \<Rightarrow> 'l proxy_state \<Rightarrow> bool" where
  "sys_live h = state_ok (live_cache (ph_cachePolicy h)) lm_inv"

section \<open>What the servers keep\<close>

text \<open>The middleware keeps what the handler keeps; and it turns a panic into an answer, so
  only a hang is passed on.\<close>

lemma public_chain_keeps:
  fixes I :: "'l proxy_state \<Rightarrow> bool"
  assumes "\<And>e s. I (emit e s) = I s" "\<And>w r. keeps live I (handler w r s)"
  shows "keeps live I (public_chain W label_ok ident handler w r s)"
proof -
  let ?w = "new_statusWriter (wo_Set W ''X-Request-ID'' ident w)"
  let ?r = "r\<lparr>r_RequestID := Some ident\<rparr>"
  let ?rec = "Recovery (status_Writer W) emit handler ?w ?r s"
  have "keeps live I ?rec"
    using assms(2) [of ?w ?r] assms(1) by (cases "handler ?w ?r s") (simp_all add: Recovery_def)
  then show ?thesis using assms(1)
    by (cases ?rec) (simp_all add: public_chain_def RequestID_def AccessLog_def Let_def)
qed

lemma public_server_keeps:
  assumes "\<And>e s. I (emit e s) = I s" "I s" "\<And>w r. keeps live I (handler w r s)"
  shows "keeps live I (hs_Handler (NewPublicServer W label_ok prom srv handler) ident w r s)"
proof -
  have "keeps live I (public_chain W label_ok ident handler w r s)"
    by (rule public_chain_keeps) (rule assms(1), rule assms(3))
  then show ?thesis
    using public_cases [of W prom "public_chain W label_ok ident handler" w r s] assms(2) by (auto simp: NewPublicServer_def)
qed

lemma admin_server_keeps:
  assumes "purge_contract memory_Backend Q" "state_ok Q P s"
  shows "keeps live (state_ok Q P) (hs_Handler (NewAdminServer W prom srv (admin_handler W token)) ident w r s)"
proof -
  obtain c b where cb: "admin_ServeHTTP W memory_Backend token (ps_cache s) w r = (c, b)" by fastforce
  have "Q b" using purge_contract.admin_ok [OF assms(1) _ cb] assms(2) by (simp add: state_ok_def)
  then have "state_ok Q P (s\<lparr>ps_cache := b\<rparr>)" using assms(2) by (simp add: state_ok_def)
  then show ?thesis using assms(2) admin_cases [of W prom "admin_handler W token" w r s] cb
    by (auto simp: NewAdminServer_def admin_handler_def)
qed

interpretation admin_safe: purge_contract memory_Backend "cache_ok p" for p
proof (unfold_locales, goal_cases)
  case (1 b k) then show ?case using backend_step_cache_ok(1) [of p b "OpDelete k"] by simp
next
  case (2 b k) then show ?case using backend_step_cache_ok(1) [of p b "OpDeleteByPath k"] by simp
next
  case (3 b k) then show ?case using backend_step_cache_ok(1) [of p b "OpDeleteByPrefix k"] by simp
next
  case (4 b) then show ?case using backend_step_cache_ok(1) [of p b "OpPurge"] by simp
qed

interpretation admin_live: purge_contract memory_Backend "live_cache p" for p
proof (unfold_locales, goal_cases)
  case (1 b k) then show ?case using backend_step_live [of p b "OpDelete k"] by simp
next
  case (2 b k) then show ?case using backend_step_live [of p b "OpDeleteByPath k"] by simp
next
  case (3 b k) then show ?case using backend_step_live [of p b "OpDeleteByPrefix k"] by simp
next
  case (4 b) then show ?case using backend_step_live [of p b "OpPurge"] by simp
qed

section \<open>Reachable states\<close>

lemma proxy_step_keeps:
  fixes s t :: "'l proxy_state"
  assumes "handler_contract h Q (lm_inv :: 'l limiter \<Rightarrow> bool) live" "purge_contract memory_Backend Q"
    and "proxy_step h s t" "state_ok Q lm_inv s"
  shows "state_ok Q lm_inv t"
  using assms(3,4)
proof (induction rule: proxy_step.induct)
  case (step_request label_ok prom srv L ident w r s t)
  have "keeps live (state_ok Q lm_inv) (hs_Handler (NewPublicServer server_Writer label_ok prom srv
      (ServeHTTP (status_Writer server_Writer) L h)) ident w r s)"
    by (rule public_server_keeps)
      (use step_request(2) handler_contract.serve_ok [OF assms(1) step_request(2)] in simp_all)
  then show ?case using step_request(1) by (rule keepsD)
next
  case (step_admin prom srv token ident w r s t)
  from admin_server_keeps [OF assms(2) step_admin(2)] step_admin(1) show ?case by (rule keepsD)
next
  case (step_cleanup s l now)
  then show ?case by (simp add: state_ok_def lm_inv_cleanup)
qed

lemma reachable_keeps:
  fixes s t :: "'l proxy_state"
  shows "(proxy_step h)\<^sup>*\<^sup>* s t \<Longrightarrow> handler_contract h Q (lm_inv :: 'l limiter \<Rightarrow> bool) live \<Longrightarrow> purge_contract memory_Backend Q
     \<Longrightarrow> state_ok Q lm_inv s \<Longrightarrow> state_ok Q lm_inv t"
  by (induction rule: rtranclp_induct) (auto intro: proxy_step_keeps)

lemma reachable_inv: "(proxy_step h)\<^sup>*\<^sup>* s t \<Longrightarrow> sys_inv h s \<Longrightarrow> sys_inv h t"
  unfolding sys_inv_def
  by (rule reachable_keeps [OF _ safe.handler_contract_axioms admin_safe.purge_contract_axioms])

lemma reachable_live: "(proxy_step h)\<^sup>*\<^sup>* s t \<Longrightarrow> sys_live h s \<Longrightarrow> sys_live h t"
  unfolding sys_live_def
  by (rule reachable_keeps [OF _ live.handler_contract_axioms admin_live.purge_contract_axioms])

lemma initial_inv:
  "0 \<le> MaxBytes (CacheCfg cfg) \<Longrightarrow> sys_inv h (initial_state cfg rl)"
  by (simp add: sys_inv_def initial_state_def state_ok_def lm_inv_new cache_ok_new)

lemma initial_live:
  "0 \<le> MaxBytes (CacheCfg cfg) \<Longrightarrow> 1 \<le> MaxEntries (CacheCfg cfg) \<Longrightarrow> sys_live h (initial_state cfg rl)"
  by (simp add: sys_live_def initial_state_def state_ok_def lm_inv_new live_cache_new)

section \<open>A sample step\<close>

text \<open>A sample step: the public chain answers a request from the origin and stores the answer.\<close>

abbreviation plain_handler :: proxy_handler where
  "plain_handler \<equiv> sample_handler\<lparr>ph_wafEngine := None\<rparr>"

abbreviation sample_forwarded :: request where
  "sample_forwarded \<equiv> SetForwardedHeaders False (normalize_request (sample_request ''/page'' '''' \<lparr>r_RequestID := Some ''id-1''\<rparr>))"

lemma sample_forwarded_header:
  "r_Header sample_forwarded = [(''X-Forwarded-For'', [''10.0.0.7'']), (''X-Forwarded-Proto'', [''http''])] \<or>
   r_Header sample_forwarded = [(''X-Forwarded-Proto'', [''http'']), (''X-Forwarded-For'', [''10.0.0.7''])]"
  unfolding sample_request_def normalize_request_def by code_simp

lemma forwarded_form: "origin_form (r_URL sample_forwarded)" "u_RawQuery (r_URL sample_forwarded) = ''''"
proof -
  have "Path ''/page'' = ''/page''" by code_simp
  then show "origin_form (r_URL sample_forwarded)" "u_RawQuery (r_URL sample_forwarded) = ''''"
    by (simp_all add: SetForwardedHeaders_frame normalize_request_def sample_request_def origin_form_def)
qed

lemma header_names:
  "CanonicalHeaderKey ''Authorization'' = ''Authorization''" "CanonicalHeaderKey ''Cookie'' = ''Cookie''"
  "CanonicalHeaderKey ''Cache-Control'' = ''Cache-Control''"
  "CanonicalHeaderKey ''X-OpenFlare-No-Cache'' = ''X-Openflare-No-Cache''" 
  "CanonicalHeaderKey ''Accept-Encoding'' = ''Accept-Encoding''" "CanonicalHeaderKey ''Upgrade'' = ''Upgrade''"
  by code_simp+

lemma sample_forwarded_uses: "uses_cache plain_handler sample_forwarded"
proof -
  have "r_Method sample_forwarded = ''GET''"
    by (simp add: SetForwardedHeaders_frame normalize_request_def sample_request_def)
  then show ?thesis
    using sample_forwarded_header
    by (auto simp: uses_cache_def IsRequestCacheable_def header_Get_def header_names)
qed

lemma plain_stores:
  "\<exists>v t. ServeHTTP (status_Writer server_Writer) (sample_world 0 ''hello'') plain_handler (new_statusWriter (rw_set ''X-Request-ID'' ''id-1'' (new_response False)))
      (sample_request ''/page'' '''' \<lparr>r_RequestID := Some ''id-1''\<rparr>) (initial_state sample_cfg None) = Returned v sample_forwarded t
    \<and> lookup (ps_cache t) (request_key sample_forwarded) \<noteq> None"
proof -
  let ?W = "status_Writer server_Writer" and ?w = "new_statusWriter (rw_set ''X-Request-ID'' ''id-1'' (new_response False))"
  let ?n = "normalize_request (sample_request ''/page'' '''' \<lparr>r_RequestID := Some ''id-1''\<rparr>)"
  let ?s = "emits [] (initial_state sample_cfg None)"
  let ?e = "\<lparr>e_Key = '''', e_StatusCode = 200, e_Headers = [], e_Body = ''hello'', e_StoredAt = 0, e_TTL = 0, e_Size = 5\<rparr>"
  have cfg: "MaxEntries (CacheCfg sample_cfg) = 10" "CacheEnabled (CacheCfg sample_cfg)"
      "\<not> TrustXForwardedFor (Security sample_cfg)" "0 \<le> MaxBytes (CacheCfg sample_cfg)"
      "ph_cfg plain_handler = sample_cfg"
    by (simp_all add: sample_cfg_def Let_def applyDefaults_def sample_config_def sample_handler_def
        default_cache_def default_security_def or_default_def)
  have s: "mb_inv (ps_cache ?s)" "1 \<le> maxEntries (ps_cache ?s)" "lookup (ps_cache ?s) k = None" for k
    using cfg(1,4) by (simp_all add: initial_state_def mb_inv_new) (simp_all add: NewMemoryBackend_def lookup_def mb_abs_def)
  have f: "fst (fetchFromOrigin (sample_world 0 ''hello'') plain_handler sample_forwarded ?s) = Some ?e"
    using sample_max sample_origin_request [of plain_handler sample_forwarded] forwarded_form
    by (auto simp: fetchFromOrigin_def sample_world_def Let_def read_limited_def)
  obtain t where t: "handleWithCache ?W (sample_world 0 ''hello'') plain_handler ?w sample_forwarded ?s =
        finish (writeEntry ?W (stored_entry (sample_world 0 ''hello'') plain_handler sample_forwarded ?e) (setDebugHeaders ?W plain_handler ''MISS'' ?w)) sample_forwarded t"
      "lookup (ps_cache t) (request_key sample_forwarded) \<noteq> None"
    using handle_miss [OF s(1) s(2) s(3) sample_forwarded_uses _ f, of ?W ?w] sample_storable by (auto simp: sample_world_def)
  have fresh: "rw_Status (sw_ResponseWriter (setDebugHeaders ?W plain_handler ''MISS'' ?w)) = None"
    by (simp add: logged_writer.debug_frame(1) new_statusWriter_def new_response_def)
  obtain v where "writeEntry ?W (stored_entry (sample_world 0 ''hello'') plain_handler sample_forwarded ?e) (setDebugHeaders ?W plain_handler ''MISS'' ?w) = Returns v"
    using logged_writer.writeEntry_status [of "stored_entry (sample_world 0 ''hello'') plain_handler sample_forwarded ?e"
        "setDebugHeaders ?W plain_handler ''MISS'' ?w"] fresh by (auto simp: stored_entry_def)
  moreover have "ServeHTTP ?W (sample_world 0 ''hello'') plain_handler ?w (sample_request ''/page'' '''' \<lparr>r_RequestID := Some ''id-1''\<rparr>) (initial_state sample_cfg None)
      = handleWithCache ?W (sample_world 0 ''hello'') plain_handler ?w sample_forwarded ?s"
    using cfg
    by (simp add: ServeHTTP_def waf_step_def rate_limit_step_def forward_def initial_state_def Allow_def NewLimiter_def
        isExempt_def sample_request_def emits_def Let_def split: option.split)
  ultimately show ?thesis using t by auto
qed

abbreviation plain_chain :: "(response, int proxy_state) handler" where
  "plain_chain \<equiv> public_chain server_Writer (\<lambda>_. True) ''id-1''
     (ServeHTTP (status_Writer server_Writer) (sample_world 0 ''hello'') plain_handler)"

lemma plain_chain_stores:
  "\<exists>s e. outcome_state (plain_chain (new_response False) (sample_request ''/page'' '''') (initial_state sample_cfg None)) = Some s
    \<and> lookup (ps_cache s) (request_key sample_forwarded) = Some e"
proof -
  let ?w = "rw_set ''X-Request-ID'' ''id-1'' (new_response False)"
  obtain v t where t: "ServeHTTP (status_Writer server_Writer) (sample_world 0 ''hello'') plain_handler (new_statusWriter ?w)
      (sample_request ''/page'' '''' \<lparr>r_RequestID := Some ''id-1''\<rparr>) (initial_state sample_cfg None) = Returned v sample_forwarded t"
    "lookup (ps_cache t) (request_key sample_forwarded) \<noteq> None"
    using plain_stores by blast
  then show ?thesis by (auto simp: public_chain_def RequestID_def AccessLog_def Recovery_def Let_def)
qed

lemma plain_step:
  "\<exists>(s :: int proxy_state) e. proxy_step plain_handler (initial_state sample_cfg None) s \<and> lookup (ps_cache s) (request_key sample_forwarded) = Some e"
proof -
  obtain s e where s: "outcome_state (plain_chain (new_response False) (sample_request ''/page'' '''') (initial_state sample_cfg None)) = Some s"
      "lookup (ps_cache s) (request_key sample_forwarded) = Some e"
    using plain_chain_stores by blast
  have m: "r_Method (sample_request ''/page'' '''') \<noteq> ''CONNECT''" by (simp add: sample_request_def)
  have p: "EscapedPath (r_URL (sample_request ''/page'' '''')) = ''/page''" "cleanPath ''/page'' = ''/page''"
      "path_segments ''/page'' \<noteq> [''metrics'']" "u_Path (r_URL (sample_request ''/page'' '''')) \<noteq> ''*''"
    unfolding sample_request_def by code_simp+
  have "mux_ServeHTTP server_Writer (public_mux (\<lambda>w r. w) plain_chain) (new_response False) (sample_request ''/page'' '''') (initial_state sample_cfg None)
      = plain_chain (new_response False) (sample_request ''/page'' '''') (initial_state sample_cfg None)"
    using p by (simp add: mux_ServeHTTP_def public_target [OF m] Let_def)
  then have "proxy_step plain_handler (initial_state sample_cfg None) s"
    using step_request [of "\<lambda>_. True" "\<lambda>w r. w" "Server sample_cfg" "sample_world 0 ''hello''" plain_handler "''id-1''" "new_response False"
        "sample_request ''/page'' ''''" "initial_state sample_cfg None" s] s(1) by (simp add: NewPublicServer_def)
  then show ?thesis using s(2) by blast
qed

text \<open>Requests are answered as long as the cache has room for an entry.\<close>

lemma request_answered:
  assumes "(proxy_step h)\<^sup>*\<^sup>* (initial_state cfg rl) s" "1 \<le> MaxEntries (CacheCfg cfg)" "0 \<le> MaxBytes (CacheCfg cfg)"
  shows "\<exists>w' r' s'. (proxy_step h)\<^sup>*\<^sup>* (initial_state cfg rl) s'
    \<and> (let out = hs_Handler (NewPublicServer server_Writer label_ok prom srv (ServeHTTP (status_Writer server_Writer) L h)) ident w r s
       in out = Returned w' r' s'
        \<or> (out = Panicked w' r' s'
           \<and> (\<exists>st. \<not> (label_ok [r_Method r', show_int st, u_Path (r_URL r')] \<and> label_ok [r_Method r', u_Path (r_URL r')]))))"
proof -
  let ?serve = "ServeHTTP (status_Writer server_Writer) L h"
  define out where "out = hs_Handler (NewPublicServer server_Writer label_ok prom srv ?serve) ident w r s"
  have "sys_live h s" using reachable_live [OF assms(1) initial_live [OF assms(3,2)]] .
  then have "keeps True (state_ok (live_cache (ph_cachePolicy h)) lm_inv) (?serve w r s)" for w r
    unfolding sys_live_def by (rule live.serve_ok)
  then have h: "?serve w r s \<noteq> Hangs" for w r by (rule keeps_live)
  obtain w' r' s' where out: "out = Returned w' r' s' \<or> (out = Panicked w' r' s'
      \<and> (\<exists>st. \<not> (label_ok [r_Method r', show_int st, u_Path (r_URL r')] \<and> label_ok [r_Method r', u_Path (r_URL r')])))"
  proof -
    let ?chain = "public_chain server_Writer label_ok ident ?serve"
    have "(\<exists>w'. out = Returned w' r s) \<or> out = ?chain w r s"
      using mux_returns [of "public_mux prom ?chain" w r s]
      by (auto simp: out_def NewPublicServer_def public_mux_def stateless_def)
    then show thesis using that chain_returns [of ?serve s label_ok ident w r, OF h] by metis
  qed
  then have "outcome_state out = Some s'" by auto
  then have "proxy_step h s s'" unfolding out_def by (rule step_request)
  then have "(proxy_step h)\<^sup>*\<^sup>* (initial_state cfg rl) s'" using assms(1) by (blast intro: rtranclp.rtrancl_into_rtrancl)
  then show ?thesis using out unfolding out_def [symmetric] Let_def by blast
qed

section \<open>Properties\<close>

text \<open>Whatever requests, admin calls and cleanup ticks the program has served, in any order,
  the cache holds only responses the policy lets it store (2xx, not private, no cookie when
  so configured), each under its own key and with its true size; the entry bound and, but
  for a single oversize entry, the byte budget are respected; and every key of the limiter
  has its own bucket.\<close>

theorem reachable_states_safe:
  assumes "(proxy_step h)\<^sup>*\<^sup>* (initial_state cfg rl) s" "0 \<le> MaxBytes (CacheCfg cfg)"
    and "lookup (ps_cache s) k = Some e"
  shows "fst (IsResponseStorable (ph_cachePolicy h) (e_StatusCode e) (e_Headers e)) \<and> e_Key e = k
    \<and> e_Size e = int (length (e_Body e)) \<and> mb_inv (ps_cache s)
    \<and> (maxEntries (ps_cache s) \<le> 0 \<or> within_limits (ps_cache s))
    \<and> (case ps_limiter s of None \<Rightarrow> True | Some l \<Rightarrow> lm_inv l)"
proof -
  have "sys_inv h s" using reachable_inv [OF assms(1)] initial_inv [OF assms(2)] by blast
  then show ?thesis using assms(3)
    by (auto simp: sys_inv_def state_ok_def cache_ok_def entry_ok_def split: option.split)
qed

theorem reachable_states_safe_witness:
  "\<exists>(s :: int proxy_state) e. (proxy_step plain_handler)\<^sup>*\<^sup>* (initial_state sample_cfg None) s
    \<and> lookup (ps_cache s) (request_key sample_forwarded) = Some e \<and> e_Key e = request_key sample_forwarded \<and> mb_inv (ps_cache s)"
proof -
  obtain s :: "int proxy_state" and e where s: "proxy_step plain_handler (initial_state sample_cfg None) s" "lookup (ps_cache s) (request_key sample_forwarded) = Some e"
    using plain_step by blast
  have "0 \<le> MaxBytes (CacheCfg sample_cfg)"
    by (simp add: sample_cfg_def Let_def applyDefaults_def sample_config_def default_cache_def or_default_def)
  have "(proxy_step plain_handler)\<^sup>*\<^sup>* (initial_state sample_cfg None) s" by (rule r_into_rtranclp) (rule s(1))
  from reachable_states_safe [OF this \<open>0 \<le> MaxBytes (CacheCfg sample_cfg)\<close> s(2)] this s(2) show ?thesis by blast
qed

text \<open>C32: a panic of the handler does not leave the middleware chain when the metrics accept
  the method and path of the request (they accept valid UTF-8): the client is answered 500,
  unless a final status had gone out before, and the panic and the access are logged.\<close>

theorem panic_becomes_500:
  assumes "handler (new_statusWriter (rw_set ''X-Request-ID'' ident (new_response isHEAD))) (r\<lparr>r_RequestID := Some ident\<rparr>) s
      = Panicked w1 r1 s1"
    and "\<forall>ls. list_all valid_utf8 ls \<longrightarrow> label_ok ls" "valid_utf8 (r_Method r1)" "valid_utf8 (u_Path (r_URL r1))"
  shows "\<exists>w' s'. public_chain server_Writer label_ok ident handler (new_response isHEAD) r s = Returned w' r1 s'
    \<and> rw_Status w' = Some (case rw_Status (sw_ResponseWriter w1) of None \<Rightarrow> 500 | Some code \<Rightarrow> code)
    \<and> ps_cache s' = ps_cache s1
    \<and> PanicEvent ident \<in> set (ps_events s') \<and> (\<exists>e \<in> set (ps_events s'). is_AccessEvent e \<and> ev_id e = GetRequestID r1)"
proof -
  obtain v where v: "http_Error (status_Writer server_Writer) ''{\"error\":\"internal server error\"}'' 500 w1 = Returns v"
      "rw_Status (sw_ResponseWriter v) = Some (case rw_Status (sw_ResponseWriter w1) of None \<Rightarrow> 500 | Some code \<Rightarrow> code)"
    using logged_writer.error_status [of 500 "''{\"error\":\"internal server error\"}''" w1] by auto
  have "Recovery (status_Writer server_Writer) emit handler
      (new_statusWriter (rw_set ''X-Request-ID'' ident (new_response isHEAD))) (r\<lparr>r_RequestID := Some ident\<rparr>) s
    = Returned v r1 (emit (PanicEvent ident) s1)"
    by (simp only: Recovery_def assms(1) outcome.case v(1) finish.simps) (simp add: GetRequestID_def)
  moreover have "label_ok [r_Method r1, show_int (sw_status v), u_Path (r_URL r1)]" "label_ok [r_Method r1, u_Path (r_URL r1)]"
    using assms(2-4) valid_utf8_ascii [OF show_int_ascii] by simp_all
  ultimately show ?thesis using v(2)
    by (simp add: public_chain_def RequestID_def AccessLog_def Let_def emit_def)
qed

theorem panic_becomes_500_witness:
  "\<exists>w' s'. public_chain server_Writer (list_all valid_utf8) ''id-1'' (\<lambda>w r s. Panicked w r s) (new_response False)
      (sample_request ''/'' '''') sample_state
      = Returned w' (sample_request ''/'' '''' \<lparr>r_RequestID := Some ''id-1''\<rparr>) s' \<and> rw_Status w' = Some 500"
proof -
  have "rw_Status (sw_ResponseWriter (new_statusWriter (rw_set ''X-Request-ID'' ''id-1'' (new_response False)))) = None"
    by (simp add: new_statusWriter_def new_response_def)
  moreover have "valid_utf8 (r_Method (sample_request ''/'' ''''))" "valid_utf8 (u_Path (r_URL (sample_request ''/'' '''')))"
    by (simp_all add: sample_request_def)
  ultimately show ?thesis
    using panic_becomes_500 [of "\<lambda>w r s. Panicked w r s" "''id-1''" False "sample_request ''/'' ''''" sample_state
        _ "sample_request ''/'' '''' \<lparr>r_RequestID := Some ''id-1''\<rparr>" _ "list_all valid_utf8"] by auto
qed

text \<open>C34: a path that is not valid UTF-8, such as the one of \<open>/%ff\<close>, makes the metrics panic after
  the handler has answered, outside the recovery: the panic goes up to the server.\<close>

theorem invalid_path_panics:
  assumes "handler (new_statusWriter (wo_Set W ''X-Request-ID'' ident w)) (r\<lparr>r_RequestID := Some ident\<rparr>) s = Returned w1 r1 s1"
    and "\<forall>ls. label_ok ls \<longrightarrow> list_all valid_utf8 ls" "\<not> valid_utf8 (u_Path (r_URL r1))"
  shows "\<exists>s'. public_chain W label_ok ident handler w r s = Panicked (sw_ResponseWriter w1) r1 s' \<and> ps_cache s' = ps_cache s1"
proof -
  have "\<not> label_ok [r_Method r1, show_int (sw_status w1), u_Path (r_URL r1)]" using assms(2,3) by auto
  then show ?thesis using assms(1)
    by (simp add: public_chain_def RequestID_def AccessLog_def Recovery_def Let_def emit_def)
qed

theorem invalid_path_panics_witness:
  "\<exists>w' s'. public_chain server_Writer (list_all valid_utf8) ''id-1'' (\<lambda>w r s. Returned w (normalize_request r) s) (new_response False)
      (sample_request ''/%ff'' '''') sample_state
    = Panicked w' (normalize_request (sample_request ''/%ff'' '''' \<lparr>r_RequestID := Some ''id-1''\<rparr>)) s'"
proof -
  have "Path ''/%ff'' = [CHR ''/'', CHR 0xFF]" "\<not> valid_utf8 [CHR ''/'', CHR 0xFF]" by code_simp+
  then have "\<not> valid_utf8 (u_Path (r_URL (normalize_request (sample_request ''/%ff'' '''' \<lparr>r_RequestID := Some ''id-1''\<rparr>))))"
    by (simp add: normalize_request_def sample_request_def)
  then show ?thesis
    using invalid_path_panics [of "\<lambda>w r s. Returned w (normalize_request r) s" server_Writer "''id-1''" "new_response False"
        "sample_request ''/%ff'' ''''" sample_state _ _ _ "list_all valid_utf8"] by auto
qed

text \<open>With a token configured, no request to the admin server that lacks it changes the cache,
  the limiter or anything else, whichever of its paths it names.\<close>

theorem admin_server_guarded:
  assumes "token \<noteq> ''''" "header_Get (r_Header r) ''Authorization'' \<noteq> token"
    and "\<nexists>b. EqualFold b ''Bearer'' \<and> header_Get (r_Header r) ''Authorization'' = b @ '' '' @ token"
  shows "\<exists>c. hs_Handler (NewAdminServer W prom srv (admin_handler W token)) ident w r s = finish c r s"
proof -
  have "\<not> authenticate token r" using authenticate_sound assms by blast
  then have "admin_handler W token w r s = finish (json_error W 401 ''unauthorized'' w) r s"
    by (simp add: admin_handler_def admin_ServeHTTP_def)
  then show ?thesis using admin_cases [of W prom "admin_handler W token" w r s] by (auto simp: NewAdminServer_def)
qed

theorem admin_server_guarded_witness:
  "\<exists>c. hs_Handler (NewAdminServer server_Writer (\<lambda>w r. w) (Server sample_cfg) (admin_handler server_Writer ''secret''))
      '''' (new_response False) (sample_request ''/admin/cache/purge-all'' '''' \<lparr>r_Method := ''POST''\<rparr>) sample_state
    = finish c (sample_request ''/admin/cache/purge-all'' '''' \<lparr>r_Method := ''POST''\<rparr>) sample_state"
proof -
  have "header_Get (r_Header (sample_request ''/admin/cache/purge-all'' '''' \<lparr>r_Method := ''POST''\<rparr>)) ''Authorization'' = ''''"
    by (simp add: header_Get_def)
  then show ?thesis by (intro admin_server_guarded) simp_all
qed

end
