(* ===== verification/Program.thy ===== *)
theory Program
  imports Prelude
begin

text \<open>
  Programs of atomic actions: what a goroutine does to the shared state, one critical
  section at a time. An action may not return (the lock is never released); \<open>Do\<close> is a call of
  \<open>singleflight.Group.Do\<close>, which either runs its function or gets the result another run of
  the same key has published. \<open>run\<close> executes a program with no other one in between;
  \<open>Interleave\<close> interleaves many.
\<close>

section \<open>Programs\<close>

datatype (dead 's, dead 'k, dead 'r, 'a) prog =
    Ret 'a
  | Act "'s \<Rightarrow> (('s, 'k, 'r, 'a) prog \<times> 's) option"
  | Do 'k "('s, 'k, 'r, 'a) prog" "'r \<Rightarrow> ('s, 'k, 'r, 'a) prog"
  | Publish 'k 'r "('s, 'k, 'r, 'a) prog"

primrec bind :: "('s, 'k, 'r, 'a) prog \<Rightarrow> ('a \<Rightarrow> ('s, 'k, 'r, 'b) prog) \<Rightarrow> ('s, 'k, 'r, 'b) prog" where
  "bind (Ret a) g = g a"
| "bind (Act f) g = Act (\<lambda>s. map_option (map_prod (\<lambda>p. p g) id) (map_option (map_prod bind id) (f s)))"
| "bind (Do k own cont) g = Do k (bind own g) (\<lambda>res. bind (cont res) g)"
| "bind (Publish k res p) g = Publish k res (bind p g)"

definition atomically :: "('s \<Rightarrow> ('a \<times> 's) option) \<Rightarrow> ('s, 'k, 'r, 'a) prog" where
  "atomically g = Act (\<lambda>s. map_option (map_prod Ret id) (g s))"

definition query :: "('s \<Rightarrow> 'a \<times> 's) \<Rightarrow> ('s, 'k, 'r, 'a) prog" where
  "query g = atomically (\<lambda>s. Some (g s))"

definition update :: "('s \<Rightarrow> 's) \<Rightarrow> ('s, 'k, 'r, unit) prog" where
  "update f = query (\<lambda>s. ((), f s))"

definition single_flight :: "'k \<Rightarrow> ('s, 'k, 'r, 'r) prog \<Rightarrow> ('s, 'k, 'r, 'r) prog" where
  "single_flight k p = Do k (bind p (\<lambda>res. Publish k res (Ret res))) Ret"

section \<open>Running a program alone\<close>

lemma prog_induct [case_names Ret Act Do Publish]:
  assumes "\<And>a. P (Ret a)" "\<And>f. (\<And>s p s'. f s = Some (p, s') \<Longrightarrow> P p) \<Longrightarrow> P (Act f)"
    and "\<And>k own cont. P own \<Longrightarrow> (\<And>res. P (cont res)) \<Longrightarrow> P (Do k own cont)"
    and "\<And>k res p. P p \<Longrightarrow> P (Publish k res p)"
  shows "P p"
proof (induction p)
  case (Act f)
  have "P p" if "f s = Some (p, s')" for s p s'
    using Act [of "Some (p, s')" "(p, s')" p] that by (simp add: range_eqI [of _ f s])
  then show ?case by (rule assms(2))
qed (use assms in auto)

text \<open>\<open>fl k\<close> is the result of the call under way for a key, if there is one. \<open>None\<close>: the program hangs.\<close>

primrec run :: "('s, 'k, 'r, 'a) prog \<Rightarrow> ('k \<Rightarrow> 'r option) \<Rightarrow> 's \<Rightarrow> ('a \<times> 's) option" where
  "run (Ret a) = (\<lambda>fl s. Some (a, s))"
| "run (Act f) = (\<lambda>fl s. case map_option (map_prod run id) (f s) of None \<Rightarrow> None | Some (p, s') \<Rightarrow> p fl s')"
| "run (Do k own cont) = (\<lambda>fl s. case fl k of None \<Rightarrow> run own fl s | Some res \<Rightarrow> run (cont res) fl s)"
| "run (Publish k res p) = (\<lambda>fl s. run p fl s)"

lemma run_bind:
  "run (bind p g) fl s = (case run p fl s of None \<Rightarrow> None | Some (a, s') \<Rightarrow> run (g a) fl s')"
proof (induction p arbitrary: s rule: prog_induct)
  case (Act f)
  then show ?case by (cases "f s") auto
qed (simp_all split: option.split)

lemma run_atomically [simp]: "run (atomically g) fl s = g s"
  by (cases "g s") (auto simp: atomically_def)

lemma run_query [simp]: "run (query g) fl s = Some (g s)"
  by (simp add: query_def)

lemma run_update [simp]: "run (update f) fl s = Some ((), f s)"
  by (simp add: update_def)

lemma run_single_flight:
  "run (single_flight k p) fl s = (case fl k of None \<Rightarrow> run p fl s | Some res \<Rightarrow> Some (res, s))"
  by (auto simp: single_flight_def run_bind split: option.split)

section \<open>What every action keeps\<close>

text \<open>\<open>prog_ok live I R p\<close>: from a state with \<open>I\<close>, every action of \<open>p\<close> leads to one, whatever other
  programs do in between, and results published under a key are in \<open>R\<close>; a result taken over
  may be relied on to be in \<open>R\<close>. With \<open>live\<close>, every action returns.\<close>

primrec prog_ok :: "bool \<Rightarrow> ('s \<Rightarrow> bool) \<Rightarrow> ('k \<Rightarrow> 'r \<Rightarrow> bool) \<Rightarrow> ('a \<Rightarrow> bool) \<Rightarrow> ('s, 'k, 'r, 'a) prog \<Rightarrow> bool" where
  "prog_ok live I R A (Ret a) = A a"
| "prog_ok live I R A (Act f) =
     (\<forall>s. I s \<longrightarrow> (case map_option (map_prod (prog_ok live I R A) id) (f s) of
        None \<Rightarrow> \<not> live | Some (ok, s') \<Rightarrow> ok \<and> I s'))"
| "prog_ok live I R A (Do k own cont) = (prog_ok live I R A own \<and> (\<forall>res. R k res \<longrightarrow> prog_ok live I R A (cont res)))"
| "prog_ok live I R A (Publish k res p) = (R k res \<and> prog_ok live I R A p)"

lemma case_map_prod:
  "(case map_option (map_prod g id) x of None \<Rightarrow> P | Some (ok, s') \<Rightarrow> ok \<and> Q s')
    = (case x of None \<Rightarrow> P | Some (p, s') \<Rightarrow> g p \<and> Q s')"
  by (cases x) auto

lemma prog_ok_Act:
  "prog_ok live I R A (Act f) \<longleftrightarrow>
     (\<forall>s. I s \<longrightarrow> (case f s of None \<Rightarrow> \<not> live | Some (p, s') \<Rightarrow> prog_ok live I R A p \<and> I s'))"
  by (simp only: prog_ok.simps case_map_prod)

declare prog_ok.simps(2) [simp del]

lemma prog_ok_ActI:
  assumes "\<And>s. I s \<Longrightarrow> f s = None \<Longrightarrow> \<not> live"
    and "\<And>s p s'. I s \<Longrightarrow> f s = Some (p, s') \<Longrightarrow> prog_ok live I R A p \<and> I s'"
  shows "prog_ok live I R A (Act f)"
  unfolding prog_ok_Act using assms by (auto split: option.split)

lemma prog_ok_ActD:
  assumes "prog_ok live I R A (Act f)" "I s"
  shows "f s = None \<Longrightarrow> \<not> live" "f s = Some (p, s') \<Longrightarrow> prog_ok live I R A p" "f s = Some (p, s') \<Longrightarrow> I s'"
  using assms unfolding prog_ok_Act by force+

lemma prog_ok_bind:
  "prog_ok live I R A p \<Longrightarrow> (\<And>a. A a \<Longrightarrow> prog_ok live I R B (g a)) \<Longrightarrow> prog_ok live I R B (bind p g)"
proof (induction p rule: prog_induct)
  case (Act f)
  show ?case unfolding bind.simps
    by (rule prog_ok_ActI) (use Act prog_ok_ActD [OF Act(2)] in \<open>auto\<close>)
qed auto

lemma prog_ok_atomically:
  assumes "\<And>s. I s \<Longrightarrow> case g s of None \<Rightarrow> \<not> live | Some (a, s') \<Rightarrow> A a \<and> I s'"
  shows "prog_ok live I R A (atomically g)"
  unfolding atomically_def by (rule prog_ok_ActI) (use assms in force)+

lemma prog_ok_query:
  assumes "\<And>s. I s \<Longrightarrow> A (fst (g s)) \<and> I (snd (g s))"
  shows "prog_ok live I R A (query g)"
  unfolding query_def by (rule prog_ok_atomically) (simp add: assms case_prod_beta)

lemma prog_ok_update: "(\<And>s. I s \<Longrightarrow> I (f s)) \<Longrightarrow> prog_ok live I R (\<lambda>_. True) (update f)"
  unfolding update_def by (rule prog_ok_query) simp

lemma prog_ok_single_flight: "prog_ok live I R (R k) p \<Longrightarrow> prog_ok live I R (R k) (single_flight k p)"
  by (auto simp: single_flight_def intro: prog_ok_bind)

lemma prog_ok_weaken: "prog_ok live I R A p \<Longrightarrow> (\<And>a. A a \<Longrightarrow> B a) \<Longrightarrow> prog_ok live I R B p"
proof (induction p rule: prog_induct)
  case (Act f)
  show ?case by (rule prog_ok_ActI) (use Act prog_ok_ActD [OF Act(2)] in auto)
qed auto

text \<open>A good program run alone keeps the invariant, and with \<open>live\<close> it returns.\<close>

lemma run_prog_ok:
  assumes "prog_ok live I R A p" "I s" "\<And>k res. fl k = Some res \<Longrightarrow> R k res"
  shows "case run p fl s of None \<Rightarrow> \<not> live | Some (a, s') \<Rightarrow> A a \<and> I s'"
  using assms(1,2)
proof (induction p arbitrary: s rule: prog_induct)
  case (Act f)
  then show ?case using prog_ok_ActD [OF Act(2,3)] by (cases "f s") auto
next
  case (Do k own cont)
  then show ?case using assms(3) [of k] by (cases "fl k") simp_all
qed simp_all

end
