(* ===== verification/Concurrent.thy ===== *)
theory Concurrent
  imports Program Server
begin

text \<open>
  The request handlers as programs of atomic actions on the shared state: every critical section
  of \<open>ratelimit/limiter.go\<close> and \<open>cache/cache.go\<close>, every log line and metric update and every call
  of the single-flight group is a step of its own. Run with nothing in between, a program is
  the handler of \<open>ProxyHandler\<close> and \<open>Server\<close>. Calls of the origin hold no lock, and what one
  goroutine alone sees (writer, request, body) is no state.
\<close>

section \<open>Actions\<close>

type_synonym ('l, 'a) go = "('l proxy_state, string, sf_result, 'a) prog"

type_synonym ('w, 'l) request_go = "('l, 'w call \<times> request) go"

definition on_cache :: "(memory_backend \<Rightarrow> 'a \<times> memory_backend) \<Rightarrow> ('l, 'a) go" where
  "on_cache g = query (\<lambda>s. case g (ps_cache s) of (v, c) \<Rightarrow> (v, s\<lparr>ps_cache := c\<rparr>))"

definition set_cache :: "string \<Rightarrow> cache_entry \<Rightarrow> ('l, unit) go" where
  "set_cache k e = atomically (\<lambda>s. map_option (\<lambda>c. ((), s\<lparr>ps_cache := c\<rparr>)) (SetEntry k e (ps_cache s)))"

text \<open>An action on the limiter the handler was built with; the default is never used.\<close>

definition on_limiter :: "'a \<Rightarrow> ('l limiter \<Rightarrow> 'a \<times> 'l limiter) \<Rightarrow> ('l, 'a) go" where
  "on_limiter dflt g =
     query (\<lambda>s. case ps_limiter s of
                  None \<Rightarrow> (dflt, s)
                | Some l \<Rightarrow> (case g l of (v, l') \<Rightarrow> (v, s\<lparr>ps_limiter := Some l'\<rparr>)))"

section \<open>The limiter\<close>

text \<open>\<open>getLimiter\<close>: read under the read lock; then either note the time in the entry that was found,
  which a cleanup may have taken out of the map meanwhile, or look again and create under the
  write lock. An entry is known by its bucket.\<close>

definition touch :: "string \<Rightarrow> nat \<Rightarrow> instant \<Rightarrow> 'l limiter \<Rightarrow> 'l limiter" where
  "touch key addr now l =
     (case map_of (lm_limiters l) key of
        Some entry \<Rightarrow>
          if le_limiter entry = addr
          then l\<lparr>lm_limiters := AList.update key (entry\<lparr>le_lastSeen := now\<rparr>) (lm_limiters l)\<rparr> else l
      | None \<Rightarrow> l)"

definition getLimiter_prog :: "'l rate_lib \<Rightarrow> instant \<Rightarrow> string \<Rightarrow> rate_limit_rule \<Rightarrow> ('l, nat) go" where
  "getLimiter_prog lib now key rule =
     bind (on_limiter None (\<lambda>l. (map_option le_limiter (map_of (lm_limiters l) key), l))) (\<lambda>found.
       case found of
         Some addr \<Rightarrow> bind (on_limiter () (\<lambda>l. ((), touch key addr now l))) (\<lambda>_. Ret addr)
       | None \<Rightarrow> on_limiter 0 (getLimiter lib now key rule))"

fun allow_rules_prog ::
  "'l rate_lib \<Rightarrow> instant \<Rightarrow> bool \<Rightarrow> rate_limit_rule list \<Rightarrow> request \<Rightarrow> string \<Rightarrow> ('l, bool \<times> string) go" where
  "allow_rules_prog lib now metrics [] r clientIP = Ret (True, '''')"
| "allow_rules_prog lib now metrics (rule # rules) r clientIP =
     (if \<not> rule_in_scope rule r then allow_rules_prog lib now metrics rules r clientIP
      else
        bind (getLimiter_prog lib now (buildKey rule r clientIP) rule) (\<lambda>addr.
        bind (on_limiter False (call_Allow lib now addr)) (\<lambda>ok.
        bind (if metrics then update (emit (RateLimitEvent (RateLimitTotalInc (rl_ID rule) (if ok then ''allow'' else ''deny''))))
              else Ret ()) (\<lambda>_.
        if ok then allow_rules_prog lib now metrics rules r clientIP else Ret (False, rl_ID rule)))))"

text \<open>Rules, exemptions and the metrics pointer do not change after construction.\<close>

definition allow_prog :: "'l rate_lib \<Rightarrow> instant \<Rightarrow> 'l limiter \<Rightarrow> request \<Rightarrow> ('l, bool \<times> string) go" where
  "allow_prog lib now l r =
     (let clientIP = extractClientIP (r_RemoteAddr r)
      in if isExempt (lm_exemptions l) clientIP (u_Path (r_URL r)) then Ret (True, '''')
         else allow_rules_prog lib now (lm_metrics l) (lm_rules l) r clientIP)"

section \<open>The proxy handler\<close>

definition fetch_prog :: "'l world_lib \<Rightarrow> proxy_handler \<Rightarrow> request \<Rightarrow> ('l, cache_entry option) go" where
  "fetch_prog L h r =
     (case origin_request h r of
        None \<Rightarrow> Ret None
      | Some outReq \<Rightarrow>
          let dflt = DefaultUpstream (Routing (ph_cfg h))
          in bind (update (emit (UpstreamDurationObserve dflt))) (\<lambda>_.
             case wl_RoundTrip L outReq of
               OriginError \<Rightarrow> bind (update (emit (UpstreamErrorsInc dflt ''roundtrip_error''))) (\<lambda>_. Ret None)
             | OriginResponse code hs body \<Rightarrow>
                 Ret (map_option (\<lambda>bodyBytes. \<lparr>e_Key = '''', e_StatusCode = code, e_Headers = hs, e_Body = bodyBytes,
                     e_StoredAt = 0, e_TTL = 0, e_Size = int (length bodyBytes)\<rparr>)
                   (read_limited (MaxRequestBodyBytes (Security (ph_cfg h))) body))))"

definition fill_prog :: "'l world_lib \<Rightarrow> proxy_handler \<Rightarrow> string \<Rightarrow> request \<Rightarrow> ('l, sf_result) go" where
  "fill_prog L h cacheKey r =
     bind (on_cache (Get (wl_clock L 2) cacheKey)) (\<lambda>found.
     case found of
       Some entry \<Rightarrow> Ret (SfEntry entry)
     | None \<Rightarrow>
         bind (fetch_prog L h r) (\<lambda>got.
         case got of
           None \<Rightarrow> Ret SfError
         | Some entry \<Rightarrow>
             if fst (IsResponseStorable (ph_cachePolicy h) (e_StatusCode entry) (e_Headers entry))
             then
               let ttl = DetermineTTL (ph_cachePolicy h) (u_Path (r_URL r)) (e_Headers entry);
                   entry = entry\<lparr>e_Key := cacheKey, e_TTL := ttl, e_StoredAt := wl_clock L 3\<rparr>
               in bind (set_cache cacheKey entry) (\<lambda>_.
                  bind (update (emit (CacheOperationsInc ''store''))) (\<lambda>_.
                  bind (on_cache (\<lambda>c. (Stats c, c))) (\<lambda>stats.
                  bind (update (emit (CacheGauges (st_SizeBytes stats) (st_Entries stats)))) (\<lambda>_.
                  Ret (SfEntry entry)))))
             else Ret (SfEntry entry)))"

text \<open>The reverse proxy touches nothing shared but metrics, so it is one action.\<close>

definition proxy_prog :: "'w ResponseWriter \<Rightarrow> 'l world_lib \<Rightarrow> proxy_handler \<Rightarrow> 'w \<Rightarrow> request \<Rightarrow> ('w, 'l) request_go" where
  "proxy_prog W L h w r =
     atomically (\<lambda>s. case proxyToOrigin W L h w r s of
                       Returned w r s \<Rightarrow> Some ((Returns w, r), s)
                     | Panicked w r s \<Rightarrow> Some ((Panics w, r), s)
                     | Hangs \<Rightarrow> None)"

definition cached_prog :: "'w ResponseWriter \<Rightarrow> 'l world_lib \<Rightarrow> proxy_handler \<Rightarrow> 'w \<Rightarrow> request \<Rightarrow> ('w, 'l) request_go" where
  "cached_prog W L h w r =
     (if \<not> fst (IsRequestCacheable (ph_cachePolicy h) r) \<or> header_Get (r_Header r) ''X-OpenFlare-No-Cache'' = ''1''
      then
        bind (on_cache (\<lambda>c. ((), IncrementBypasses c))) (\<lambda>_.
        bind (update (emit (CacheOperationsInc ''bypass''))) (\<lambda>_.
        proxy_prog W L h (setDebugHeaders W h StatusBYPASS w) r))
      else
        let cacheKey = request_key r
        in bind (on_cache (Get (wl_clock L 1) cacheKey)) (\<lambda>found.
           case found of
             Some entry \<Rightarrow>
               bind (update (emit (CacheOperationsInc ''hit''))) (\<lambda>_. Ret (serveCached W h entry w, r))
           | None \<Rightarrow>
               bind (update (emit (CacheOperationsInc ''miss''))) (\<lambda>_.
               bind (single_flight cacheKey (fill_prog L h cacheKey r)) (\<lambda>res.
               case res of
                 SfError \<Rightarrow>
                   bind (update (emit (UpstreamErrorsInc (DefaultUpstream (Routing (ph_cfg h))) ''fetch_error''))) (\<lambda>_.
                   Ret (http_Error W ''{\"error\":\"upstream error\"}'' 502 (wo_Set W ''X-Request-ID'' (GetRequestID r) w), r))
               | SfEntry entry \<Rightarrow> Ret (writeEntry W entry (setDebugHeaders W h StatusMISS w), r)))))"

definition forward_prog :: "'w ResponseWriter \<Rightarrow> 'l world_lib \<Rightarrow> proxy_handler \<Rightarrow> 'w \<Rightarrow> request \<Rightarrow> ('w, 'l) request_go" where
  "forward_prog W L h w r =
     (let r = SetForwardedHeaders (TrustXForwardedFor (Security (ph_cfg h))) r
      in if CacheEnabled (CacheCfg (ph_cfg h)) then cached_prog W L h w r else proxy_prog W L h w r)"

definition rate_limit_prog :: "'w ResponseWriter \<Rightarrow> 'l world_lib \<Rightarrow> proxy_handler \<Rightarrow> 'w \<Rightarrow> request \<Rightarrow> ('w, 'l) request_go" where
  "rate_limit_prog W L h w r =
     bind (query (\<lambda>s. (ps_limiter s, s))) (\<lambda>limiter.
     case limiter of
       None \<Rightarrow> forward_prog W L h w r
     | Some l \<Rightarrow>
         bind (allow_prog (wl_rate L) (wl_clock L 0) l r) (\<lambda>(allowed, ruleID).
         if \<not> allowed then Ret (HandleDeny W w ruleID, r) else forward_prog W L h w r))"

definition waf_prog :: "'w ResponseWriter \<Rightarrow> 'l world_lib \<Rightarrow> proxy_handler \<Rightarrow> string \<Rightarrow> 'w \<Rightarrow> request \<Rightarrow> ('w, 'l) request_go" where
  "waf_prog W L h body w r =
     (case ph_wafEngine h of
        None \<Rightarrow> rate_limit_prog W L h w r
      | Some e \<Rightarrow>
          (case Evaluate e r body of
             None \<Rightarrow> Ret (Panics w, r)
           | Some (d, evs) \<Rightarrow>
               bind (update (emits (map WafEvent evs))) (\<lambda>_.
               if d_Matched d \<and> d_Action d = ''block''
               then
                 let w = wo_Set W ''Content-Type'' ''application/json'' w;
                     w = wo_Set W ''X-Request-ID'' (GetRequestID r) w
                 in Ret (respond W (GetBlockStatusCode e (d_RuleID d))
                      (''{\"error\":\"blocked by WAF\",\"rule_id\":\"'' @ d_RuleID d @ ''\"}'') w, r)
               else
                 let r = (if d_Matched d \<and> d_Action d = ''bypass_cache''
                          then r\<lparr>r_Header := header_Set ''X-OpenFlare-No-Cache'' ''1'' (r_Header r)\<rparr> else r)
                 in rate_limit_prog W L h w r)))"

definition serve_prog :: "'w ResponseWriter \<Rightarrow> 'l world_lib \<Rightarrow> proxy_handler \<Rightarrow> 'w \<Rightarrow> request \<Rightarrow> ('w, 'l) request_go" where
  "serve_prog W L h w r =
     (let path = u_Path (r_URL r)
      in if path = ''/healthz'' \<or> path = ''/readyz''
         then Ret (Returns (answer W ''application/json'' ''{\"status\":\"ok\"}'' w), r)
         else if path = ''/metrics''
         then Ret (Returns (answer W ''text/plain'' ''# metrics served via /metrics endpoint'' w), r)
         else
           (case (if r_Body r \<noteq> None \<and> r_ContentLength r \<noteq> 0
                  then ReadBodyForInspection r (MaxBodyInspectBytes (Security (ph_cfg h)))
                  else Some (Inr ('''', r))) of
              None \<Rightarrow> Ret (Panics w, r)
            | Some (Inl _) \<Rightarrow> Ret (http_Error W ''{\"error\":\"failed to read body\"}'' 400 w, r)
            | Some (Inr (body, r)) \<Rightarrow> waf_prog W L h body w (normalize_request r)))"

section \<open>Run alone, the programs are the handlers\<close>

fun outcome_of :: "(('w call \<times> request) \<times> 's) option \<Rightarrow> ('w, 's) outcome" where
  "outcome_of None = Hangs"
| "outcome_of (Some ((c, r), s)) = finish c r s"

lemma run_on_cache [simp]:
  "run (on_cache g) fl s = Some (case g (ps_cache s) of (v, c) \<Rightarrow> (v, s\<lparr>ps_cache := c\<rparr>))"
  by (simp add: on_cache_def)

lemma run_set_cache [simp]:
  "run (set_cache k e) fl s = map_option (\<lambda>c. ((), s\<lparr>ps_cache := c\<rparr>)) (SetEntry k e (ps_cache s))"
  by (simp add: set_cache_def)

lemma run_on_limiter:
  "ps_limiter s = Some l \<Longrightarrow>
    run (on_limiter dflt g) fl s = Some (case g l of (v, l') \<Rightarrow> (v, s\<lparr>ps_limiter := Some l'\<rparr>))"
  by (simp add: on_limiter_def)

lemma same_limiter: "ps_limiter s = Some l \<Longrightarrow> s\<lparr>ps_limiter := Some l\<rparr> = s"
  by simp

lemma run_getLimiter:
  assumes "ps_limiter s = Some l"
  shows "run (getLimiter_prog lib now key rule) fl s
    = Some (case getLimiter lib now key rule l of (a, l') \<Rightarrow> (a, s\<lparr>ps_limiter := Some l'\<rparr>))"
  using assms same_limiter [OF assms]
  by (cases "map_of (lm_limiters l) key")
    (simp_all add: getLimiter_prog_def run_bind run_on_limiter getLimiter_def touch_def Let_def)

lemma lm_metrics_kept:
  "getLimiter lib now key rule l = (a, l') \<Longrightarrow> lm_metrics l' = lm_metrics l"
  "call_Allow lib now a l = (ok, l') \<Longrightarrow> lm_metrics l' = lm_metrics l"
  by (auto simp: getLimiter_def call_Allow_def Let_def split: option.splits prod.splits)

lemma run_allow_rules:
  assumes "ps_limiter s = Some l" "lm_metrics l = metrics"
  shows "run (allow_rules_prog lib now metrics rules r clientIP) fl s
    = Some (case allow_rules lib now rules r clientIP l of ((ok, ruleID, _), evs, l') \<Rightarrow>
        ((ok, ruleID), emits (map RateLimitEvent evs) (s\<lparr>ps_limiter := Some l'\<rparr>)))"
  using assms
proof (induction rules arbitrary: s l)
  case Nil
  then show ?case by (simp add: emits_def)
next
  case (Cons rule rules)
  show ?case
  proof (cases "rule_in_scope rule r")
    case True
    obtain a l1 where g: "getLimiter lib now (buildKey rule r clientIP) rule l = (a, l1)" by fastforce
    obtain ok l2 where c: "call_Allow lib now a l1 = (ok, l2)" by fastforce
    have m: "lm_metrics l2 = metrics" using lm_metrics_kept(1) [OF g] lm_metrics_kept(2) [OF c] Cons.prems by simp
    let ?t = "emits (if metrics then [RateLimitEvent (RateLimitTotalInc (rl_ID rule) (if ok then ''allow'' else ''deny''))] else [])
      (s\<lparr>ps_limiter := Some l2\<rparr>)"
    have "run (allow_rules_prog lib now metrics (rule # rules) r clientIP) fl s
        = (if ok then run (allow_rules_prog lib now metrics rules r clientIP) fl ?t else Some ((False, rl_ID rule), ?t))"
      using True g c Cons.prems(1)
      by (auto simp: run_bind run_getLimiter run_on_limiter emits_def emit_def)
    moreover have "ps_limiter ?t = Some l2" by (simp add: emits_def)
    ultimately show ?thesis using Cons.IH [of ?t l2] m True g c
        lm_metrics_kept(1) [OF g] lm_metrics_kept(2) [OF c] Cons.prems(2)
      by (auto simp: emits_def split: prod.splits)
  next
    case False
    then show ?thesis using Cons by simp
  qed
qed

lemma run_allow:
  assumes "ps_limiter s = Some l"
  shows "run (allow_prog lib now l r) fl s
    = Some (case Allow lib now r l of ((ok, ruleID, _), evs, l') \<Rightarrow>
        ((ok, ruleID), emits (map RateLimitEvent evs) (s\<lparr>ps_limiter := Some l'\<rparr>)))"
  using run_allow_rules [OF assms refl] same_limiter [OF assms]
  by (simp add: allow_prog_def Allow_def Let_def emits_def)

lemma run_fetch: "run (fetch_prog L h r) fl s = Some (fetchFromOrigin L h r s)"
  by (auto simp: fetch_prog_def fetchFromOrigin_def Let_def run_bind split: option.split origin_result.split)

lemma run_fill: "run (fill_prog L h k r) fl s = fill_cache L h k r s"
  by (auto simp: fill_prog_def fill_cache_def Let_def run_bind run_fetch emits_def emit_def
      split: option.split prod.split)

lemma run_proxy: "outcome_of (run (proxy_prog W L h w r) fl s) = proxyToOrigin W L h w r s"
  by (simp add: proxy_prog_def split: outcome.split)

lemma run_cached: "outcome_of (run (cached_prog W L h w r) (wl_inflight L) s) = handleWithCache W L h w r s"
proof (cases "\<not> fst (IsRequestCacheable (ph_cachePolicy h) r) \<or> header_Get (r_Header r) ''X-OpenFlare-No-Cache'' = ''1''")
  case True
  then show ?thesis by (auto simp: cached_prog_def handleWithCache_def run_bind run_proxy)
next
  case False
  obtain found c where "Get (wl_clock L 1) (request_key r) (ps_cache s) = (found, c)" by fastforce
  then show ?thesis using False
    by (auto simp: cached_prog_def handleWithCache_def Let_def run_bind run_single_flight run_fill sf_Do_def
        split: option.split sf_result.split prod.split)
qed

lemma run_forward: "outcome_of (run (forward_prog W L h w r) (wl_inflight L) s) = forward W L h w r s"
  by (simp add: forward_prog_def forward_def Let_def run_cached run_proxy)

lemma run_rate_limit: "outcome_of (run (rate_limit_prog W L h w r) (wl_inflight L) s) = rate_limit_step W L h w r s"
proof (cases "ps_limiter s")
  case None
  then show ?thesis by (simp add: rate_limit_prog_def rate_limit_step_def run_bind run_forward)
next
  case (Some l)
  obtain ok ruleID q evs l' where "Allow (wl_rate L) (wl_clock L 0) r l = ((ok, ruleID, q), evs, l')" by (metis prod_cases3)
  then show ?thesis using Some
    by (simp add: rate_limit_prog_def rate_limit_step_def run_bind run_allow run_forward Let_def)
qed

lemma run_waf: "outcome_of (run (waf_prog W L h body w r) (wl_inflight L) s) = waf_step W L h body w r s"
  by (auto simp: waf_prog_def waf_step_def Let_def run_bind run_rate_limit split: option.split)

lemma run_serve: "outcome_of (run (serve_prog W L h w r) (wl_inflight L) s) = ServeHTTP W L h w r s"
  by (auto simp: serve_prog_def ServeHTTP_def Let_def run_waf split: option.split sum.split)

section \<open>The middleware and the admin API\<close>

definition recovery_prog :: "'w ResponseWriter \<Rightarrow> request \<Rightarrow> ('w, 'l) request_go \<Rightarrow> ('w, 'l) request_go" where
  "recovery_prog W r p =
     bind p (\<lambda>(c, r').
     case c of
       Returns w \<Rightarrow> Ret (Returns w, r')
     | Panics w \<Rightarrow>
         bind (update (emit (PanicEvent (GetRequestID r)))) (\<lambda>_.
         Ret (http_Error W ''{\"error\":\"internal server error\"}'' 500 w, r')))"

definition log_prog :: "'w ResponseWriter \<Rightarrow> (string list \<Rightarrow> bool) \<Rightarrow> ('w statusWriter, 'l) request_go \<Rightarrow> ('w, 'l) request_go" where
  "log_prog W label_ok p =
     bind p (\<lambda>(c, r).
     case c of
       Panics sw \<Rightarrow> Ret (Panics (sw_ResponseWriter sw), r)
     | Returns sw \<Rightarrow>
         let w = sw_ResponseWriter sw; route = u_Path (r_URL r)
         in bind (update (emit (AccessEvent (GetRequestID r) (r_Method r) route (u_RawQuery (r_URL r)) (sw_status sw)
                    (r_RemoteAddr r) (UserAgent r) (header_Get (wo_Header W w) ''X-Edge-Cache'')))) (\<lambda>_.
            if \<not> label_ok [r_Method r, show_int (sw_status sw), route] then Ret (Panics w, r)
            else
              bind (update (emit (RequestsTotalInc (r_Method r) (sw_status sw) route))) (\<lambda>_.
              if \<not> label_ok [r_Method r, route] then Ret (Panics w, r)
              else bind (update (emit (RequestDurationObserve (r_Method r) route))) (\<lambda>_. Ret (Returns w, r)))))"

text \<open>A request in the middleware chain of the public server.\<close>

definition public_prog ::
  "'w ResponseWriter \<Rightarrow> (string list \<Rightarrow> bool) \<Rightarrow> string \<Rightarrow> 'l world_lib \<Rightarrow> proxy_handler \<Rightarrow> 'w \<Rightarrow> request \<Rightarrow> ('w, 'l) request_go" where
  "public_prog W label_ok ident L h w r =
     (let sw = new_statusWriter (wo_Set W ''X-Request-ID'' ident w); r = r\<lparr>r_RequestID := Some ident\<rparr>
      in log_prog W label_ok (recovery_prog (status_Writer W) r (serve_prog (status_Writer W) L h sw r)))"

definition purge_prog :: "'w ResponseWriter \<Rightarrow> 'w \<Rightarrow> request \<Rightarrow> ('l, 'w call) go" where
  "purge_prog W w r =
     (case json_Decode [''url'', ''key''] (body_of r) of
        Some [url, key] \<Rightarrow>
          let key = (if key = '''' then url else key)
          in bind (on_cache (Delete key)) (\<lambda>deleted.
             bind (if \<not> deleted \<and> key \<noteq> '''' \<and> hd key = CHR ''/''
                   then bind (on_cache (DeleteByPath key)) (\<lambda>count. Ret (count > 0)) else Ret deleted) (\<lambda>deleted.
             Ret (Returns (json_reply W (JObj [(''deleted'', JBool deleted), (''key'', JStr key)]) w))))
      | _ \<Rightarrow> Ret (json_error W 400 ''invalid request body'' w))"

definition admin_prog :: "'w ResponseWriter \<Rightarrow> string \<Rightarrow> 'w \<Rightarrow> request \<Rightarrow> ('w, 'l) request_go" where
  "admin_prog W authToken w r =
     bind
       (if \<not> authenticate authToken r then Ret (json_error W 401 ''unauthorized'' w)
        else
          let path = u_Path (r_URL r); meth = r_Method r
          in if path = ''/admin/cache/stats'' \<and> meth = ''GET''
             then bind (on_cache (\<lambda>c. (Stats c, c))) (\<lambda>stats. Ret (Returns (json_reply W (stats_json stats) w)))
             else if path = ''/admin/cache/purge'' \<and> meth = ''POST'' then purge_prog W w r
             else if path = ''/admin/cache/purge-prefix'' \<and> meth = ''POST''
             then (case json_Decode [''prefix''] (body_of r) of
                     Some [pre] \<Rightarrow>
                       bind (on_cache (DeleteByPrefix pre)) (\<lambda>count.
                       Ret (Returns (json_reply W (JObj [(''deleted_count'', JInt count), (''prefix'', JStr pre)]) w)))
                   | _ \<Rightarrow> Ret (json_error W 400 ''invalid request body'' w))
             else if path = ''/admin/cache/purge-all'' \<and> meth = ''POST''
             then bind (on_cache Purge) (\<lambda>count. Ret (Returns (json_reply W (JObj [(''purged_count'', JInt count)]) w)))
             else Ret (json_error W 404 ''not found'' w))
       (\<lambda>c. Ret (c, r))"

lemma run_recovery:
  assumes "outcome_of (run p fl s) = handler w r s"
  shows "outcome_of (run (recovery_prog W r p) fl s) = Recovery W emit handler w r s"
proof (cases "run p fl s")
  case None
  then show ?thesis using assms by (simp add: recovery_prog_def run_bind Recovery_def assms [symmetric])
next
  case (Some x)
  obtain c r' s' where x: "x = ((c, r'), s')" by (metis prod_cases3 surj_pair)
  show ?thesis using Some x assms [symmetric] by (cases c) (simp_all add: recovery_prog_def run_bind Recovery_def)
qed

lemma run_log:
  assumes "outcome_of (run p fl s) = nxt (new_statusWriter w) r s"
  shows "outcome_of (run (log_prog W label_ok p) fl s) = AccessLog W label_ok emit nxt w r s"
proof (cases "run p fl s")
  case None
  then show ?thesis by (simp add: log_prog_def run_bind AccessLog_def assms [symmetric])
next
  case (Some x)
  obtain c r' s' where x: "x = ((c, r'), s')" by (metis prod_cases3 surj_pair)
  show ?thesis using Some x assms [symmetric]
    by (cases c) (simp_all add: log_prog_def run_bind AccessLog_def Let_def)
qed

lemma run_public:
  "outcome_of (run (public_prog W label_ok ident L h w r) (wl_inflight L) s)
    = public_chain W label_ok ident (ServeHTTP (status_Writer W) L h) w r s"
  by (simp add: public_prog_def public_chain_def RequestID_def Let_def run_log run_recovery run_serve)

lemma run_purge:
  "run (purge_prog W w r) fl s
    = Some (case handleCachePurge W memory_Backend (ps_cache s) w r of (c, b) \<Rightarrow> (c, s\<lparr>ps_cache := b\<rparr>))"
  by (auto simp: purge_prog_def handleCachePurge_def memory_Backend_def run_bind Let_def
      split: option.split list.split prod.split)

lemma run_admin: "outcome_of (run (admin_prog W token w r) fl s) = admin_handler W token w r s"
  by (auto simp: admin_prog_def admin_handler_def admin_ServeHTTP_def Let_def run_bind run_purge
      handleCacheStats_def handleCachePurgePrefix_def handleCachePurgeAll_def memory_Backend_def
      split: option.split list.split prod.split)

end
