(* ===== verification/Interleave.thy ===== *)
theory Interleave
  imports Concurrent System
begin

text \<open>
  Goroutines interleaved action by action on the shared state: requests of both servers and
  ticks of the limiter's cleanup. Of \<open>golang.org/x/sync/singleflight\<close> only what it documents
  is used: \<open>Do\<close> runs its function or hands out the result of another run of the same key. The
  locale \<open>action_contract\<close> says what the programs need of cache and limiter; its
  instances give safety and progress.
\<close>

section \<open>Where cached responses come from\<close>

text \<open>A response of the origin to a cacheable request with this key, cut at the limit of the cached
  path; \<open>Ls\<close> are the surroundings requests may run in.\<close>

definition from_origin :: "'l world_lib set \<Rightarrow> proxy_handler \<Rightarrow> string \<Rightarrow> cache_entry \<Rightarrow> bool" where
  "from_origin Ls h k e \<longleftrightarrow>
     (\<exists>L\<in>Ls. \<exists>r out code body hs. request_key r = k \<and> uses_cache h r \<and> origin_request h r = Some out
        \<and> wl_RoundTrip L out = OriginResponse code hs body
        \<and> e_StatusCode e = code \<and> e_Headers e = hs
        \<and> read_limited (MaxRequestBodyBytes (Security (ph_cfg h))) body = Some (e_Body e))"

fun result_ok :: "'l world_lib set \<Rightarrow> proxy_handler \<Rightarrow> string \<Rightarrow> sf_result \<Rightarrow> bool" where
  "result_ok Ls h k SfError = True"
| "result_ok Ls h k (SfEntry e) = from_origin Ls h k e"

lemma from_origin_update [simp]:
  "from_origin Ls h k (e\<lparr>e_Key := x, e_TTL := ttl, e_StoredAt := t\<rparr>) = from_origin Ls h k e"
  by (simp add: from_origin_def)

section \<open>The contract\<close>

locale action_contract = purge_contract memory_Backend Q
  for h :: proxy_handler and Ls :: "'l world_lib set" and Q :: "memory_backend \<Rightarrow> bool"
    and P :: "'l limiter \<Rightarrow> bool" and live :: bool +
  assumes get_keeps: "Q m \<Longrightarrow> Q (snd (Get now k m))"
    and get_good: "Q m \<Longrightarrow> Get now k m = (Some e, m') \<Longrightarrow> from_origin Ls h k e"
    and set_keeps: "Q m \<Longrightarrow> entry_ok (ph_cachePolicy h) k e \<Longrightarrow> from_origin Ls h k e \<Longrightarrow> SetEntry k e m = Some m' \<Longrightarrow> Q m'"
    and set_returns: "live \<Longrightarrow> Q m \<Longrightarrow> entry_ok (ph_cachePolicy h) k e \<Longrightarrow> from_origin Ls h k e \<Longrightarrow> \<exists>m'. SetEntry k e m = Some m'"
    and bypass_keeps: "Q m \<Longrightarrow> Q (IncrementBypasses m)"
    and touch_keeps: "P l \<Longrightarrow> P (touch key addr now l)"
    and bucket_keeps: "P l \<Longrightarrow> P (snd (getLimiter lib now key rule l))"
    and call_keeps: "P l \<Longrightarrow> P (snd (call_Allow lib now addr l))"
    and cleanup_keeps: "P l \<Longrightarrow> P (cleanup_tick now l)"
begin

abbreviation ok :: "('a \<Rightarrow> bool) \<Rightarrow> ('l, 'a) go \<Rightarrow> bool" where
  "ok \<equiv> prog_ok live (state_ok Q P) (result_ok Ls h)"

lemma emit_ok: "ok (\<lambda>_. True) (update (emit e))"
  by (rule prog_ok_update) simp

lemma emits_ok: "ok (\<lambda>_. True) (update (emits es))"
  by (rule prog_ok_update) simp

lemma cache_ok_action:
  "(\<And>c. Q c \<Longrightarrow> A (fst (g c)) \<and> Q (snd (g c))) \<Longrightarrow> ok A (on_cache g)"
  unfolding on_cache_def by (rule prog_ok_query) (simp add: state_ok_def case_prod_beta)

lemma limiter_ok:
  "(\<And>l. P l \<Longrightarrow> P (snd (g l))) \<Longrightarrow> ok (\<lambda>_. True) (on_limiter dflt g)"
  unfolding on_limiter_def by (rule prog_ok_query) (fastforce simp: state_ok_def split: option.split prod.split)

lemma set_ok:
  assumes "entry_ok (ph_cachePolicy h) k e" "from_origin Ls h k e"
  shows "ok (\<lambda>_. True) (set_cache k e)"
  unfolding set_cache_def
  by (rule prog_ok_atomically)
    (use assms set_keeps set_returns in \<open>fastforce simp: state_ok_def split: option.split\<close>)

lemma then_ok: "ok (\<lambda>_. True) p \<Longrightarrow> (\<And>a. ok A (g a)) \<Longrightarrow> ok A (bind p g)"
  by (rule prog_ok_bind)

lemma emit_then_ok: "ok A p \<Longrightarrow> ok A (bind (update (emit e)) (\<lambda>_. p))"
  by (rule then_ok [OF emit_ok])

lemma getLimiter_ok: "ok (\<lambda>_. True) (getLimiter_prog lib now key rule)"
  unfolding getLimiter_prog_def
  by (intro then_ok) (auto intro!: limiter_ok then_ok simp: touch_keeps bucket_keeps split: option.split)

lemma allow_rules_ok: "ok (\<lambda>_. True) (allow_rules_prog lib now metrics rules r clientIP)"
proof (induction rules)
  case (Cons rule rules)
  have "ok (\<lambda>_. True) (on_limiter False (call_Allow lib now addr))" for addr
    by (rule limiter_ok) (rule call_keeps)
  then show ?case using Cons getLimiter_ok emit_ok by (auto intro!: then_ok)
qed simp

lemma allow_ok: "ok (\<lambda>_. True) (allow_prog lib now l r)"
  by (simp add: allow_prog_def Let_def allow_rules_ok)

lemma proxy_prog_ok: "ok (\<lambda>_. True) (proxy_prog W L h w r)"
  unfolding proxy_prog_def
proof (rule prog_ok_atomically)
  fix s assume "state_ok Q P s"
  then have "keeps live (state_ok Q P) (proxyToOrigin W L h w r s)" by (intro proxyToOrigin_keeps) simp_all
  then show "case case proxyToOrigin W L h w r s of Returned w r s \<Rightarrow> Some ((Returns w, r), s)
      | Panicked w r s \<Rightarrow> Some ((Panics w, r), s) | Hangs \<Rightarrow> None of
      None \<Rightarrow> \<not> live | Some (a, s') \<Rightarrow> True \<and> state_ok Q P s'"
    by (cases "proxyToOrigin W L h w r s") auto
qed

lemma fetch_ok:
  assumes "L \<in> Ls" "uses_cache h r"
  shows "ok (\<lambda>got. \<forall>e. got = Some e \<longrightarrow> from_origin Ls h (request_key r) e \<and> e_Size e = int (length (e_Body e)))
    (fetch_prog L h r)"
proof (cases "origin_request h r")
  case None
  then show ?thesis by (simp add: fetch_prog_def)
next
  case (Some out)
  have f: "from_origin Ls h (request_key r) \<lparr>e_Key = '''', e_StatusCode = code, e_Headers = hs, e_Body = b,
      e_StoredAt = 0, e_TTL = 0, e_Size = int (length b)\<rparr>"
    if "wl_RoundTrip L out = OriginResponse code hs body"
      "read_limited (MaxRequestBodyBytes (Security (ph_cfg h))) body = Some b" for code hs body b
    using assms Some that by (auto simp: from_origin_def)
  show ?thesis
    using Some f by (auto simp: fetch_prog_def Let_def intro!: emit_then_ok split: origin_result.split)
qed

lemma fill_prog_ok:
  assumes "L \<in> Ls" "uses_cache h r"
  shows "ok (result_ok Ls h (request_key r)) (fill_prog L h (request_key r) r)"
  unfolding fill_prog_def
proof (rule prog_ok_bind)
  show "ok (\<lambda>found. \<forall>e. found = Some e \<longrightarrow> from_origin Ls h (request_key r) e)
      (on_cache (Get (wl_clock L 2) (request_key r)))"
    by (rule cache_ok_action) (use get_keeps get_good in \<open>metis prod.collapse\<close>)
next
  fix found assume found: "\<forall>e. found = Some e \<longrightarrow> from_origin Ls h (request_key r) e"
  have store: "ok (result_ok Ls h (request_key r))
      (bind (set_cache (request_key r) (e\<lparr>e_Key := request_key r, e_TTL := ttl, e_StoredAt := t\<rparr>)) (\<lambda>_.
       bind (update (emit (CacheOperationsInc ''store''))) (\<lambda>_.
       bind (on_cache (\<lambda>c. (Stats c, c))) (\<lambda>stats.
       bind (update (emit (CacheGauges (st_SizeBytes stats) (st_Entries stats)))) (\<lambda>_.
       Ret (SfEntry (e\<lparr>e_Key := request_key r, e_TTL := ttl, e_StoredAt := t\<rparr>)))))))"
    if "from_origin Ls h (request_key r) e" "e_Size e = int (length (e_Body e))"
      "fst (IsResponseStorable (ph_cachePolicy h) (e_StatusCode e) (e_Headers e))" for e ttl t
    using that by (intro then_ok set_ok emit_ok cache_ok_action) (simp_all add: entry_ok_def)
  show "ok (result_ok Ls h (request_key r)) (case found of Some entry \<Rightarrow> Ret (SfEntry entry)
     | None \<Rightarrow>
         bind (fetch_prog L h r) (\<lambda>got.
         case got of
           None \<Rightarrow> Ret SfError
         | Some entry \<Rightarrow>
             if fst (IsResponseStorable (ph_cachePolicy h) (e_StatusCode entry) (e_Headers entry))
             then
               let ttl = DetermineTTL (ph_cachePolicy h) (u_Path (r_URL r)) (e_Headers entry);
                   entry = entry\<lparr>e_Key := request_key r, e_TTL := ttl, e_StoredAt := wl_clock L 3\<rparr>
               in bind (set_cache (request_key r) entry) (\<lambda>_.
                  bind (update (emit (CacheOperationsInc ''store''))) (\<lambda>_.
                  bind (on_cache (\<lambda>c. (Stats c, c))) (\<lambda>stats.
                  bind (update (emit (CacheGauges (st_SizeBytes stats) (st_Entries stats)))) (\<lambda>_.
                  Ret (SfEntry entry)))))
             else Ret (SfEntry entry)))"
    using found store by (auto simp: Let_def intro!: prog_ok_bind [OF fetch_ok [OF assms]] split: option.split)
qed

lemma cached_prog_ok:
  assumes "L \<in> Ls"
  shows "ok (\<lambda>_. True) (cached_prog W L h w r)"
proof (cases "uses_cache h r")
  case False
  have "ok (\<lambda>_. True) (on_cache (\<lambda>c. ((), IncrementBypasses c)))"
    by (rule cache_ok_action) (simp add: bypass_keeps)
  then show ?thesis using False emit_ok proxy_prog_ok
    by (auto simp: cached_prog_def uses_cache_def intro!: then_ok)
next
  case True
  have "ok (\<lambda>_. True) (on_cache (Get (wl_clock L 1) (request_key r)))"
    by (rule cache_ok_action) (simp add: get_keeps)
  moreover have "ok (\<lambda>_. True) (single_flight (request_key r) (fill_prog L h (request_key r) r))"
    by (rule prog_ok_weaken [OF prog_ok_single_flight [OF fill_prog_ok [OF assms True]]]) simp
  ultimately show ?thesis using True emit_ok
    by (auto simp: cached_prog_def uses_cache_def Let_def intro!: then_ok split: option.split sf_result.split)
qed

lemma serve_prog_ok:
  assumes "L \<in> Ls"
  shows "ok (\<lambda>_. True) (serve_prog W L h w r)"
proof -
  have fwd: "ok (\<lambda>_. True) (forward_prog W L h w r)" for w r
    by (simp add: forward_prog_def Let_def cached_prog_ok [OF assms] proxy_prog_ok)
  have "ok (\<lambda>_. True) (query (\<lambda>s. (ps_limiter s, s)))" by (rule prog_ok_query) simp
  then have rate: "ok (\<lambda>_. True) (rate_limit_prog W L h w r)" for w r
    unfolding rate_limit_prog_def using fwd allow_ok by (auto intro!: then_ok split: option.split)
  have "ok (\<lambda>_. True) (waf_prog W L h body w r)" for body w r
    using rate emits_ok by (auto simp: waf_prog_def Let_def intro!: then_ok split: option.split)
  then show ?thesis by (auto simp: serve_prog_def Let_def split: option.split sum.split)
qed

lemma public_prog_ok:
  assumes "L \<in> Ls"
  shows "ok (\<lambda>_. True) (public_prog W label_ok ident L h w r)"
  using serve_prog_ok [OF assms] emit_ok
  by (auto simp: public_prog_def log_prog_def recovery_prog_def Let_def intro!: then_ok split: call.split)

lemma admin_prog_ok: "ok (\<lambda>_. True) (admin_prog W token w r)"
proof -
  have del: "ok (\<lambda>_. True) (on_cache (Delete k))" "ok (\<lambda>_. True) (on_cache (DeleteByPath k))"
    "ok (\<lambda>_. True) (on_cache (DeleteByPrefix k))" "ok (\<lambda>_. True) (on_cache Purge)"
    "ok (\<lambda>_. True) (on_cache (\<lambda>c. (Stats c, c)))" for k
    using delete_keeps path_keeps prefix_keeps purge_keeps
    by (auto intro!: cache_ok_action simp: memory_Backend_def)
  then have "ok (\<lambda>_. True) (purge_prog W w r)"
    by (auto simp: purge_prog_def Let_def intro!: then_ok split: option.split list.split)
  then show ?thesis using del
    by (auto simp: admin_prog_def Let_def intro!: then_ok split: option.split list.split)
qed

end

section \<open>Cache and limiter of the model keep the contract\<close>

definition stored_from :: "'l world_lib set \<Rightarrow> proxy_handler \<Rightarrow> memory_backend \<Rightarrow> bool" where
  "stored_from Ls h m \<longleftrightarrow> (\<forall>k e. lookup m k = Some e \<longrightarrow> from_origin Ls h k e)"

lemma stored_from_new: "stored_from Ls h (NewMemoryBackend maxE maxB)"
  by (simp add: stored_from_def lookup_def mb_abs_def NewMemoryBackend_def)

lemma backend_step_stored:
  assumes "mb_inv m" "op_ok x" "backend_step memory_Backend x m = Some m'" "stored_from Ls h m"
    and "\<And>k e. x = OpSet k e \<Longrightarrow> from_origin Ls h k e"
  shows "stored_from Ls h m'"
proof -
  have "lookup m' \<subseteq>\<^sub>m ideal_op x (lookup m)" using memory.step_ideal [OF assms(1-3)] by simp
  then have i: "lookup m' k = Some e \<Longrightarrow> ideal_op x (lookup m) k = Some e" for k e
    by (auto simp: map_le_def dom_def)
  have "from_origin Ls h k e" if "lookup m' k = Some e" for k e
    using i [OF that] assms(4,5) by (cases x) (auto simp: stored_from_def split: if_splits)
  then show ?thesis by (simp add: stored_from_def)
qed

lemma lm_inv_touch:
  assumes "lm_inv l"
  shows "lm_inv (touch key addr now l)"
proof (cases "\<exists>e. map_of (lm_limiters l) key = Some e \<and> le_limiter e = addr")
  case True
  then have "getLimiter undefined now key undefined l = (addr, touch key addr now l)"
    by (auto simp: touch_def getLimiter_def)
  from getLimiter_facts(1) [OF assms this] show ?thesis .
next
  case False
  then have "touch key addr now l = l" by (auto simp: touch_def split: option.split)
  then show ?thesis using assms by simp
qed

lemma lm_inv_call: "lm_inv l \<Longrightarrow> lm_inv (snd (call_Allow lib now addr l))"
  by (simp add: call_Allow_def lm_inv_def split: prod.split)

text \<open>One proof for both instances: whatever adds to a predicate that calls of the backend keep.\<close>

lemma action_contract_of:
  fixes Ls :: "'l world_lib set"
  assumes "\<And>m x m'. Q m \<Longrightarrow> op_ok x \<Longrightarrow> backend_step memory_Backend x m = Some m' \<Longrightarrow>
      (\<And>k e. x = OpSet k e \<Longrightarrow> entry_ok (ph_cachePolicy h) k e) \<Longrightarrow> Q m'"
    and "\<And>m. Q m \<Longrightarrow> mb_inv m" "\<And>m. Q m \<Longrightarrow> Q (IncrementBypasses m)"
    and "\<And>m k e. live \<Longrightarrow> Q m \<Longrightarrow> entry_ok (ph_cachePolicy h) k e \<Longrightarrow> \<exists>m'. SetEntry k e m = Some m'"
  shows "action_contract h Ls (\<lambda>m. Q m \<and> stored_from Ls h m) (lm_inv :: 'l limiter \<Rightarrow> bool) live"
proof -
  have step: "Q m' \<and> stored_from Ls h m'"
    if "Q m \<and> stored_from Ls h m" "op_ok x" "backend_step memory_Backend x m = Some m'"
      "\<And>k e. x = OpSet k e \<Longrightarrow> entry_ok (ph_cachePolicy h) k e \<and> from_origin Ls h k e" for m x m'
  proof
    show "Q m'" by (rule assms(1) [of m x]) (use that in auto)
    have m: "mb_inv m" "stored_from Ls h m" using that(1) assms(2) by blast+
    have f: "from_origin Ls h k e" if "x = OpSet k e" for k e
      using \<open>\<And>k e. x = OpSet k e \<Longrightarrow> entry_ok (ph_cachePolicy h) k e \<and> from_origin Ls h k e\<close> [OF that] by (rule conjunct2)
    show "stored_from Ls h m'" by (rule backend_step_stored [OF m(1) that(2,3) m(2) f])
  qed
  show ?thesis
  proof (unfold_locales, goal_cases)
    case (1 b k) then show ?case by - (rule step [of b "OpDelete k"], simp_all)
  next
    case (2 b p) then show ?case by - (rule step [of b "OpDeleteByPath p"], simp_all)
  next
    case (3 b p) then show ?case by - (rule step [of b "OpDeleteByPrefix p"], simp_all)
  next
    case (4 b) then show ?case by - (rule step [of b "OpPurge"], simp_all)
  next
    case (5 m now k) then show ?case by - (rule step [of m "OpGet now k"], simp_all add: memory_Backend_def)
  next
    case (6 m now k e m')
    then show ?case using memory.get_hit [OF assms(2), of m now k e m'] by (auto simp: memory_Backend_def stored_from_def)
  next
    case (7 m k e m')
    then show ?case by - (rule step [of m "OpSet k e" m'], simp_all add: memory_Backend_def entry_ok_def)
  next
    case (8 m k e) then show ?case using assms(4) by blast
  next
    case (9 m)
    then show ?case using assms(3) by (auto simp: stored_from_def lookup_def IncrementBypasses_def)
  next
    case (11 l lib now key rule)
    then show ?case by (cases "getLimiter lib now key rule l") (simp add: getLimiter_facts(1))
  qed (simp_all add: lm_inv_touch lm_inv_call lm_inv_cleanup)
qed

abbreviation (input) safe_cache :: "'l world_lib set \<Rightarrow> proxy_handler \<Rightarrow> memory_backend \<Rightarrow> bool" where
  "safe_cache Ls h \<equiv> \<lambda>m. cache_ok (ph_cachePolicy h) m \<and> stored_from Ls h m"

abbreviation (input) prompt_cache :: "'l world_lib set \<Rightarrow> proxy_handler \<Rightarrow> memory_backend \<Rightarrow> bool" where
  "prompt_cache Ls h \<equiv> \<lambda>m. live_cache (ph_cachePolicy h) m \<and> stored_from Ls h m"

interpretation safe_actions: action_contract h Ls "safe_cache Ls h" lm_inv False
  for h and Ls :: "'l world_lib set"
  by (rule action_contract_of)
    (auto intro: backend_step_cache_ok(1) IncrementBypasses_cache_ok simp: cache_ok_def [THEN iffD1])

interpretation prompt_actions: action_contract h Ls "prompt_cache Ls h" lm_inv True
  for h and Ls :: "'l world_lib set"
proof (rule action_contract_of, goal_cases)
  case (1 m x m')
  then show ?case using backend_step_live by blast
next
  case (2 m)
  then show ?case by (simp add: live_cache_def cache_ok_def)
next
  case (3 m)
  then show ?case using live.bypass_keeps [of h m] by simp
next
  case (4 m k e)
  then show ?case using live.set_returns [of h m k e] by simp
qed

end
