(* ===== verification/Pool.thy ===== *)
theory Pool
  imports Interleave
begin

text \<open>
  The program as a pool of goroutines over the shared state: any number of requests under way, each
  at any of its actions. A call of the single-flight group may run its function at any time or take
  over any result published under its key, which is more than the group allows: what holds of
  every reachable pool holds of the program. \<open>Flight\<close> keeps to the group's rules and shows that its
  pools are pools of this theory.
\<close>

section \<open>Pools\<close>

record 'l pool =
  pl_threads :: "('l, response call \<times> request) go list"
  pl_state :: "'l proxy_state"
  pl_results :: "(string \<times> sf_result) list"  \<comment> \<open>published in the single-flight group\<close>

inductive pool_step :: "proxy_handler \<Rightarrow> 'l world_lib set \<Rightarrow> 'l pool \<Rightarrow> 'l pool \<Rightarrow> bool" for h Ls where
  accept: "L \<in> Ls \<Longrightarrow> pool_step h Ls p (p\<lparr>pl_threads := pl_threads p @ [public_prog server_Writer label_ok ident L h w r]\<rparr>)"
| accept_admin: "pool_step h Ls p (p\<lparr>pl_threads := pl_threads p @ [admin_prog server_Writer token w r]\<rparr>)"
| cleanup: "ps_limiter (pl_state p) = Some l \<Longrightarrow>
    pool_step h Ls p (p\<lparr>pl_state := (pl_state p)\<lparr>ps_limiter := Some (cleanup_tick now l)\<rparr>\<rparr>)"
| act: "i < length (pl_threads p) \<Longrightarrow> pl_threads p ! i = Act f \<Longrightarrow> f (pl_state p) = Some (q, s) \<Longrightarrow>
    pool_step h Ls p (p\<lparr>pl_threads := (pl_threads p)[i := q], pl_state := s\<rparr>)"
| lead: "i < length (pl_threads p) \<Longrightarrow> pl_threads p ! i = Do k own cont \<Longrightarrow>
    pool_step h Ls p (p\<lparr>pl_threads := (pl_threads p)[i := own]\<rparr>)"
| join: "i < length (pl_threads p) \<Longrightarrow> pl_threads p ! i = Do k own cont \<Longrightarrow> (k, res) \<in> set (pl_results p) \<Longrightarrow>
    pool_step h Ls p (p\<lparr>pl_threads := (pl_threads p)[i := cont res]\<rparr>)"
| publish: "i < length (pl_threads p) \<Longrightarrow> pl_threads p ! i = Publish k res q \<Longrightarrow>
    pool_step h Ls p (p\<lparr>pl_threads := (pl_threads p)[i := q], pl_results := (k, res) # pl_results p\<rparr>)"

definition initial_pool :: "config \<Rightarrow> rate_limit_config option \<Rightarrow> 'l pool" where
  "initial_pool cfg rl = \<lparr>pl_threads = [], pl_state = initial_state cfg rl, pl_results = []\<rparr>"

section \<open>The invariant\<close>

context action_contract begin

definition pool_ok :: "'l pool \<Rightarrow> bool" where
  "pool_ok p \<longleftrightarrow> state_ok Q P (pl_state p) \<and> list_all (ok (\<lambda>_. True)) (pl_threads p)
     \<and> list_all (\<lambda>(k, res). result_ok Ls h k res) (pl_results p)"

lemma pool_ok_thread: "pool_ok p \<Longrightarrow> i < length (pl_threads p) \<Longrightarrow> ok (\<lambda>_. True) (pl_threads p ! i)"
  by (simp add: pool_ok_def list_all_length)

lemma pool_ok_update:
  assumes "pool_ok p" "ok (\<lambda>_. True) q"
  shows "pool_ok (p\<lparr>pl_threads := (pl_threads p)[i := q]\<rparr>)"
proof -
  have "set ((pl_threads p)[i := q]) \<subseteq> insert q (set (pl_threads p))" by (rule set_update_subset_insert)
  then show ?thesis using assms by (auto simp: pool_ok_def list_all_iff)
qed

lemma pool_step_ok: "pool_step h Ls p p' \<Longrightarrow> pool_ok p \<Longrightarrow> pool_ok p'"
proof (induction rule: pool_step.induct)
  case (accept L p label_ok ident w r)
  then show ?case using public_prog_ok [OF accept(1)] by (simp add: pool_ok_def)
next
  case (accept_admin p token w r)
  then show ?case using admin_prog_ok by (simp add: pool_ok_def)
next
  case (cleanup p l now)
  then show ?case using cleanup_keeps by (simp add: pool_ok_def state_ok_def)
next
  case (act i p f q s)
  have s: "state_ok Q P (pl_state p)" using act(4) by (simp add: pool_ok_def)
  have f: "ok (\<lambda>_. True) (Act f)" using pool_ok_thread [OF act(4,1)] act(2) by simp
  have "ok (\<lambda>_. True) q" "state_ok Q P s" using prog_ok_ActD(2,3) [OF f s act(3)] by blast+
  with pool_ok_update [OF act(4), of q i] show ?case by (simp add: pool_ok_def)
next
  case (lead i p k own cont)
  then show ?case using pool_ok_thread [OF lead(3,1)] by (simp add: pool_ok_update)
next
  case (join i p k own cont res)
  have "result_ok Ls h k res" using join(3,4) by (auto simp: pool_ok_def list_all_iff)
  then show ?case using pool_ok_thread [OF join(4,1)] join by (simp add: pool_ok_update)
next
  case (publish i p k res q)
  then have "ok (\<lambda>_. True) q" "result_ok Ls h k res" using pool_ok_thread [OF publish(3,1)] by simp_all
  then show ?case using pool_ok_update [OF publish(3), of q i] by (simp add: pool_ok_def)
qed

lemma reachable_pool_ok: "(pool_step h Ls)\<^sup>*\<^sup>* p p' \<Longrightarrow> pool_ok p \<Longrightarrow> pool_ok p'"
  by (induction rule: rtranclp_induct) (auto intro: pool_step_ok)

end

text \<open>A program run alone is one way to step the pool.\<close>

lemma pool_alone:
  assumes "run q (\<lambda>_. None) (pl_state p) = Some (a, s)" "i < length (pl_threads p)" "pl_threads p ! i = q"
  shows "\<exists>rs. (pool_step h Ls)\<^sup>*\<^sup>* p (p\<lparr>pl_threads := (pl_threads p)[i := Ret a], pl_state := s, pl_results := rs\<rparr>)"
  using assms
proof (induction q arbitrary: p rule: prog_induct)
  case (Ret b)
  then have "p\<lparr>pl_threads := (pl_threads p)[i := Ret a], pl_state := s, pl_results := pl_results p\<rparr> = p"
    using list_update_id [of "pl_threads p" i] by simp
  then show ?case by (metis rtranclp.rtrancl_refl)
next
  case (Act f)
  then obtain q t where q: "f (pl_state p) = Some (q, t)" "run q (\<lambda>_. None) t = Some (a, s)"
    by (auto split: option.splits)
  let ?p = "p\<lparr>pl_threads := (pl_threads p)[i := q], pl_state := t\<rparr>"
  have "pool_step h Ls p ?p" by (rule pool_step.act [OF Act(3,4) q(1)])
  moreover obtain rs where "(pool_step h Ls)\<^sup>*\<^sup>* ?p (?p\<lparr>pl_threads := (pl_threads ?p)[i := Ret a], pl_state := s, pl_results := rs\<rparr>)"
    using Act(1) [OF q(1), of ?p] q(2) Act(3) by auto
  ultimately show ?case by (auto intro: converse_rtranclp_into_rtranclp)
next
  case (Do k own cont)
  let ?p = "p\<lparr>pl_threads := (pl_threads p)[i := own]\<rparr>"
  have "pool_step h Ls p ?p" by (rule pool_step.lead [OF Do(4,5)])
  moreover obtain rs where "(pool_step h Ls)\<^sup>*\<^sup>* ?p (?p\<lparr>pl_threads := (pl_threads ?p)[i := Ret a], pl_state := s, pl_results := rs\<rparr>)"
    using Do(1) [of ?p] Do(3,4) by auto
  ultimately show ?case by (auto intro: converse_rtranclp_into_rtranclp)
next
  case (Publish k res q)
  let ?p = "p\<lparr>pl_threads := (pl_threads p)[i := q], pl_results := (k, res) # pl_results p\<rparr>"
  have "pool_step h Ls p ?p" by (rule pool_step.publish [OF Publish(3,4)])
  moreover obtain rs where "(pool_step h Ls)\<^sup>*\<^sup>* ?p (?p\<lparr>pl_threads := (pl_threads ?p)[i := Ret a], pl_state := s, pl_results := rs\<rparr>)"
    using Publish(1) [of ?p] Publish(2,3) by auto
  ultimately show ?case by (auto intro: converse_rtranclp_into_rtranclp)
qed

section \<open>The first pool\<close>

lemma initial_pool_safe: "0 \<le> MaxBytes (CacheCfg cfg) \<Longrightarrow> safe_actions.pool_ok h Ls (initial_pool cfg rl)"
  by (simp add: safe_actions.pool_ok_def initial_pool_def initial_state_def state_ok_def cache_ok_new stored_from_new lm_inv_new)

lemma initial_pool_prompt:
  "0 \<le> MaxBytes (CacheCfg cfg) \<Longrightarrow> 1 \<le> MaxEntries (CacheCfg cfg) \<Longrightarrow> prompt_actions.pool_ok h Ls (initial_pool cfg rl)"
  by (simp add: prompt_actions.pool_ok_def initial_pool_def initial_state_def state_ok_def live_cache_new stored_from_new lm_inv_new)

section \<open>Properties\<close>

text \<open>C6: however the actions of requests, admin calls and cleanup ticks interleave, the cache
  keeps its invariant and its bounds, what it holds may be stored and stands under its own key
  with its true size, and every key of the limiter has its own bucket.\<close>

theorem interleaved_states_safe:
  fixes p :: "'l pool"
  assumes "(pool_step h Ls)\<^sup>*\<^sup>* (initial_pool cfg rl) p" "0 \<le> MaxBytes (CacheCfg cfg)"
  shows "mb_inv (ps_cache (pl_state p))
    \<and> (maxEntries (ps_cache (pl_state p)) \<le> 0 \<or> within_limits (ps_cache (pl_state p)))
    \<and> (\<forall>k e. lookup (ps_cache (pl_state p)) k = Some e \<longrightarrow> entry_ok (ph_cachePolicy h) k e)
    \<and> (case ps_limiter (pl_state p) of None \<Rightarrow> True | Some l \<Rightarrow> lm_inv l)"
proof -
  have "safe_actions.pool_ok h Ls p"
    using safe_actions.reachable_pool_ok [OF assms(1)] initial_pool_safe [OF assms(2)] by blast
  then have "cache_ok (ph_cachePolicy h) (ps_cache (pl_state p))" "\<forall>l. ps_limiter (pl_state p) = Some l \<longrightarrow> lm_inv l"
    by (simp_all add: safe_actions.pool_ok_def state_ok_def)
  then show ?thesis by (auto simp: cache_ok_def split: option.split)
qed

text \<open>C5: no response crosses keys, however requests interleave: what the cache holds under a key,
  and what waiting requests of that key are handed, is what the origin answered to some
  cacheable request with this very key, with its status and header, its body cut at the limit.\<close>

theorem responses_keep_their_key:
  fixes p :: "'l pool"
  assumes "(pool_step h Ls)\<^sup>*\<^sup>* (initial_pool cfg rl) p" "0 \<le> MaxBytes (CacheCfg cfg)"
    and "lookup (ps_cache (pl_state p)) k = Some e \<or> (k, SfEntry e) \<in> set (pl_results p)"
  shows "\<exists>L\<in>Ls. \<exists>r out hs body. request_key r = k \<and> uses_cache h r \<and> origin_request h r = Some out
    \<and> wl_RoundTrip L out = OriginResponse (e_StatusCode e) hs body \<and> e_Headers e = hs
    \<and> read_limited (MaxRequestBodyBytes (Security (ph_cfg h))) body = Some (e_Body e)"
proof -
  have "safe_actions.pool_ok h Ls p"
    using safe_actions.reachable_pool_ok [OF assms(1)] initial_pool_safe [OF assms(2)] by blast
  then have "stored_from Ls h (ps_cache (pl_state p))" "list_all (\<lambda>(k, res). result_ok Ls h k res) (pl_results p)"
    by (simp_all add: safe_actions.pool_ok_def state_ok_def)
  then have "from_origin Ls h k e" using assms(3) by (auto simp: stored_from_def list_all_iff)
  then show ?thesis by (auto simp: from_origin_def)
qed

text \<open>A pool with a request that has stored the answer of the origin.\<close>

abbreviation plain_pool :: "int pool" where
  "plain_pool \<equiv> initial_pool sample_cfg None"

lemma plain_pool_stores:
  "\<exists>p e. (pool_step plain_handler {sample_world 0 ''hello''})\<^sup>*\<^sup>* plain_pool p
    \<and> length (pl_threads p) = 1 \<and> lookup (ps_cache (pl_state p)) (request_key sample_forwarded) = Some e"
proof -
  let ?q = "public_prog server_Writer (\<lambda>_. True) ''id-1'' (sample_world 0 ''hello'') plain_handler (new_response False) (sample_request ''/page'' '''')"
  let ?p = "plain_pool\<lparr>pl_threads := [?q]\<rparr>"
  have "pool_step plain_handler {sample_world 0 ''hello''} plain_pool ?p"
    using accept [of "sample_world 0 ''hello''" "{sample_world 0 ''hello''}" plain_handler plain_pool "\<lambda>_. True" "''id-1''"
        "new_response False" "sample_request ''/page'' ''''"] by (simp add: initial_pool_def)
  moreover obtain s e where s: "outcome_state (plain_chain (new_response False) (sample_request ''/page'' '''') (initial_state sample_cfg None)) = Some s"
      "lookup (ps_cache s) (request_key sample_forwarded) = Some e"
    using plain_chain_stores by blast
  have world: "wl_inflight (sample_world 0 ''hello'') = (\<lambda>_. None)" by (simp add: sample_world_def)
  have "outcome_state (outcome_of (run ?q (\<lambda>_. None) (initial_state sample_cfg None))) = Some s"
    using s(1) unfolding run_public [symmetric] world .
  then obtain a where "run ?q (\<lambda>_. None) (initial_state sample_cfg None) = Some (a, s)"
    by (cases "run ?q (\<lambda>_. None) (initial_state sample_cfg None)") auto
  then obtain rs where "(pool_step plain_handler {sample_world 0 ''hello''})\<^sup>*\<^sup>* ?p
      (?p\<lparr>pl_threads := (pl_threads ?p)[0 := Ret a], pl_state := s, pl_results := rs\<rparr>)"
    using pool_alone [of ?q ?p a s 0] by (auto simp: initial_pool_def)
  ultimately have "(pool_step plain_handler {sample_world 0 ''hello''})\<^sup>*\<^sup>* plain_pool
      (?p\<lparr>pl_threads := (pl_threads ?p)[0 := Ret a], pl_state := s, pl_results := rs\<rparr>)"
    by (rule converse_rtranclp_into_rtranclp)
  then show ?thesis using s(2)
    by (intro exI [of _ "?p\<lparr>pl_threads := (pl_threads ?p)[0 := Ret a], pl_state := s, pl_results := rs\<rparr>"] exI [of _ e]) simp
qed

lemma sample_cfg_limits: "0 \<le> MaxBytes (CacheCfg sample_cfg)" "1 \<le> MaxEntries (CacheCfg sample_cfg)"
  by (simp_all add: sample_cfg_def Let_def applyDefaults_def sample_config_def default_cache_def or_default_def)

theorem interleaved_states_safe_witness:
  "\<exists>p e. (pool_step plain_handler {sample_world 0 ''hello''})\<^sup>*\<^sup>* plain_pool p
    \<and> lookup (ps_cache (pl_state p)) (request_key sample_forwarded) = Some e \<and> e_Key e = request_key sample_forwarded
    \<and> mb_inv (ps_cache (pl_state p))"
proof -
  obtain p e where p: "(pool_step plain_handler {sample_world 0 ''hello''})\<^sup>*\<^sup>* plain_pool p"
      "lookup (ps_cache (pl_state p)) (request_key sample_forwarded) = Some e"
    using plain_pool_stores by blast
  from interleaved_states_safe [OF p(1) sample_cfg_limits(1)] p show ?thesis unfolding entry_ok_def by blast
qed

theorem responses_keep_their_key_witness:
  "\<exists>p e (L :: int world_lib) r out. (pool_step plain_handler {sample_world 0 ''hello''})\<^sup>*\<^sup>* plain_pool p
    \<and> lookup (ps_cache (pl_state p)) (request_key sample_forwarded) = Some e
    \<and> request_key r = request_key sample_forwarded \<and> origin_request plain_handler r = Some out"
proof -
  obtain p e where p: "(pool_step plain_handler {sample_world 0 ''hello''})\<^sup>*\<^sup>* plain_pool p"
      "lookup (ps_cache (pl_state p)) (request_key sample_forwarded) = Some e"
    using plain_pool_stores by blast
  from responses_keep_their_key [OF p(1) sample_cfg_limits(1) disjI1 [OF p(2)]] p show ?thesis by blast
qed

end
