(* ===== verification/Flight.thy ===== *)
theory Flight
  imports Pool
begin

text \<open>
  The pool of goroutines under the rules of \<open>golang.org/x/sync/singleflight\<close>: at most one call per
  key is under way, a second one waits until the first hands it its result. Its runs are runs of
  the pool of \<open>Pool\<close>, and no goroutine waits for ever: without new requests every schedule
  comes to an end, and at its end every goroutine has answered.

  A mutex is not a thing of its own here: an action is one critical section, it holds one mutex
  from its beginning to its end and waits for nothing inside. A goroutine that waits for a mutex
  waits for such an action, and that it returns is part of what is shown.
\<close>

section \<open>Calls under way\<close>

text \<open>A waiting goroutine remembers the function it passed to \<open>Do\<close>, which is not run.\<close>

datatype 'l goroutine =
    Running "('l, response call \<times> request) go"
  | Waiting string "('l, response call \<times> request) go" "sf_result \<Rightarrow> ('l, response call \<times> request) go"

record 'l flight_pool =
  fp_goroutines :: "'l goroutine list"
  fp_state :: "'l proxy_state"
  fp_calls :: "string \<rightharpoonup> nat"  \<comment> \<open>the goroutine that runs the call for a key\<close>

fun wake :: "string \<Rightarrow> sf_result \<Rightarrow> 'l goroutine \<Rightarrow> 'l goroutine" where
  "wake k res (Running q) = Running q"
| "wake k res (Waiting k' own cont) = (if k' = k then Running (cont res) else Waiting k' own cont)"

text \<open>What a goroutine does on its own account.\<close>

inductive work_step :: "'l flight_pool \<Rightarrow> 'l flight_pool \<Rightarrow> bool" where
  act: "i < length (fp_goroutines p) \<Longrightarrow> fp_goroutines p ! i = Running (Act f) \<Longrightarrow> f (fp_state p) = Some (q, s) \<Longrightarrow>
    work_step p (p\<lparr>fp_goroutines := (fp_goroutines p)[i := Running q], fp_state := s\<rparr>)"
| lead: "i < length (fp_goroutines p) \<Longrightarrow> fp_goroutines p ! i = Running (Do k own cont) \<Longrightarrow> fp_calls p k = None \<Longrightarrow>
    work_step p (p\<lparr>fp_goroutines := (fp_goroutines p)[i := Running own], fp_calls := (fp_calls p)(k \<mapsto> i)\<rparr>)"
| wait: "i < length (fp_goroutines p) \<Longrightarrow> fp_goroutines p ! i = Running (Do k own cont) \<Longrightarrow> fp_calls p k = Some j \<Longrightarrow>
    work_step p (p\<lparr>fp_goroutines := (fp_goroutines p)[i := Waiting k own cont]\<rparr>)"
| publish: "i < length (fp_goroutines p) \<Longrightarrow> fp_goroutines p ! i = Running (Publish k res q) \<Longrightarrow>
    work_step p (p\<lparr>fp_goroutines := map (wake k res) ((fp_goroutines p)[i := Running q]), fp_calls := (fp_calls p)(k := None)\<rparr>)"

text \<open>What comes from outside: requests of both servers and ticks of the cleanup.\<close>

inductive flight_step :: "proxy_handler \<Rightarrow> 'l world_lib set \<Rightarrow> 'l flight_pool \<Rightarrow> 'l flight_pool \<Rightarrow> bool" for h Ls where
  work: "work_step p p' \<Longrightarrow> flight_step h Ls p p'"
| accept: "L \<in> Ls \<Longrightarrow> flight_step h Ls p
    (p\<lparr>fp_goroutines := fp_goroutines p @ [Running (public_prog server_Writer label_ok ident L h w r)]\<rparr>)"
| accept_admin: "flight_step h Ls p
    (p\<lparr>fp_goroutines := fp_goroutines p @ [Running (admin_prog server_Writer token w r)]\<rparr>)"
| cleanup: "ps_limiter (fp_state p) = Some l \<Longrightarrow>
    flight_step h Ls p (p\<lparr>fp_state := (fp_state p)\<lparr>ps_limiter := Some (cleanup_tick now l)\<rparr>\<rparr>)"

definition initial_flights :: "config \<Rightarrow> rate_limit_config option \<Rightarrow> 'l flight_pool" where
  "initial_flights cfg rl = \<lparr>fp_goroutines = [], fp_state = initial_state cfg rl, fp_calls = Map.empty\<rparr>"

section \<open>Every run is a run of the pool\<close>

fun program_of :: "'l goroutine \<Rightarrow> ('l, response call \<times> request) go" where
  "program_of (Running q) = q"
| "program_of (Waiting k own cont) = Do k own cont"

definition flies :: "'l flight_pool \<Rightarrow> 'l pool \<Rightarrow> bool" where
  "flies p P \<longleftrightarrow> pl_threads P = map program_of (fp_goroutines p) \<and> pl_state P = fp_state p"

text \<open>Waking up is taking over a result, one goroutine after the other.\<close>

lemma wake_steps:
  assumes "(k, res) \<in> set (pl_results P)" "pl_threads P = map program_of gs"
  shows "(pool_step h Ls)\<^sup>*\<^sup>* P (P\<lparr>pl_threads := map program_of (map (wake k res) gs)\<rparr>)"
proof -
  have "(pool_step h Ls)\<^sup>*\<^sup>* P (P\<lparr>pl_threads := map program_of (map (wake k res) (take n gs) @ drop n gs)\<rparr>)"
    if "n \<le> length gs" for n
    using that
  proof (induction n)
    case 0
    then show ?case using assms(2) by (metis (no_types, lifting) append_Nil drop_0 list.simps(8) pool.surjective pool.update_convs(1)
          rtranclp.rtrancl_refl take_0)
  next
    case (Suc n)
    let ?Q = "P\<lparr>pl_threads := map program_of (map (wake k res) (take n gs) @ drop n gs)\<rparr>"
    let ?R = "P\<lparr>pl_threads := map program_of (map (wake k res) (take (Suc n) gs) @ drop (Suc n) gs)\<rparr>"
    have n: "n < length gs" using Suc(2) by simp
    have split: "take (Suc n) gs = take n gs @ [gs ! n]" "drop n gs = gs ! n # drop (Suc n) gs"
      using n by (simp_all add: take_Suc_conv_app_nth Cons_nth_drop_Suc)
    have len: "length (take n gs) = n" using n by simp
    have R: "?R = ?Q\<lparr>pl_threads := (pl_threads ?Q)[n := program_of (wake k res (gs ! n))]\<rparr>"
      unfolding split using len by (simp add: list_update_append)
    have at: "pl_threads ?Q ! n = program_of (gs ! n)" "n < length (pl_threads ?Q)"
      unfolding split(2) using len n by (simp_all add: nth_append)
    have "(pool_step h Ls)\<^sup>*\<^sup>* ?Q ?R"
    proof (cases "\<exists>own cont. gs ! n = Waiting k own cont")
      case True
      then obtain own cont where g: "gs ! n = Waiting k own cont" by blast
      have "pool_step h Ls ?Q (?Q\<lparr>pl_threads := (pl_threads ?Q)[n := cont res]\<rparr>)"
        by (rule pool_step.join [OF at(2)]) (use at(1) g assms(1) in simp_all)
      then show ?thesis unfolding R g by simp
    next
      case False
      then have "program_of (wake k res (gs ! n)) = program_of (gs ! n)" by (cases "gs ! n") auto
      then have "?R = ?Q" unfolding R at(1) [symmetric] by (metis (no_types, lifting) at(1) list_update_id pool.surjective pool.update_convs(1))
      then show ?thesis by simp
    qed
    then show ?case using Suc by simp
  qed
  from this [of "length gs"] show ?thesis by simp
qed

lemma fly_once: "pool_step h Ls P Q \<Longrightarrow> flies p Q \<Longrightarrow> \<exists>P'. (pool_step h Ls)\<^sup>*\<^sup>* P P' \<and> flies p P'"
  by blast

lemma work_step_flies:
  assumes "work_step p p'" "flies p P"
  shows "\<exists>P'. (pool_step h Ls)\<^sup>*\<^sup>* P P' \<and> flies p' P'"
  using assms
proof (induction rule: work_step.induct)
  case (act i p f q s)
  have "pool_step h Ls P (P\<lparr>pl_threads := (pl_threads P)[i := q], pl_state := s\<rparr>)"
    by (rule pool_step.act [of i P f]) (use act in \<open>simp_all add: flies_def\<close>)
  then show ?case by (rule fly_once) (use act(4) in \<open>simp add: flies_def map_update\<close>)
next
  case (lead i p k own cont)
  have "pool_step h Ls P (P\<lparr>pl_threads := (pl_threads P)[i := own]\<rparr>)"
    by (rule pool_step.lead [of i P k own cont]) (use lead in \<open>simp_all add: flies_def\<close>)
  then show ?case by (rule fly_once) (use lead(4) in \<open>simp add: flies_def map_update\<close>)
next
  case (wait i p k own cont j)
  then have "flies (p\<lparr>fp_goroutines := (fp_goroutines p)[i := Waiting k own cont]\<rparr>) P"
    using list_update_id [of "map program_of (fp_goroutines p)" i] by (simp add: flies_def map_update)
  then show ?case by blast
next
  case (publish i p k res q)
  let ?P = "P\<lparr>pl_threads := (pl_threads P)[i := q], pl_results := (k, res) # pl_results P\<rparr>"
  let ?gs = "(fp_goroutines p)[i := Running q]"
  have "pool_step h Ls P ?P"
    by (rule pool_step.publish [of i P k res]) (use publish in \<open>simp_all add: flies_def\<close>)
  moreover have "pl_threads ?P = map program_of ?gs" using publish(3) by (simp add: flies_def map_update)
  then have "(pool_step h Ls)\<^sup>*\<^sup>* ?P (?P\<lparr>pl_threads := map program_of (map (wake k res) ?gs)\<rparr>)"
    by (intro wake_steps) simp_all
  ultimately have "(pool_step h Ls)\<^sup>*\<^sup>* P (?P\<lparr>pl_threads := map program_of (map (wake k res) ?gs)\<rparr>)"
    by (rule converse_rtranclp_into_rtranclp)
  then show ?case using publish(3) by (intro exI conjI) (assumption, simp add: flies_def)
qed

lemma flight_step_flies:
  assumes "flight_step h Ls p p'" "flies p P"
  shows "\<exists>P'. (pool_step h Ls)\<^sup>*\<^sup>* P P' \<and> flies p' P'"
  using assms
proof (induction rule: flight_step.induct)
  case (work p p')
  then show ?case by (rule work_step_flies)
next
  case (accept L p label_ok ident w r)
  show ?case by (rule fly_once [OF pool_step.accept [OF accept(1), of h P label_ok ident w r]])
    (use accept(2) in \<open>simp add: flies_def\<close>)
next
  case (accept_admin p token w r)
  show ?case by (rule fly_once [OF pool_step.accept_admin [of h Ls P token w r]])
    (use accept_admin in \<open>simp add: flies_def\<close>)
next
  case (cleanup p l now)
  then have "ps_limiter (pl_state P) = Some l" by (simp add: flies_def)
  then show ?case by (rule fly_once [OF pool_step.cleanup [of P l h Ls now]])
    (use cleanup(2) in \<open>simp add: flies_def\<close>)
qed

lemma flights_are_pools:
  "(flight_step h Ls)\<^sup>*\<^sup>* (initial_flights cfg rl) p \<Longrightarrow> \<exists>P. (pool_step h Ls)\<^sup>*\<^sup>* (initial_pool cfg rl) P \<and> flies p P"
proof (induction rule: rtranclp_induct)
  case base
  have "flies (initial_flights cfg rl) (initial_pool cfg rl)" by (simp add: flies_def initial_flights_def initial_pool_def)
  then show ?case by blast
next
  case (step p p')
  then show ?case using flight_step_flies [OF step(2)] by (metis rtranclp_trans)
qed

section \<open>Programs hold one call at a time\<close>

text \<open>\<open>balanced e p held\<close>: begun while holding the call for \<open>held\<close>, the program calls \<open>Do\<close> only when it
  holds none, publishes what it holds, and ends holding \<open>e\<close>.\<close>

primrec balanced :: "'k option \<Rightarrow> ('s, 'k, 'r, 'a) prog \<Rightarrow> 'k option \<Rightarrow> bool" where
  "balanced e (Ret a) = (\<lambda>held. held = e)"
| "balanced e (Act f) = (\<lambda>held. \<forall>s. case map_option (map_prod (balanced e) id) (f s) of None \<Rightarrow> True | Some (ok, s') \<Rightarrow> ok held)"
| "balanced e (Do k own cont) = (\<lambda>held. held = None \<and> balanced e own (Some k) \<and> (\<forall>res. balanced e (cont res) None))"
| "balanced e (Publish k res p) = (\<lambda>held. held = Some k \<and> balanced e p None)"

lemma case_ok_held:
  "(case map_option (map_prod g id) x of None \<Rightarrow> True | Some (ok, s') \<Rightarrow> ok held) \<longleftrightarrow> (\<forall>p s'. x = Some (p, s') \<longrightarrow> g p held)"
  by (cases x) auto

lemma balanced_Act: "balanced e (Act f) held \<longleftrightarrow> (\<forall>s p s'. f s = Some (p, s') \<longrightarrow> balanced e p held)"
  by (simp only: balanced.simps case_ok_held)

declare balanced.simps(2) [simp del]

lemma balanced_bind:
  "balanced e p held \<Longrightarrow> (\<And>a. balanced e' (g a) e) \<Longrightarrow> balanced e' (bind p g) held"
proof (induction p arbitrary: held rule: prog_induct)
  case (Act f)
  show ?case unfolding bind.simps balanced_Act
  proof (intro allI impI)
    fix s q s'
    assume "map_option (map_prod (\<lambda>p. p g) id) (map_option (map_prod bind id) (f s)) = Some (q, s')"
    then obtain p where p: "f s = Some (p, s')" "q = bind p g" by auto
    have "balanced e p held" using Act(2) p(1) unfolding balanced_Act by blast
    then show "balanced e' q held" using Act(1) [OF p(1)] Act(3) p(2) by simp
  qed
qed auto

text \<open>Programs without a call leave what is held as it is.\<close>

lemma balanced_then: "balanced e p e \<Longrightarrow> (\<And>a. balanced e (g a) e) \<Longrightarrow> balanced e (bind p g) e"
  by (rule balanced_bind)

lemma balanced_Ret: "balanced e (Ret a) e"
  by simp

lemma balanced_atomically: "balanced e (atomically g) e"
  by (auto simp: atomically_def balanced_Act)

lemma balanced_query: "balanced e (query g) e"
  by (simp add: query_def balanced_atomically)

lemma balanced_update: "balanced e (update f) e"
  by (simp add: update_def balanced_query)

lemma balanced_on_cache: "balanced e (on_cache g) e"
  by (simp add: on_cache_def balanced_query)

lemma balanced_on_limiter: "balanced e (on_limiter d g) e"
  by (simp add: on_limiter_def balanced_query)

lemma balanced_set_cache: "balanced e (set_cache k x) e"
  by (simp add: set_cache_def balanced_atomically)

lemma balanced_single_flight:
  "balanced (Some k) p (Some k) \<Longrightarrow> balanced None (single_flight k p) None"
  by (auto simp: single_flight_def intro!: balanced_bind [of "Some k"])

lemmas balanced_intros = balanced_then balanced_Ret balanced_atomically balanced_query balanced_update
  balanced_on_cache balanced_on_limiter balanced_set_cache

lemma balanced_getLimiter: "balanced e (getLimiter_prog lib now key rule) e"
  unfolding getLimiter_prog_def by (auto intro!: balanced_intros split: option.split)

lemma balanced_allow_rules: "balanced e (allow_rules_prog lib now metrics rules r clientIP) e"
  by (induction rules) (auto intro!: balanced_intros balanced_getLimiter)

lemma balanced_allow: "balanced e (allow_prog lib now l r) e"
  by (auto simp: allow_prog_def Let_def intro!: balanced_allow_rules)

lemma balanced_fetch: "balanced e (fetch_prog L h r) e"
  unfolding fetch_prog_def Let_def by (auto intro!: balanced_intros split: option.split origin_result.split)

lemma balanced_fill: "balanced e (fill_prog L h k r) e"
  unfolding fill_prog_def Let_def by (auto intro!: balanced_intros balanced_fetch split: option.split)

lemma balanced_proxy: "balanced e (proxy_prog W L h w r) e"
  unfolding proxy_prog_def by (rule balanced_atomically)

lemma balanced_cached: "balanced None (cached_prog W L h w r) None"
  unfolding cached_prog_def Let_def
  by (auto intro!: balanced_intros balanced_proxy balanced_single_flight balanced_fill split: option.split sf_result.split)

lemma balanced_serve: "balanced None (serve_prog W L h w r) None"
proof -
  have forward: "balanced None (forward_prog W L h w r) None" for w r
    by (simp add: forward_prog_def Let_def balanced_cached balanced_proxy)
  then have "balanced None (rate_limit_prog W L h w r) None" for w r
    unfolding rate_limit_prog_def
    by (auto intro!: balanced_then [OF balanced_query] balanced_then [OF balanced_allow] split: option.split)
  then have "balanced None (waf_prog W L h body w r) None" for body w r
    unfolding waf_prog_def Let_def
    by (auto intro!: balanced_then [OF balanced_update] split: option.split)
  then show ?thesis by (auto simp: serve_prog_def Let_def split: option.split sum.split)
qed

lemma balanced_public: "balanced None (public_prog W label_ok ident L h w r) None"
  unfolding public_prog_def log_prog_def recovery_prog_def Let_def
  by (auto intro!: balanced_intros balanced_serve split: call.split)

lemma balanced_admin: "balanced None (admin_prog W token w r) None"
proof -
  have "balanced None (purge_prog W w r) None"
    by (auto simp: purge_prog_def Let_def intro!: balanced_intros split: option.split list.split)
  then show ?thesis
    by (auto simp: admin_prog_def Let_def intro!: balanced_intros split: option.split list.split)
qed

section \<open>Who holds which call\<close>

fun goroutine_ok :: "(string \<rightharpoonup> nat) \<Rightarrow> nat \<Rightarrow> 'l goroutine \<Rightarrow> bool" where
  "goroutine_ok calls i (Running q) \<longleftrightarrow> (\<exists>held. (\<forall>k. calls k = Some i \<longleftrightarrow> held = Some k) \<and> balanced None q held)"
| "goroutine_ok calls i (Waiting k own cont) \<longleftrightarrow>
     calls k \<noteq> None \<and> (\<forall>k'. calls k' \<noteq> Some i) \<and> (\<forall>res. balanced None (cont res) None)"

definition flights_ok :: "'l flight_pool \<Rightarrow> bool" where
  "flights_ok p \<longleftrightarrow> (\<forall>k j. fp_calls p k = Some j \<longrightarrow> j < length (fp_goroutines p))
     \<and> (\<forall>i < length (fp_goroutines p). goroutine_ok (fp_calls p) i (fp_goroutines p ! i))"

lemma goroutine_ok_frame:
  assumes "goroutine_ok calls i g" "\<And>k. calls' k = Some i \<longleftrightarrow> calls k = Some i" "\<And>k. calls k \<noteq> None \<Longrightarrow> calls' k \<noteq> None"
  shows "goroutine_ok calls' i g"
  using assms by (cases g) auto

lemma flights_okD: "flights_ok p \<Longrightarrow> i < length (fp_goroutines p) \<Longrightarrow> goroutine_ok (fp_calls p) i (fp_goroutines p ! i)"
  by (simp add: flights_ok_def)

lemma flights_okI:
  assumes "\<And>k j. fp_calls p k = Some j \<Longrightarrow> j < length (fp_goroutines p)"
    and "\<And>i. i < length (fp_goroutines p) \<Longrightarrow> goroutine_ok (fp_calls p) i (fp_goroutines p ! i)"
  shows "flights_ok p"
  using assms by (simp add: flights_ok_def)

lemma flights_ok_update:
  assumes "flights_ok p" "i < length (fp_goroutines p)" "goroutine_ok (fp_calls p) i g"
  shows "flights_ok (p\<lparr>fp_goroutines := (fp_goroutines p)[i := g], fp_state := s\<rparr>)"
proof (rule flights_okI)
  fix j assume "j < length (fp_goroutines (p\<lparr>fp_goroutines := (fp_goroutines p)[i := g], fp_state := s\<rparr>))"
  then show "goroutine_ok (fp_calls (p\<lparr>fp_goroutines := (fp_goroutines p)[i := g], fp_state := s\<rparr>)) j
      (fp_goroutines (p\<lparr>fp_goroutines := (fp_goroutines p)[i := g], fp_state := s\<rparr>) ! j)"
    using assms flights_okD [OF assms(1), of j] by (cases "j = i") simp_all
qed (use assms in \<open>auto simp: flights_ok_def\<close>)

lemma lead_ok:
  assumes "flights_ok p" "i < length (fp_goroutines p)" "fp_goroutines p ! i = Running (Do k own cont)" "fp_calls p k = None"
  shows "flights_ok (p\<lparr>fp_goroutines := (fp_goroutines p)[i := Running own], fp_calls := (fp_calls p)(k \<mapsto> i)\<rparr>)"
    (is "flights_ok ?p")
proof (rule flights_okI)
  have none: "\<forall>k. fp_calls p k \<noteq> Some i" and own: "balanced None own (Some k)"
    using flights_okD [OF assms(1,2)] assms(3) by auto
  fix j assume "j < length (fp_goroutines ?p)"
  then show "goroutine_ok (fp_calls ?p) j (fp_goroutines ?p ! j)"
  proof (cases "j = i")
    case True
    have "\<forall>k'. ((fp_calls p)(k \<mapsto> i)) k' = Some i \<longleftrightarrow> Some k = Some k'" using none by simp
    then show ?thesis using True own \<open>j < _\<close> by auto
  next
    case False
    then have "goroutine_ok (fp_calls p) j (fp_goroutines p ! j)" using flights_okD [OF assms(1), of j] \<open>j < _\<close> by simp
    then have "goroutine_ok ((fp_calls p)(k \<mapsto> i)) j (fp_goroutines p ! j)"
      by (rule goroutine_ok_frame) (use False assms(4) in auto)
    then show ?thesis using False by simp
  qed
qed (use assms in \<open>auto simp: flights_ok_def split: if_splits\<close>)

lemma publish_ok:
  assumes "flights_ok p" "i < length (fp_goroutines p)" "fp_goroutines p ! i = Running (Publish k res q)"
  shows "flights_ok (p\<lparr>fp_goroutines := map (wake k res) ((fp_goroutines p)[i := Running q]), fp_calls := (fp_calls p)(k := None)\<rparr>)"
    (is "flights_ok ?p")
proof (rule flights_okI)
  have mine: "fp_calls p k' = Some i \<longleftrightarrow> k' = k" and q: "balanced None q None" for k'
    using flights_okD [OF assms(1,2)] assms(3) by auto
  fix j assume j: "j < length (fp_goroutines ?p)"
  show "goroutine_ok (fp_calls ?p) j (fp_goroutines ?p ! j)"
  proof (cases "j = i")
    case True
    then show ?thesis using q j mine by auto
  next
    case False
    have ok: "goroutine_ok (fp_calls p) j (fp_goroutines p ! j)" using flights_okD [OF assms(1)] j by simp
    show ?thesis
    proof (cases "fp_goroutines p ! j")
      case (Running q')
      have "fp_calls ?p k' = Some j \<longleftrightarrow> fp_calls p k' = Some j" for k' using mine [of k] False by auto
      then show ?thesis using ok Running False j by auto
    next
      case (Waiting k' own cont)
      then show ?thesis using ok False j by auto
    qed
  qed
qed (use assms(1) in \<open>auto simp: flights_ok_def split: if_splits\<close>)

lemma work_step_ok: "work_step p p' \<Longrightarrow> flights_ok p \<Longrightarrow> flights_ok p'"
proof (induction rule: work_step.induct)
  case (act i p f q s)
  then have "goroutine_ok (fp_calls p) i (Running q)"
    using flights_okD [OF act(4,1)] unfolding act(2) goroutine_ok.simps balanced_Act by blast
  then show ?case by (rule flights_ok_update [OF act(4,1)])
next
  case (lead i p k own cont)
  then show ?case by (intro lead_ok) simp_all
next
  case (wait i p k own cont j)
  then have "goroutine_ok (fp_calls p) i (Waiting k own cont)" using flights_okD [OF wait(4,1)] by auto
  then show ?case using flights_ok_update [OF wait(4,1), of _ "fp_state p"] by simp
next
  case (publish i p k res q)
  then show ?case by (intro publish_ok) simp_all
qed

lemma accept_ok:
  assumes "flights_ok p" "balanced None q None"
  shows "flights_ok (p\<lparr>fp_goroutines := fp_goroutines p @ [Running q]\<rparr>)"
proof (rule flights_okI)
  let ?p = "p\<lparr>fp_goroutines := fp_goroutines p @ [Running q]\<rparr>"
  have new: "fp_calls p k \<noteq> Some (length (fp_goroutines p))" for k using assms(1) by (auto simp: flights_ok_def)
  fix i assume "i < length (fp_goroutines ?p)"
  then show "goroutine_ok (fp_calls ?p) i (fp_goroutines ?p ! i)"
    using assms(2) new flights_okD [OF assms(1), of i] by (cases "i = length (fp_goroutines p)") (auto simp: nth_append)
qed (use assms(1) in \<open>fastforce simp: flights_ok_def\<close>)

lemma flight_step_ok: "flight_step h Ls p p' \<Longrightarrow> flights_ok p \<Longrightarrow> flights_ok p'"
proof (induction rule: flight_step.induct)
  case (work p p')
  then show ?case by (rule work_step_ok)
next
  case (cleanup p l now)
  then show ?case by (simp add: flights_ok_def)
qed (simp_all add: accept_ok balanced_public balanced_admin)

lemma reachable_flights_ok: "(flight_step h Ls)\<^sup>*\<^sup>* (initial_flights cfg rl) p \<Longrightarrow> flights_ok p"
proof (induction rule: rtranclp_induct)
  case base
  then show ?case by (simp add: flights_ok_def initial_flights_def)
qed (rule flight_step_ok)

section \<open>Every schedule comes to an end\<close>

text \<open>What a goroutine can be after a step of its own, or after it was woken.\<close>

inductive after :: "'l goroutine \<Rightarrow> 'l goroutine \<Rightarrow> bool" where
  "f s = Some (q, s') \<Longrightarrow> after (Running q) (Running (Act f))"
| "after (Running own) (Running (Do k own cont))"
| "after (Waiting k own cont) (Running (Do k own cont))"
| "after (Running (cont res)) (Waiting k own cont)"
| "after (Running q) (Running (Publish k res q))"

inductive_cases afterE:
  "after g (Running (Ret a))" "after g (Running (Act f))" "after g (Running (Do k own cont))"
  "after g (Running (Publish k res q))" "after g (Waiting k own cont)"

lemma wf_after: "wf {(g, g'). after g g'}"
proof -
  have running: "Wellfounded.accp after (Running q)" for q :: "('a, response call \<times> request) go"
  proof (induction q rule: prog_induct)
    case (Ret a)
    show ?case by (rule accp.accI) (erule afterE)
  next
    case (Act f)
    show ?case by (rule accp.accI) (erule afterE, use Act in blast)
  next
    case (Do k own cont)
    have "Wellfounded.accp after (Waiting k own cont)"
      by (rule accp.accI) (erule afterE, use Do in blast)
    note w = this
    show ?case by (rule accp.accI) (erule afterE; use Do w in blast)
  next
    case (Publish k res q)
    show ?case by (rule accp.accI) (erule afterE, use Publish in blast)
  qed
  have "Wellfounded.accp after (Waiting k own cont)" for k and own :: "('a, response call \<times> request) go" and cont
    by (rule accp.accI) (erule afterE, use running in blast)
  then have "\<forall>g :: 'a goroutine. Wellfounded.accp after g" using running by (metis goroutine.exhaust)
  then have "wfp (after :: 'a goroutine \<Rightarrow> 'a goroutine \<Rightarrow> bool)" by (rule accp_wfpI)
  then show ?thesis by (simp only: wfp_def)
qed

lemma mult_add: "(M, N) \<in> mult r \<Longrightarrow> (add_mset c M, add_mset c N) \<in> mult r"
  unfolding mult_def
proof (induction rule: trancl_induct)
  case (base N)
  then show ?case using mult1_union [of M N r "{#c#}"] by auto
next
  case (step N N')
  then show ?case using mult1_union [of N N' r "{#c#}"] by (auto intro: trancl_into_trancl)
qed

lemma mult_head: "(x, y) \<in> r \<Longrightarrow> (add_mset x M, add_mset y M) \<in> mult r"
  using one_step_implies_mult [of "{#y#}" "{#x#}" r M] by auto

lemma pointwise_mult:
  assumes "list_all2 (\<lambda>x y. x = y \<or> (x, y) \<in> r) xs ys"
  shows "mset xs = mset ys \<or> (mset xs, mset ys) \<in> mult r"
    and "i < length ys \<Longrightarrow> (xs ! i, ys ! i) \<in> r \<Longrightarrow> (mset xs, mset ys) \<in> mult r"
  using assms
proof (induction xs ys arbitrary: i rule: list_all2_induct)
  case (Cons x xs y ys)
  have weak: "mset xs = mset ys \<or> (mset xs, mset ys) \<in> mult r" by (rule Cons.IH(1))
  have trans: "(A, B) \<in> mult r \<Longrightarrow> (B, C) \<in> mult r \<Longrightarrow> (A, C) \<in> mult r" for A B C
    by (simp add: mult_def)
  have strict: "(mset (x # xs), mset (y # ys)) \<in> mult r" if "(x, y) \<in> r"
    using weak mult_head [OF that] mult_add [of "mset xs" "mset ys" r x] trans by fastforce
  { case 1
    show ?case using strict weak Cons.hyps(1) mult_add [of "mset xs" "mset ys" r x] by auto }
  { case 2
    show ?case
    proof (cases i)
      case 0
      then show ?thesis using 2 strict by simp
    next
      case (Suc j)
      then have "(mset xs, mset ys) \<in> mult r" using 2 Cons.IH(2) [of j] by simp
      then show ?thesis using strict Cons.hyps(1) mult_add [of "mset xs" "mset ys" r x] by auto
    qed }
qed simp_all

lemma wake_after: "wake k res g = g \<or> after (wake k res g) g"
  by (cases g) (auto intro: after.intros)

lemma update_after:
  assumes "i < length gs" "after g (gs ! i)"
  shows "(mset (gs[i := g]), mset gs) \<in> mult {(g, g'). after g g'}"
proof (rule pointwise_mult(2) [where i = i])
  show "list_all2 (\<lambda>x y. x = y \<or> (x, y) \<in> {(g, g'). after g g'}) (gs[i := g]) gs"
    using assms by (auto simp: list_all2_conv_all_nth nth_list_update)
qed (use assms in simp_all)

lemma work_step_smaller:
  "work_step p p' \<Longrightarrow> (mset (fp_goroutines p'), mset (fp_goroutines p)) \<in> mult {(g, g'). after g g'}"
proof (induction rule: work_step.induct)
  case (publish i p k res q)
  let ?gs = "fp_goroutines p"
  have at: "wake k res ((?gs[i := Running q]) ! j) = ?gs ! j \<or> after (wake k res ((?gs[i := Running q]) ! j)) (?gs ! j)"
    if "j < length ?gs" for j
    using that publish wake_after [of k res "?gs ! j"] by (cases "j = i") (auto intro: after.intros)
  have "(mset (map (wake k res) (?gs[i := Running q])), mset ?gs) \<in> mult {(g, g'). after g g'}"
  proof (rule pointwise_mult(2))
    show "list_all2 (\<lambda>x y. x = y \<or> (x, y) \<in> {(g, g'). after g g'}) (map (wake k res) (?gs[i := Running q])) ?gs"
      using at by (auto simp: list_all2_conv_all_nth)
    show "(map (wake k res) (?gs[i := Running q]) ! i, ?gs ! i) \<in> {(g, g'). after g g'}"
      using publish by (auto intro: after.intros)
  qed (use publish in simp)
  then show ?case by simp
qed (auto intro!: update_after simp: after.intros)

lemma work_wf: "wf {(p', p). work_step p p'}"
proof (rule wf_subset)
  show "wf (inv_image (mult {(g, g'). after g g'}) (\<lambda>p. mset (fp_goroutines p)))"
    by (intro wf_inv_image wf_mult wf_after)
qed (auto dest: work_step_smaller)

lemma work_ends: "\<exists>p'. work_step\<^sup>*\<^sup>* p p' \<and> (\<nexists>p''. work_step p' p'')"
proof (induction p rule: wf_induct [OF work_wf])
  case (1 p)
  show ?case
  proof (cases "\<exists>q. work_step p q")
    case True
    then obtain q p' where "work_step p q" "work_step\<^sup>*\<^sup>* q p'" "\<nexists>p''. work_step p' p''" using 1 by blast
    then show ?thesis by (meson converse_rtranclp_into_rtranclp)
  next
    case False
    then show ?thesis by blast
  qed
qed

lemma work_keeps_goroutines: "work_step\<^sup>*\<^sup>* p p' \<Longrightarrow> length (fp_goroutines p') = length (fp_goroutines p)"
  by (induction rule: rtranclp_induct) (auto elim: work_step.cases)

lemma work_flights: "work_step\<^sup>*\<^sup>* p p' \<Longrightarrow> (flight_step h Ls)\<^sup>*\<^sup>* p p'"
  by (induction rule: rtranclp_induct) (auto intro: flight_step.work rtranclp.rtrancl_into_rtrancl)

section \<open>Nobody waits for ever\<close>

text \<open>A goroutine that does not wait and has not answered can go on.\<close>

lemma running_goes_on:
  assumes "i < length (fp_goroutines p)" "fp_goroutines p ! i = Running q" "\<nexists>a. q = Ret a"
    and "\<And>f. q = Act f \<Longrightarrow> f (fp_state p) \<noteq> None"
  shows "\<exists>p'. work_step p p'"
proof (cases q)
  case (Act f)
  then obtain q' s where "f (fp_state p) = Some (q', s)" using assms(4) by fastforce
  then show ?thesis using work_step.act [OF assms(1)] assms(2) Act by blast
next
  case (Do k own cont)
  then show ?thesis using work_step.lead [OF assms(1)] work_step.wait [OF assms(1)] assms(2)
    by (cases "fp_calls p k") blast+
next
  case (Publish k res q')
  then show ?thesis using work_step.publish [OF assms(1)] assms(2) by blast
qed (use assms(3) in blast)

lemma stuck_answered:
  assumes "flights_ok p" "\<nexists>p'. work_step p p'" "i < length (fp_goroutines p)"
    and "\<And>j f. j < length (fp_goroutines p) \<Longrightarrow> fp_goroutines p ! j = Running (Act f) \<Longrightarrow> f (fp_state p) \<noteq> None"
  shows "\<exists>a. fp_goroutines p ! i = Running (Ret a)"
proof -
  have running: "\<exists>a. q = Ret a" if "j < length (fp_goroutines p)" "fp_goroutines p ! j = Running q" for j q
    using running_goes_on [OF that] assms(2) assms(4) [OF that(1)] that(2) by blast
  show ?thesis
  proof (cases "fp_goroutines p ! i")
    case (Running q)
    then show ?thesis using running [OF assms(3)] by blast
  next
    case (Waiting k own cont)
    then obtain j where j: "fp_calls p k = Some j" using flights_okD [OF assms(1,3)] by auto
    then have "j < length (fp_goroutines p)" using assms(1) by (simp add: flights_ok_def)
    then show ?thesis using flights_okD [OF assms(1), of j] running [of j] j by (cases "fp_goroutines p ! j") auto
  qed
qed

lemma actions_return:
  assumes "(flight_step h Ls)\<^sup>*\<^sup>* (initial_flights cfg rl) p" "0 \<le> MaxBytes (CacheCfg cfg)" "1 \<le> MaxEntries (CacheCfg cfg)"
    and "i < length (fp_goroutines p)" "fp_goroutines p ! i = Running (Act f)"
  shows "f (fp_state p) \<noteq> None"
proof -
  obtain P where P: "(pool_step h Ls)\<^sup>*\<^sup>* (initial_pool cfg rl) P" "flies p P" using flights_are_pools [OF assms(1)] by blast
  then have ok: "prompt_actions.pool_ok h Ls P"
    using prompt_actions.reachable_pool_ok initial_pool_prompt [OF assms(2,3)] by blast
  have "pl_threads P ! i = Act f" "i < length (pl_threads P)" using P(2) assms(4,5) by (simp_all add: flies_def)
  then have act: "prompt_actions.ok h Ls (\<lambda>_. True) (Act f)" using prompt_actions.pool_ok_thread [OF ok] by metis
  have "state_ok (prompt_cache Ls h) lm_inv (fp_state p)"
    using ok P(2) by (simp add: prompt_actions.pool_ok_def flies_def)
  from prog_ok_ActD(1) [OF act this] show ?thesis by blast
qed

section \<open>Properties\<close>

text \<open>C7: under the rules of the single-flight group no request waits for ever, however requests,
  admin calls and cleanup ticks have interleaved so far, when the limits leave room for an entry and
  the calls of the origin return:
  the goroutines under way cannot go on without end, and when none of them can go on, every one
  has answered. In particular no goroutine waits for a call whose goroutine waits itself.\<close>

theorem requests_finish:
  fixes p :: "'l flight_pool"
  assumes "(flight_step h Ls)\<^sup>*\<^sup>* (initial_flights cfg rl) p" "0 \<le> MaxBytes (CacheCfg cfg)" "1 \<le> MaxEntries (CacheCfg cfg)"
  shows "(\<nexists>run. run 0 = p \<and> (\<forall>n. work_step (run n) (run (Suc n))))
    \<and> (\<forall>p'. work_step\<^sup>*\<^sup>* p p' \<and> (\<nexists>p''. work_step p' p'') \<longrightarrow>
         length (fp_goroutines p') = length (fp_goroutines p)
         \<and> (\<forall>g \<in> set (fp_goroutines p'). \<exists>c r. g = Running (Ret (c, r))))"
proof (intro conjI allI impI ballI)
  show "\<nexists>run. run 0 = p \<and> (\<forall>n. work_step (run n) (run (Suc n)))"
    using work_wf unfolding wf_iff_no_infinite_down_chain by auto
  fix p' :: "'l flight_pool" assume p': "work_step\<^sup>*\<^sup>* p p' \<and> (\<nexists>p''. work_step p' p'')"
  then show "length (fp_goroutines p') = length (fp_goroutines p)" by (blast intro: work_keeps_goroutines)
  have reach: "(flight_step h Ls)\<^sup>*\<^sup>* (initial_flights cfg rl) p'"
    using assms(1) work_flights p' by (meson rtranclp_trans)
  fix g assume "g \<in> set (fp_goroutines p')"
  then obtain i where i: "i < length (fp_goroutines p')" "fp_goroutines p' ! i = g" by (auto simp: in_set_conv_nth)
  have "\<exists>a. fp_goroutines p' ! i = Running (Ret a)"
  proof (rule stuck_answered [OF reachable_flights_ok [OF reach] _ i(1)])
    show "\<nexists>p''. work_step p' p''" using p' by blast
  qed (rule actions_return [OF reach assms(2,3)])
  then show "\<exists>c r. g = Running (Ret (c, r))" using i(2) by auto
qed

text \<open>Two requests for one page.\<close>

abbreviation (input) page_request :: "(int, response call \<times> request) go" where
  "page_request \<equiv> public_prog server_Writer (\<lambda>_. True) ''id-1'' (sample_world 0 ''hello'') plain_handler (new_response False) (sample_request ''/page'' '''')"

definition two_requests :: "int flight_pool" where
  "two_requests = (initial_flights sample_cfg None)\<lparr>fp_goroutines := [Running page_request, Running page_request]\<rparr>"

lemma two_requests_reachable:
  "(flight_step plain_handler {sample_world 0 ''hello''})\<^sup>*\<^sup>* (initial_flights sample_cfg None) two_requests"
proof -
  let ?p = "(initial_flights sample_cfg None)\<lparr>fp_goroutines := [Running page_request]\<rparr>"
  have "flight_step plain_handler {sample_world 0 ''hello''} (initial_flights sample_cfg None) ?p"
    using flight_step.accept [of "sample_world 0 ''hello''" "{sample_world 0 ''hello''}" plain_handler "initial_flights sample_cfg None"
        "\<lambda>_. True" "''id-1''" "new_response False" "sample_request ''/page'' ''''"] by (simp add: initial_flights_def)
  moreover have "flight_step plain_handler {sample_world 0 ''hello''} ?p two_requests"
    using flight_step.accept [of "sample_world 0 ''hello''" "{sample_world 0 ''hello''}" plain_handler ?p
        "\<lambda>_. True" "''id-1''" "new_response False" "sample_request ''/page'' ''''"] by (simp add: two_requests_def)
  ultimately show ?thesis by simp
qed

theorem requests_finish_witness:
  "\<exists>p' c r c' r'. work_step\<^sup>*\<^sup>* two_requests p' \<and> fp_goroutines p' = [Running (Ret (c, r)), Running (Ret (c', r'))]"
proof -
  obtain p' where p': "work_step\<^sup>*\<^sup>* two_requests p'" "\<nexists>p''. work_step p' p''" using work_ends by blast
  with requests_finish [OF two_requests_reachable sample_cfg_limits]
  have "length (fp_goroutines p') = 2" "\<forall>g \<in> set (fp_goroutines p'). \<exists>c r. g = Running (Ret (c, r))"
    by (simp_all add: two_requests_def)
  then show ?thesis using p'(1) by (auto simp: length_Suc_conv numeral_2_eq_2)
qed

end
