(* ===== verification/Metrics.thy ===== *)
theory Metrics
  imports Middleware
begin

text \<open>
  \<open>proxy/internal/observability/metrics.go\<close>: the collectors the proxy registers, and which of
  them with which label values every metric event of the model updates. The registry is the
  Prometheus client's; \<open>NewMetrics\<close> panics there when two collectors have one name, and an update
  panics when the number of label values is not that of the collector.
\<close>

datatype collector_kind = CounterVec | HistogramVec | Gauge

record collector =
  co_kind :: collector_kind
  co_Name :: string
  co_Help :: string
  co_labels :: "string list"

record metrics =
  RequestsTotal :: collector
  RequestDuration :: collector
  CacheOperations :: collector
  CacheSizeBytes :: collector
  CacheEntries :: collector
  WAFDecisions :: collector
  RateLimitTotal :: collector
  UpstreamErrors :: collector
  UpstreamDuration :: collector

definition NewMetrics :: metrics where
  "NewMetrics =
     \<lparr>RequestsTotal = \<lparr>co_kind = CounterVec, co_Name = ''openflare_requests_total'',
        co_Help = ''Total number of HTTP requests processed'', co_labels = [''method'', ''status'', ''route'']\<rparr>,
      RequestDuration = \<lparr>co_kind = HistogramVec, co_Name = ''openflare_request_duration_seconds'',
        co_Help = ''Request processing duration in seconds'', co_labels = [''method'', ''route'']\<rparr>,
      CacheOperations = \<lparr>co_kind = CounterVec, co_Name = ''openflare_cache_operations_total'',
        co_Help = ''Total cache operations by type'', co_labels = [''operation'']\<rparr>,
      CacheSizeBytes = \<lparr>co_kind = Gauge, co_Name = ''openflare_cache_size_bytes'',
        co_Help = ''Current cache size in bytes'', co_labels = []\<rparr>,
      CacheEntries = \<lparr>co_kind = Gauge, co_Name = ''openflare_cache_entries'',
        co_Help = ''Current number of cache entries'', co_labels = []\<rparr>,
      WAFDecisions = \<lparr>co_kind = CounterVec, co_Name = ''openflare_waf_decisions_total'',
        co_Help = ''Total WAF decisions by rule and action'', co_labels = [''rule_id'', ''action'']\<rparr>,
      RateLimitTotal = \<lparr>co_kind = CounterVec, co_Name = ''openflare_ratelimit_total'',
        co_Help = ''Total rate limit decisions'', co_labels = [''rule_id'', ''decision'']\<rparr>,
      UpstreamErrors = \<lparr>co_kind = CounterVec, co_Name = ''openflare_upstream_errors_total'',
        co_Help = ''Total upstream errors'', co_labels = [''upstream'', ''error_type'']\<rparr>,
      UpstreamDuration = \<lparr>co_kind = HistogramVec, co_Name = ''openflare_upstream_duration_seconds'',
        co_Help = ''Upstream request duration in seconds'', co_labels = [''upstream'']\<rparr>\<rparr>"

text \<open>The order of registration.\<close>

definition collectors :: "metrics \<Rightarrow> collector list" where
  "collectors m = [RequestsTotal m, RequestDuration m, CacheOperations m, CacheSizeBytes m, CacheEntries m,
     WAFDecisions m, RateLimitTotal m, UpstreamErrors m, UpstreamDuration m]"

fun metric_updates :: "metrics \<Rightarrow> event \<Rightarrow> (collector \<times> string list) list" where
  "metric_updates m (RequestsTotalInc meth status route) = [(RequestsTotal m, [meth, show_int status, route])]"
| "metric_updates m (RequestDurationObserve meth route) = [(RequestDuration m, [meth, route])]"
| "metric_updates m (CacheOperationsInc operation) = [(CacheOperations m, [operation])]"
| "metric_updates m (CacheGauges bytes entries) = [(CacheSizeBytes m, []), (CacheEntries m, [])]"
| "metric_updates m (WafEvent (WafDecisionsInc rule action)) = [(WAFDecisions m, [rule, action])]"
| "metric_updates m (WafEvent (WafLog r d)) = []"
| "metric_updates m (RateLimitEvent (RateLimitTotalInc rule decision)) = [(RateLimitTotal m, [rule, decision])]"
| "metric_updates m (UpstreamErrorsInc upstream kind) = [(UpstreamErrors m, [upstream, kind])]"
| "metric_updates m (UpstreamDurationObserve upstream) = [(UpstreamDuration m, [upstream])]"
| "metric_updates m (AccessEvent _ _ _ _ _ _ _ _) = []"
| "metric_updates m (PanicEvent _) = []"

end
