(* ===== verification/Upstream.thy ===== *)
theory Upstream
  imports Config
begin

text \<open>\<open>proxy/internal/upstream/transport.go\<close>: the settings of the transport to the origin.\<close>

record http_transport =
  tr_DialTimeout :: duration
  tr_KeepAlive :: duration
  tr_ResponseHeaderTimeout :: duration
  tr_MaxIdleConns :: int
  tr_MaxIdleConnsPerHost :: int
  tr_IdleConnTimeout :: duration
  tr_TLSHandshakeTimeout :: duration
  tr_ExpectContinueTimeout :: duration
  tr_ForceAttemptHTTP2 :: bool

definition NewTransport :: "upstream_config \<Rightarrow> http_transport" where
  "NewTransport cfg =
     \<lparr>tr_DialTimeout = ConnectTimeout cfg, tr_KeepAlive = 30 * Second,
      tr_ResponseHeaderTimeout = ResponseHeaderTimeout cfg,
      tr_MaxIdleConns = MaxIdleConns cfg, tr_MaxIdleConnsPerHost = MaxIdleConnsPerHost cfg,
      tr_IdleConnTimeout = 90 * Second, tr_TLSHandshakeTimeout = 10 * Second,
      tr_ExpectContinueTimeout = 1 * Second, tr_ForceAttemptHTTP2 = False\<rparr>"

end
