(* ===== verification/App.thy ===== *)
theory App
  imports System Metrics Upstream
begin

text \<open>
  \<open>proxy/internal/app/app.go\<close> and \<open>cmd/edgeproxy/main.go\<close>: loading the four files, building
  and wiring the components, waiting for a signal or a failing server, shutting down. What
  the process gets from outside is the record \<open>environment\<close>; what happens while it serves is the
  argument \<open>run_event\<close>. Log lines are events, without time stamps and error texts; \<open>LogLines\<close> renders them.
\<close>

section \<open>Logging\<close>

datatype log_field = LStr string | LInt int | LBool bool | LErr load_error | LErrText string

record log_line =
  ll_level :: string
  ll_msg :: string
  ll_fields :: "(string \<times> log_field) list"

definition logJSON :: "string \<Rightarrow> string \<Rightarrow> (string \<times> log_field) list \<Rightarrow> log_line list \<Rightarrow> log_line list" where
  "logJSON level msg fs logs = logs @ [\<lparr>ll_level = level, ll_msg = msg, ll_fields = fs\<rparr>]"

section \<open>Start-up\<close>

record environment =
  en_Getenv :: "string \<Rightarrow> string"
  en_ReadFile :: "string \<Rightarrow> string option"
  en_yaml_config :: "string \<Rightarrow> config option"
  en_yaml_waf :: "string \<Rightarrow> waf_config option"
  en_yaml_cache_rules :: "string \<Rightarrow> cache_rule list option"
  en_yaml_rate_limit :: "string \<Rightarrow> rate_limit_config option"
  en_regexp :: regexp_compiler

datatype app_error =
    LoadConfigError load_error
  | InitWafError "string \<times> string"
  | InitHandlerError
  | PublicServerError string
  | AdminServerError string

record 'l app =
  ap_cfg :: config
  ap_wafEngine :: engine
  ap_transport :: http_transport
  ap_handler :: proxy_handler
  ap_state :: "'l proxy_state"

definition env_or :: "environment \<Rightarrow> string \<Rightarrow> string \<Rightarrow> string" where
  "env_or env var dflt = or_default '''' dflt (en_Getenv env var)"

definition main_config :: "environment \<Rightarrow> load_error + config" where
  "main_config env = Load (en_ReadFile env) (en_yaml_config env) (env_or env ''OPENFLARE_CONFIG'' ''configs/proxy.dev.yaml'')"

definition waf_file :: "environment \<Rightarrow> load_error + waf_config" where
  "waf_file env = LoadWAFConfig (en_ReadFile env) (en_yaml_waf env) (env_or env ''OPENFLARE_WAF_RULES'' ''configs/rules.waf.yaml'')"

definition cache_rules_file :: "environment \<Rightarrow> load_error + cache_rule list" where
  "cache_rules_file env =
     LoadCacheRulesConfig (en_ReadFile env) (en_yaml_cache_rules env) (env_or env ''OPENFLARE_CACHE_RULES'' ''configs/cache-rules.yaml'')"

definition rate_limit_file :: "environment \<Rightarrow> load_error + rate_limit_config" where
  "rate_limit_file env =
     LoadRateLimitConfig (en_ReadFile env) (en_yaml_rate_limit env) (env_or env ''OPENFLARE_RATE_LIMIT_RULES'' ''configs/rate-limit.yaml'')"

text \<open>A file that does not load is a warning and the fallback of the code: no configuration, or
  no cache rules.\<close>

definition or_warn :: "string \<Rightarrow> 'b \<Rightarrow> ('a \<Rightarrow> 'b) \<Rightarrow> load_error + 'a \<Rightarrow> log_line list \<Rightarrow> 'b \<times> log_line list" where
  "or_warn msg fallback f loaded logs =
     (case loaded of
        Inl err \<Rightarrow> (fallback, logJSON ''warn'' msg [(''error'', LErr err)] logs)
      | Inr x \<Rightarrow> (f x, logs))"

definition no_upstream :: upstream_config where
  "no_upstream = \<lparr>up_Name = '''', BaseURL = '''', ConnectTimeoutMS = 0, ResponseHeaderTimeoutMS = 0, MaxIdleConns = 0,
     MaxIdleConnsPerHost = 0\<rparr>"

definition default_upstream :: "config \<Rightarrow> upstream_config" where
  "default_upstream cfg =
     (case find (\<lambda>u. up_Name u = DefaultUpstream (Routing cfg)) (Upstreams cfg) of None \<Rightarrow> no_upstream | Some u \<Rightarrow> u)"

definition startup :: "environment \<Rightarrow> (app_error + 'l app) \<times> log_line list" where
  "startup env =
     (let logs = logJSON ''info'' ''loading configuration''
            [(''path'', LStr (env_or env ''OPENFLARE_CONFIG'' ''configs/proxy.dev.yaml''))] []
      in case main_config env of
           Inl err \<Rightarrow> (Inl (LoadConfigError err), logs)
         | Inr cfg \<Rightarrow>
             let (wafCfg, logs) = or_warn ''WAF config not loaded, WAF disabled'' None Some (waf_file env) logs;
                 (cacheRules, logs) = or_warn ''cache rules not loaded, using defaults'' [] (\<lambda>x. x) (cache_rules_file env) logs;
                 (rlCfg, logs) = or_warn ''rate limit config not loaded'' None Some (rate_limit_file env) logs;
                 cacheBackend = NewMemoryBackend (MaxEntries (CacheCfg cfg)) (MaxBytes (CacheCfg cfg));
                 cachePolicy = NewPolicy (en_regexp env) (CacheCfg cfg) cacheRules
             in (case NewEngine (en_regexp env) wafCfg True (MaxBodyInspectBytes (Security cfg)) of
                   Inl err \<Rightarrow> (Inl (InitWafError err), logs)
                 | Inr wafEngine \<Rightarrow>
                     let logs = logJSON ''info'' ''WAF initialized'' [(''mode'', LStr (Mode wafEngine))] logs;
                         rateLimiter = NewLimiter rlCfg True;
                         transport = NewTransport (default_upstream cfg)
                     in (case NewHandler cfg cachePolicy (Some wafEngine) of
                           None \<Rightarrow> (Inl InitHandlerError, logs)
                         | Some proxyHandler \<Rightarrow>
                             (Inr \<lparr>ap_cfg = cfg, ap_wafEngine = wafEngine, ap_transport = transport, ap_handler = proxyHandler,
                                   ap_state = \<lparr>ps_cache = cacheBackend, ps_limiter = Some rateLimiter, ps_events = []\<rparr>\<rparr>,
                              logs))))"

section \<open>Serving and shutdown\<close>

text \<open>The two servers of a started program.\<close>

definition public_server ::
  "'w ResponseWriter \<Rightarrow> (string list \<Rightarrow> bool) \<Rightarrow> ('w \<Rightarrow> request \<Rightarrow> 'w) \<Rightarrow> 'l world_lib \<Rightarrow> 'l app \<Rightarrow> ('w, 'l proxy_state) http_server" where
  "public_server W label_ok prom L app =
     NewPublicServer W label_ok prom (Server (ap_cfg app)) (ServeHTTP (status_Writer W) L (ap_handler app))"

definition admin_server ::
  "'w ResponseWriter \<Rightarrow> ('w \<Rightarrow> request \<Rightarrow> 'w) \<Rightarrow> 'l app \<Rightarrow> ('w, 'l proxy_state) http_server" where
  "admin_server W prom app =
     NewAdminServer W prom (Server (ap_cfg app)) (admin_handler W (AuthToken (AdminAPI (ap_cfg app))))"

text \<open>The lines the two listening goroutines log come in one of their possible orders.
  What ends the wait: a signal, or an error of one of the listening servers (the admin
  server only listens when the admin API is enabled).\<close>

datatype run_event = SignalReceived string | PublicServerFailed string | AdminServerFailed string

text \<open>The shutdown, given the errors the two \<open>Shutdown\<close> calls report.\<close>

definition shutdown :: "config \<Rightarrow> string option \<Rightarrow> string option \<Rightarrow> log_line list \<Rightarrow> log_line list" where
  "shutdown cfg public_err admin_err logs =
     (let logs = logJSON ''info'' ''graceful shutdown'' [(''timeout_ms'', LInt (GracefulShutdownTimeoutMS (Server cfg)))] logs;
          logs = (case public_err of None \<Rightarrow> logs
                  | Some e \<Rightarrow> logJSON ''error'' ''public server shutdown error'' [(''error'', LErrText e)] logs);
          logs = (if AdminEnabled (AdminAPI cfg)
                  then (case admin_err of None \<Rightarrow> logs
                        | Some e \<Rightarrow> logJSON ''error'' ''admin server shutdown error'' [(''error'', LErrText e)] logs)
                  else logs)
      in logJSON ''info'' ''shutdown complete'' [] logs)"

definition Run ::
  "'l itself \<Rightarrow> environment \<Rightarrow> run_event \<Rightarrow> string option \<Rightarrow> string option \<Rightarrow> app_error option \<times> log_line list" where
  "Run bucket env ev public_err admin_err =
     (case (startup env :: (app_error + 'l app) \<times> log_line list) of
        (Inl err, logs) \<Rightarrow> (Some err, logs)
      | (Inr app, logs) \<Rightarrow>
          let cfg = ap_cfg app;
              logs = logJSON ''info'' ''starting public server'' [(''addr'', LStr (ListenAddr (Server cfg)))] logs;
              logs = (if AdminEnabled (AdminAPI cfg)
                      then logJSON ''info'' ''starting admin server'' [(''addr'', LStr (AdminListenAddr (Server cfg)))] logs
                      else logs);
              logs = logJSON ''info'' ''OpenFlare Edge Proxy started''
                [(''public_addr'', LStr (ListenAddr (Server cfg))), (''admin_addr'', LStr (AdminListenAddr (Server cfg))),
                 (''cache'', LBool (CacheEnabled (CacheCfg cfg))), (''waf_mode'', LStr (Mode (ap_wafEngine app)))] logs
          in (case ev of
                SignalReceived sig \<Rightarrow>
                  (None, shutdown cfg public_err admin_err
                     (logJSON ''info'' ''shutdown signal received'' [(''signal'', LStr sig)] logs))
              | PublicServerFailed e \<Rightarrow> (Some (PublicServerError e), logs)
              | AdminServerFailed e \<Rightarrow> (Some (AdminServerError e), logs)))"

text \<open>\<open>main\<close>: the exit status of the process.\<close>

definition main_exit :: "app_error option \<Rightarrow> int" where
  "main_exit err = (case err of None \<Rightarrow> 0 | Some e \<Rightarrow> 1)"

section \<open>Lemmas on start-up\<close>

text \<open>What a started program consists of.\<close>

definition app_of ::
  "environment \<Rightarrow> config \<Rightarrow> waf_config option \<Rightarrow> cache_rule list \<Rightarrow> rate_limit_config option \<Rightarrow> (string \<times> string) + 'l app option" where
  "app_of env cfg wafCfg rules rl =
     (case NewEngine (en_regexp env) wafCfg True (MaxBodyInspectBytes (Security cfg)) of
        Inl err \<Rightarrow> Inl err
      | Inr e \<Rightarrow> Inr (map_option (\<lambda>h. \<lparr>ap_cfg = cfg, ap_wafEngine = e, ap_transport = NewTransport (default_upstream cfg),
             ap_handler = h, ap_state = initial_state cfg rl\<rparr>)
           (NewHandler cfg (NewPolicy (en_regexp env) (CacheCfg cfg) rules) (Some e))))"

definition loaded :: "load_error + 'a \<Rightarrow> 'a option" where
  "loaded x = (case x of Inl e \<Rightarrow> None | Inr y \<Rightarrow> Some y)"

definition rules_or_none :: "load_error + cache_rule list \<Rightarrow> cache_rule list" where
  "rules_or_none x = (case x of Inl e \<Rightarrow> [] | Inr y \<Rightarrow> y)"

lemma or_warn_fst:
  "fst (or_warn msg None Some x logs) = loaded x" "fst (or_warn msg [] (\<lambda>x. x) y logs) = rules_or_none y"
  by (simp_all add: or_warn_def loaded_def rules_or_none_def split: sum.split)

lemma startup_eq:
  "fst (startup env) =
     (case main_config env of
        Inl err \<Rightarrow> Inl (LoadConfigError err)
      | Inr cfg \<Rightarrow>
          (case app_of env cfg (loaded (waf_file env)) (rules_or_none (cache_rules_file env)) (loaded (rate_limit_file env)) of
             Inl err \<Rightarrow> Inl (InitWafError err)
           | Inr None \<Rightarrow> Inl InitHandlerError
           | Inr (Some app) \<Rightarrow> Inr app))"
proof (cases "main_config env")
  case (Inr cfg)
  let ?l0 = "logJSON ''info'' ''loading configuration'' [(''path'', LStr (env_or env ''OPENFLARE_CONFIG'' ''configs/proxy.dev.yaml''))] []"
  obtain w l1 where w: "or_warn ''WAF config not loaded, WAF disabled'' None Some (waf_file env) ?l0 = (w, l1)" by fastforce
  obtain c l2 where c: "or_warn ''cache rules not loaded, using defaults'' [] (\<lambda>x. x) (cache_rules_file env) l1 = (c, l2)" by fastforce
  obtain r l3 where r: "or_warn ''rate limit config not loaded'' None Some (rate_limit_file env) l2 = (r, l3)" by fastforce
  have "w = loaded (waf_file env)" "c = rules_or_none (cache_rules_file env)" "r = loaded (rate_limit_file env)"
    using or_warn_fst(1) [of _ "waf_file env" ?l0] or_warn_fst(2) [of _ "cache_rules_file env" l1]
      or_warn_fst(1) [of _ "rate_limit_file env" l2] w c r by (metis fst_conv)+
  then show ?thesis using Inr w c r
    by (simp add: startup_def app_of_def initial_state_def Let_def split: sum.split option.split)
qed (simp add: startup_def)

lemma startup_Inr:
  assumes "fst (startup env) = Inr app"
  shows "main_config env = Inr (ap_cfg app)"
    "app_of env (ap_cfg app) (loaded (waf_file env)) (rules_or_none (cache_rules_file env)) (loaded (rate_limit_file env)) = Inr (Some app)"
    "ap_state app = initial_state (ap_cfg app) (loaded (rate_limit_file env))"
    "ph_wafEngine (ap_handler app) = Some (ap_wafEngine app)"
    "NewEngine (en_regexp env) (loaded (waf_file env)) True (MaxBodyInspectBytes (Security (ap_cfg app))) = Inr (ap_wafEngine app)"
    "ph_cachePolicy (ap_handler app) = NewPolicy (en_regexp env) (CacheCfg (ap_cfg app)) (rules_or_none (cache_rules_file env))"
    "ph_cfg (ap_handler app) = ap_cfg app"
  using assms
  by (auto simp: startup_eq app_of_def NewHandler_def split: sum.splits option.splits)

lemma main_config_valid:
  assumes "main_config env = Inr cfg"
  shows "validate cfg = None" "applyDefaults cfg = cfg"
  using assms Load_Inr by (auto simp: main_config_def applyDefaults_idem validate_applyDefaults)

lemma main_config_nonzero: "main_config env = Inr cfg \<Longrightarrow> MaxEntries (CacheCfg cfg) \<noteq> 0"
  by (auto simp: main_config_def Load_Inr applyDefaults_def default_cache_def or_default_def split: if_splits)

lemma validated_default_upstream:
  assumes "validate cfg = None"
  shows "find (\<lambda>u. up_Name u = DefaultUpstream (Routing cfg)) (Upstreams cfg) = Some (default_upstream cfg)"
proof -
  have "DefaultUpstream (Routing cfg) \<in> up_Name ` set (Upstreams cfg)"
    using assms by (simp add: validate_None_iff)
  then show ?thesis
    by (cases "find (\<lambda>u. up_Name u = DefaultUpstream (Routing cfg)) (Upstreams cfg)")
      (auto simp: default_upstream_def find_None_iff)
qed

section \<open>A sample environment\<close>

definition sample_env :: "int \<Rightarrow> environment" where
  "sample_env maxE =
     \<lparr>en_Getenv = (\<lambda>_. ''''), en_ReadFile = (\<lambda>path. if path = ''configs/proxy.dev.yaml'' then Some '''' else None),
      en_yaml_config = (\<lambda>_. Some (sample_config\<lparr>CacheCfg := (CacheCfg sample_config)\<lparr>MaxEntries := maxE\<rparr>\<rparr>)),
      en_yaml_waf = (\<lambda>_. None), en_yaml_cache_rules = (\<lambda>_. None), en_yaml_rate_limit = (\<lambda>_. None),
      en_regexp = sample_compile\<rparr>"

lemma sample_main_config:
  "maxE \<noteq> 0 \<Longrightarrow> main_config (sample_env maxE) =
     Inr ((applyDefaults sample_config)\<lparr>CacheCfg := (CacheCfg (applyDefaults sample_config))\<lparr>MaxEntries := maxE\<rparr>\<rparr>)"
proof -
  assume "maxE \<noteq> 0"
  let ?raw = "sample_config\<lparr>CacheCfg := (CacheCfg sample_config)\<lparr>MaxEntries := maxE\<rparr>\<rparr>"
  have "validate ?raw = None" by (simp add: validate_None_iff sample_config_def)
  moreover have "applyDefaults ?raw = (applyDefaults sample_config)\<lparr>CacheCfg := (CacheCfg (applyDefaults sample_config))\<lparr>MaxEntries := maxE\<rparr>\<rparr>"
    using \<open>maxE \<noteq> 0\<close> by (simp add: sample_config_def applyDefaults_def default_cache_def or_default_def)
  ultimately show ?thesis unfolding main_config_def Load_Inr
    by (intro exI [of _ "''''"] exI [of _ ?raw]) (simp add: sample_env_def env_or_def or_default_def)
qed

lemma sample_files:
  "waf_file (sample_env maxE) = Inl (ReadError ''configs/rules.waf.yaml'')"
  "cache_rules_file (sample_env maxE) = Inl (ReadError ''configs/cache-rules.yaml'')"
  "rate_limit_file (sample_env maxE) = Inl (ReadError ''configs/rate-limit.yaml'')"
  by (simp_all add: waf_file_def cache_rules_file_def rate_limit_file_def LoadWAFConfig_def LoadCacheRulesConfig_def
      LoadRateLimitConfig_def load_file_def sample_env_def env_or_def or_default_def)

lemma sample_url_Parse: "url_Parse ''http://origin:8000'' = Some (ph_targetURL sample_handler)"
proof -
  have "EscapedPath (ph_targetURL sample_handler) = ''''"
    by (simp add: EscapedPath_def sample_handler_def escape_def)
  moreover have "escape_host ''origin:8000'' = ''origin:8000''"
    using sample_target by (intro escape_host_plain) (simp add: plain_target_def sample_handler_def)
  ultimately have "url_String (ph_targetURL sample_handler) = ''http://origin:8000''" "printed_path (ph_targetURL sample_handler) = ''''"
    by (simp_all add: url_String_def printed_path_def) (simp add: sample_handler_def Let_def)
  with url_Parse_String [of "ph_targetURL sample_handler" "''''" "''''" False] sample_target show ?thesis
    by (simp add: plain_target_def has_ctl_def setPath_def escape_def) (simp add: sample_handler_def no_url_def)
qed

lemma sample_startup:
  assumes "maxE \<noteq> 0"
  shows "\<exists>app :: 'l app. fst (startup (sample_env maxE)) = Inr app \<and> MaxEntries (CacheCfg (ap_cfg app)) = maxE
    \<and> 0 \<le> MaxBytes (CacheCfg (ap_cfg app)) \<and> ph_cfg (ap_handler app) = ap_cfg app \<and> ap_cfg app = sample_cfg\<lparr>CacheCfg := (CacheCfg sample_cfg)\<lparr>MaxEntries := maxE\<rparr>\<rparr>
    \<and> ph_cachePolicy (ap_handler app) = NewPolicy sample_compile (CacheCfg (ap_cfg app)) []
    \<and> ph_targetURL (ap_handler app) = ph_targetURL sample_handler"
proof -
  let ?cfg = "(applyDefaults sample_config)\<lparr>CacheCfg := (CacheCfg (applyDefaults sample_config))\<lparr>MaxEntries := maxE\<rparr>\<rparr>"
  have cfg: "?cfg = sample_cfg\<lparr>CacheCfg := (CacheCfg sample_cfg)\<lparr>MaxEntries := maxE\<rparr>\<rparr>"
    by (simp add: sample_cfg_def Let_def)
  have "find (\<lambda>u. up_Name u = DefaultUpstream (Routing ?cfg)) (Upstreams ?cfg) \<noteq> None"
    using validated_default_upstream [OF main_config_valid(1) [OF sample_main_config [OF assms]]] by simp
  then obtain u where u: "find (\<lambda>u. up_Name u = DefaultUpstream (Routing ?cfg)) (Upstreams ?cfg) = Some u" by blast
  have "0 \<le> MaxBytes (CacheCfg ?cfg)"
    by (simp add: applyDefaults_def sample_config_def default_cache_def or_default_def)
  moreover have "BaseURL u = ''http://origin:8000''"
    using u by (auto simp: applyDefaults_def sample_config_def split: if_splits)
  ultimately show ?thesis using u
    by (simp add: startup_eq sample_main_config [OF assms] sample_files loaded_def rules_or_none_def app_of_def NewEngine_def
        NewHandler_def cfg sample_url_Parse) (simp add: sample_env_def)
qed

section \<open>Properties\<close>

text \<open>C18: the program starts exactly when its main configuration loads, every pattern and network
  of the enabled WAF rules compiles if the WAF file loads at all, and the base URL of the default
  upstream parses. The other three files may be missing or malformed.\<close>

theorem startup_starts_iff:
  "(\<exists>app. fst (startup env) = Inr (app :: 'l app)) \<longleftrightarrow>
     (\<exists>cfg. main_config env = Inr cfg
        \<and> (case waf_file env of
             Inl err \<Rightarrow> True
           | Inr w \<Rightarrow> list_all (rule_compiles (en_regexp env)) (filter wr_Enabled (waf_Rules w)))
        \<and> url_Parse (BaseURL (default_upstream cfg)) \<noteq> None)"
proof (cases "main_config env")
  case (Inr cfg)
  note up = validated_default_upstream [OF main_config_valid(1) [OF Inr]]
  have engine: "(\<exists>e. NewEngine (en_regexp env) (loaded (waf_file env)) True mx = Inr e) \<longleftrightarrow>
     (case waf_file env of Inl err \<Rightarrow> True
       | Inr w \<Rightarrow> list_all (rule_compiles (en_regexp env)) (filter wr_Enabled (waf_Rules w)))" for mx
  proof (cases "waf_file env")
    case (Inr w)
    then show ?thesis using compile_rules_result [of "en_regexp env" "waf_Rules w"]
      by (cases "compile_rules (en_regexp env) (waf_Rules w)") (simp_all add: NewEngine_def loaded_def bind_err_def)
  qed (simp add: NewEngine_def loaded_def)
  show ?thesis
  proof (cases "NewEngine (en_regexp env) (loaded (waf_file env)) True (MaxBodyInspectBytes (Security cfg))")
    case (Inl err)
    then show ?thesis using engine [of "MaxBodyInspectBytes (Security cfg)"] Inr by (simp add: startup_eq app_of_def)
  next
    case e: (Inr e)
    then show ?thesis using engine [of "MaxBodyInspectBytes (Security cfg)"] Inr up
      by (cases "url_Parse (BaseURL (default_upstream cfg))") (auto simp: startup_eq app_of_def NewHandler_def)
  qed
qed (simp add: startup_eq)

text \<open>C19: the rule files fail open. Without a WAF file every request goes past the firewall
  untouched; without a rate limit file every request is let through; without cache rules every
  GET and HEAD without credentials is cacheable.\<close>

theorem missing_files_fail_open:
  assumes "fst (startup env) = Inr app" "waf_file env = Inl e1" "rate_limit_file env = Inl e2" "cache_rules_file env = Inl e3"
  shows "waf_step W L (ap_handler app) body w r s = rate_limit_step W L (ap_handler app) w r (emits [] s)
    \<and> (\<exists>l. ps_limiter (ap_state app) = Some l \<and> Allow lib now r l = ((True, '''', None), [], l))
    \<and> (IsRequestCacheable (ph_cachePolicy (ap_handler app)) r = (True, '''')
       \<longleftrightarrow> r_Method r \<in> {''GET'', ''HEAD''}
         \<and> \<not> (BypassOnAuthorization (CacheCfg (ap_cfg app)) \<and> header_Get (r_Header r) ''Authorization'' \<noteq> '''')
         \<and> \<not> (BypassOnCookie (CacheCfg (ap_cfg app)) \<and> header_Get (r_Header r) ''Cookie'' \<noteq> ''''))"
proof -
  note a = startup_Inr [OF assms(1)]
  have e: "wf_rules (ap_wafEngine app) = []" using a(5) assms(2) by (simp add: NewEngine_def loaded_def) (metis engine.select_convs(2))
  then have "Evaluate (ap_wafEngine app) r body = Some (no_decision, [])" by (simp add: Evaluate_def)
  then have 1: "waf_step W L (ap_handler app) body w r s = rate_limit_step W L (ap_handler app) w r (emits [] s)"
    using a(4) by (simp add: waf_step_def no_decision_def)
  have 2: "Allow lib now r (NewLimiter None True) = ((True, '''', None), [], NewLimiter None True)"
    by (simp add: Allow_def NewLimiter_def isExempt_def Let_def split: option.split)
  have 3: "pol_compiled (ph_cachePolicy (ap_handler app)) = []" "pol_cfg (ph_cachePolicy (ap_handler app)) = CacheCfg (ap_cfg app)"
    using a(6) assms(4) by (simp_all add: NewPolicy_def rules_or_none_def)
  show ?thesis using 1 2 a(3) assms(3)
    by (auto simp: initial_state_def loaded_def IsRequestCacheable_def 3)
qed

theorem missing_files_fail_open_witness:
  "\<exists>app :: int app. fst (startup (sample_env 10)) = Inr app
    \<and> waf_step server_Writer (sample_world 0 '''') (ap_handler app) '''' (new_response False) (sample_request ''/'' ''q=union+select'') (ap_state app)
      = rate_limit_step server_Writer (sample_world 0 '''') (ap_handler app) (new_response False) (sample_request ''/'' ''q=union+select'')
          (emits [] (ap_state app))"
proof -
  obtain app :: "int app" where app: "fst (startup (sample_env 10)) = Inr app" using sample_startup [of 10] by auto
  show ?thesis
    by (intro exI [of _ app] conjI app missing_files_fail_open [OF app sample_files(1,3,2), THEN conjunct1])
qed

text \<open>C8: once started with limits that are not negative, the program answers every request to
  its public server, in any state it can reach and whatever the origin does: it leaves a state
  from which the next one is answered too. The one exception is a path the metrics library
  refuses, for which the connection is dropped.\<close>

theorem every_request_answered:
  assumes "fst (startup env) = Inr app" "0 \<le> MaxEntries (CacheCfg (ap_cfg app))" "0 \<le> MaxBytes (CacheCfg (ap_cfg app))"
    and "(proxy_step (ap_handler app))\<^sup>*\<^sup>* (ap_state app) s"
  shows "\<exists>w' r' s'. (proxy_step (ap_handler app))\<^sup>*\<^sup>* (ap_state app) s'
    \<and> (let out = hs_Handler (public_server server_Writer label_ok prom L app) ident w r s
       in out = Returned w' r' s'
        \<or> (out = Panicked w' r' s'
           \<and> (\<exists>st. \<not> (label_ok [r_Method r', show_int st, u_Path (r_URL r')] \<and> label_ok [r_Method r', u_Path (r_URL r')]))))"
proof -
  note a = startup_Inr [OF assms(1)]
  have "MaxEntries (CacheCfg (ap_cfg app)) \<noteq> 0"
    using main_config_nonzero [OF a(1)] .
  then have "1 \<le> MaxEntries (CacheCfg (ap_cfg app))" using assms(2) by simp
  from request_answered [OF assms(4) [unfolded a(3)] this assms(3)] show ?thesis
    unfolding a(3) public_server_def .
qed

theorem every_request_answered_witness:
  "\<exists>(app :: int app) w' r' s'. fst (startup (sample_env 10)) = Inr app
    \<and> hs_Handler (public_server server_Writer (\<lambda>_. True) (\<lambda>w r. w) (sample_world 0 ''hello'') app) ''id-1'' (new_response False)
        (sample_request ''/page'' '''') (ap_state app) = Returned w' r' s'"
proof -
  obtain app :: "int app" where app: "fst (startup (sample_env 10)) = Inr app"
      "MaxEntries (CacheCfg (ap_cfg app)) = 10" "0 \<le> MaxBytes (CacheCfg (ap_cfg app))"
    using sample_startup [where maxE = 10 and 'l = int, OF zero_neq_numeral [symmetric]] by blast
  have "0 \<le> MaxEntries (CacheCfg (ap_cfg app))" using app(2) by simp
  from every_request_answered [OF app(1) this app(3) rtranclp.rtrancl_refl, of "\<lambda>_. True" "\<lambda>w r. w" "sample_world 0 ''hello''" "''id-1''"
      "new_response False" "sample_request ''/page'' ''''"] app(1)
  show ?thesis by (simp add: Let_def) blast
qed

text \<open>C20: a negative max_entries passes validation and start-up, and then the first response that
  may be stored hangs its request for ever, with the cache locked.\<close>

theorem negative_limit_hangs:
  assumes "fst (startup env) = Inr app" "MaxEntries (CacheCfg (ap_cfg app)) < 0"
    and "uses_cache (ap_handler app) r" "wl_inflight L (request_key r) = None"
    and "fst (fetchFromOrigin L (ap_handler app) r (ap_state app)) = Some e"
    and "fst (IsResponseStorable (ph_cachePolicy (ap_handler app)) (e_StatusCode e) (e_Headers e))"
  shows "handleWithCache W L (ap_handler app) w r (ap_state app) = Hangs"
proof (rule miss_hangs [OF _ _ _ assms(3-6)])
  show "mb_inv (ps_cache (ap_state app))" "maxEntries (ps_cache (ap_state app)) \<le> 0"
    "lookup (ps_cache (ap_state app)) (request_key r) = None"
    using assms(2) unfolding startup_Inr(3) [OF assms(1)]
    by (simp_all add: initial_state_def mb_inv_new) (simp_all add: NewMemoryBackend_def lookup_def mb_abs_def)
qed

theorem negative_limit_hangs_witness:
  "\<exists>app :: int app. fst (startup (sample_env (- 1))) = Inr app
    \<and> handleWithCache server_Writer (sample_world 0 ''hello'') (ap_handler app) (new_response False)
        (sample_request ''/page'' '''') (ap_state app) = Hangs"
proof -
  let ?r = "sample_request ''/page'' ''''" and ?L = "sample_world 0 ''hello''"
  obtain app :: "int app" where app: "fst (startup (sample_env (- 1))) = Inr app" "MaxEntries (CacheCfg (ap_cfg app)) = - 1"
      "ph_cfg (ap_handler app) = ap_cfg app" "ap_cfg app = sample_cfg\<lparr>CacheCfg := (CacheCfg sample_cfg)\<lparr>MaxEntries := - 1\<rparr>\<rparr>"
      "ph_cachePolicy (ap_handler app) = NewPolicy sample_compile (CacheCfg (ap_cfg app)) []"
      "ph_targetURL (ap_handler app) = ph_targetURL sample_handler"
    using sample_startup [where maxE = "- 1" and 'l = int, OF zero_neq_neg_one [symmetric]] by blast
  have "r_Method ?r = ''GET''" by (simp add: sample_request_def)
  then have u: "uses_cache (ap_handler app) ?r"
    by (auto simp: uses_cache_def IsRequestCacheable_def header_Get_def app(5) NewPolicy_def)
  have "MaxRequestBodyBytes (Security (ap_cfg app)) = 10485760"
    using sample_max by (simp add: app(4) sample_handler_def)
  then obtain e where e: "fst (fetchFromOrigin ?L (ap_handler app) ?r (ap_state app)) = Some e" "e_StatusCode e = 200" "e_Headers e = []"
    using sample_origin_request [OF app(6), of ?r]
    by (auto simp: fetchFromOrigin_def sample_world_def Let_def read_limited_def app(3))
  have "wl_inflight ?L (request_key ?r) = None" by (simp add: sample_world_def)
  from negative_limit_hangs [OF app(1) _ u this e(1)] e(2,3) sample_storable app(1,2) show ?thesis by auto
qed

end
