(* ===== verification/RateBound.thy ===== *)
theory RateBound
  imports RateLimit
begin

text \<open>
  How many requests the limiter of \<open>ratelimit/limiter.go\<close> lets through: over any history of
  requests and cleanup ticks, what is admitted under one key is bounded by what token buckets of
  that rule grant. The bucket comes from \<open>golang.org/x/time/rate\<close>; \<open>token_bucket\<close> is the
  behaviour its documentation promises (at most the burst and then the rate), and
  \<open>exact_lib\<close> is a bucket that has it. The cleanup forgets a bucket idle for five minutes,
  tokens missing or not, so each five minutes can add a burst.
\<close>

section \<open>Token buckets\<close>

fun bucket_calls :: "'l rate_lib \<Rightarrow> instant list \<Rightarrow> 'l \<Rightarrow> bool list \<times> 'l" where
  "bucket_calls lib [] b = ([], b)"
| "bucket_calls lib (t # ts) b =
     (let (ok, b) = lim_Allow lib t b;
          (oks, b) = bucket_calls lib ts b
      in (ok # oks, b))"

definition granted :: "bool list \<Rightarrow> int" where
  "granted oks = int (length (filter (\<lambda>ok. ok) oks))"

definition token_bucket :: "'l rate_lib \<Rightarrow> bool" where
  "token_bucket lib \<longleftrightarrow>
     (\<forall>rate burst ts. 0 \<le> rate \<longrightarrow> 0 \<le> burst \<longrightarrow> sorted ts \<longrightarrow> ts \<noteq> [] \<longrightarrow>
        granted (fst (bucket_calls lib ts (NewRateLimiter lib rate burst))) * Second
          \<le> burst * Second + rate * (last ts - hd ts))"

lemma bucket_calls_append:
  "bucket_calls lib (ts @ us) b =
     (let (oks, b) = bucket_calls lib ts b; (oks', b) = bucket_calls lib us b in (oks @ oks', b))"
  by (induction ts arbitrary: b) (auto split: prod.splits)

lemma length_bucket_calls [simp]: "length (fst (bucket_calls lib ts b)) = length ts"
proof (induction ts arbitrary: b)
  case (Cons t ts)
  then show ?case by (simp add: split_beta)
qed simp

lemma granted_simps [simp]:
  "granted [] = 0" "granted (ok # oks) = (if ok then 1 else 0) + granted oks"
  "granted (oks @ oks') = granted oks + granted oks'"
  by (simp_all add: granted_def)

lemma granted_nonneg: "0 \<le> granted oks"
  by (simp add: granted_def)

text \<open>A bucket with exact arithmetic: its level counts tokens in units of a token per
  nanosecond of a second.\<close>

type_synonym exact_bucket = "int \<times> int \<times> int \<times> instant option"

fun exact_Allow :: "instant \<Rightarrow> exact_bucket \<Rightarrow> bool \<times> exact_bucket" where
  "exact_Allow t (rate, burst, level, seen) =
     (let level = min (burst * Second) (level + rate * (case seen of None \<Rightarrow> 0 | Some u \<Rightarrow> t - u))
      in if Second \<le> level then (True, (rate, burst, level - Second, Some t))
         else (False, (rate, burst, level, Some t)))"

definition exact_lib :: "exact_bucket rate_lib" where
  "exact_lib = \<lparr>NewRateLimiter = (\<lambda>rate burst. (rate, burst, burst * Second, None)), lim_Allow = exact_Allow\<rparr>"

lemma Second_pos: "0 < Second"
  by (simp add: Second_def Millisecond_def)

lemma exact_calls:
  assumes "0 \<le> rate" "0 \<le> burst" "sorted (u # ts)" "0 \<le> level"
  shows "granted (fst (bucket_calls exact_lib ts (rate, burst, level, Some u))) * Second
    \<le> level + rate * (last (u # ts) - u)"
  using assms(3,4)
proof (induction ts arbitrary: u level)
  case (Cons t ts)
  define level' where "level' = min (burst * Second) (level + rate * (t - u))"
  have ut: "u \<le> t" "sorted (t # ts)" using Cons.prems(1) by auto
  have "0 \<le> level'" using assms(1,2) ut(1) Cons.prems(2) Second_pos by (simp add: level'_def)
  have le: "level' + rate * (last (t # ts) - t) \<le> level + rate * (last (u # t # ts) - u)"
    by (simp add: level'_def min_def algebra_simps)
  have step: "lim_Allow exact_lib t (rate, burst, level, Some u) =
      (if Second \<le> level' then (True, rate, burst, level' - Second, Some t) else (False, rate, burst, level', Some t))"
    by (simp add: exact_lib_def level'_def Let_def)
  show ?case
  proof (cases "Second \<le> level'")
    case True
    then show ?thesis using Cons.IH [OF ut(2), of "level' - Second"] le
      by (simp add: step split_beta algebra_simps)
  next
    case False
    then show ?thesis using Cons.IH [OF ut(2) \<open>0 \<le> level'\<close>] le
      by (simp add: step split_beta)
  qed
qed simp

lemma token_bucket_exact: "token_bucket exact_lib"
  unfolding token_bucket_def
proof (intro allI impI)
  fix rate burst :: int and ts :: "instant list"
  assume a: "0 \<le> rate" "0 \<le> burst" "sorted ts" "ts \<noteq> []"
  then obtain t us where ts: "ts = t # us" by (cases ts) auto
  have "bucket_calls exact_lib ts (NewRateLimiter exact_lib rate burst) =
      bucket_calls exact_lib ts (rate, burst, burst * Second, Some t)"
    by (simp add: ts exact_lib_def)
  then show "granted (fst (bucket_calls exact_lib ts (NewRateLimiter exact_lib rate burst))) * Second
      \<le> burst * Second + rate * (last ts - hd ts)"
    using exact_calls [of rate burst t ts "burst * Second"] a Second_pos by (simp add: ts)
qed

section \<open>A request and the bucket of one key\<close>

definition seen_of :: "'l limiter \<Rightarrow> string \<Rightarrow> instant option" where
  "seen_of l k = map_option le_lastSeen (map_of (lm_limiters l) k)"

lemma seen_iff_bucket: "seen_of l k = None \<longleftrightarrow> bucket_of l k = None"
  by (simp add: seen_of_def bucket_of_def)

lemma getLimiter_seen:
  "getLimiter lib now key rule l = (addr, l') \<Longrightarrow> seen_of l' k = (if k = key then Some now else seen_of l k)"
  by (auto simp: getLimiter_def seen_of_def Let_def split: option.splits)

lemma call_Allow_seen: "call_Allow lib now addr l = (ok, l') \<Longrightarrow> seen_of l' k = seen_of l k"
  by (auto simp: call_Allow_def seen_of_def split: prod.splits)

text \<open>The bucket a key stands for before a call of a rule with the given numbers.\<close>

definition bucket_or_new :: "'l rate_lib \<Rightarrow> int \<Rightarrow> int \<Rightarrow> 'l limiter \<Rightarrow> string \<Rightarrow> 'l" where
  "bucket_or_new lib rate burst l k = (case bucket_of l k of Some b \<Rightarrow> b | None \<Rightarrow> NewRateLimiter lib rate burst)"

text \<open>What a request at a time does to a key: some calls of its bucket.\<close>

definition key_calls ::
  "'l rate_lib \<Rightarrow> int \<Rightarrow> int \<Rightarrow> instant \<Rightarrow> string \<Rightarrow> 'l limiter \<Rightarrow> 'l limiter \<Rightarrow> bool list \<Rightarrow> bool" where
  "key_calls lib rate burst now k l l' oks \<longleftrightarrow>
     bucket_calls lib (replicate (length oks) now) (bucket_or_new lib rate burst l k) = (oks, bucket_or_new lib rate burst l' k)
     \<and> seen_of l' k = (if oks = [] then seen_of l k else Some now)"

lemma key_calls_Cons:
  assumes "key_calls lib rate burst now k l l1 [ok]" "key_calls lib rate burst now k l1 l2 oks"
  shows "key_calls lib rate burst now k l l2 (ok # oks)"
proof -
  have "lim_Allow lib now (bucket_or_new lib rate burst l k) = (ok, bucket_or_new lib rate burst l1 k)"
    using assms(1) by (auto simp: key_calls_def split: prod.splits)
  then show ?thesis using assms by (auto simp: key_calls_def)
qed

text \<open>One rule.\<close>

lemma rule_calls:
  assumes "lm_inv l" "getLimiter lib now key rule l = (addr, l1)" "call_Allow lib now addr l1 = (ok, l2)"
    and "key = k \<Longrightarrow> rl_Rate rule = rate \<and> rl_Burst rule = burst"
  shows "lm_inv l2 \<and> key_calls lib rate burst now k l l2 (if key = k then [ok] else [])"
proof -
  note gf = getLimiter_facts [OF assms(1,2)]
  obtain e where e: "map_of (lm_limiters l1) key = Some e" "le_limiter e = addr" using gf(2) by blast
  note cf = call_Allow_facts [OF gf(1) e(1) assms(3) [folded e(2)]]
  have seen: "seen_of l2 k = (if k = key then Some now else seen_of l k)"
    using getLimiter_seen [OF assms(2)] call_Allow_seen [OF assms(3)] by simp
  show ?thesis
  proof (cases "key = k")
    case True
    then have "bucket_of l1 key = Some (bucket_or_new lib rate burst l key)"
      using gf(4) assms(4) by (simp add: bucket_or_new_def split: option.splits)
    then have "lim_Allow lib now (bucket_or_new lib rate burst l k) = (ok, bucket_or_new lib rate burst l2 k)"
      using cf(2,3) True by (simp add: bucket_or_new_def)
    then show ?thesis using True cf(1) seen by (simp add: key_calls_def)
  next
    case False
    then show ?thesis using cf(1) cf(4) [of k] gf(5) [of k] seen by (simp add: key_calls_def bucket_or_new_def)
  qed
qed

text \<open>The rules in order: an admitted request that has a rule for the key was granted there.\<close>

lemma allow_rules_calls:
  assumes "lm_inv l" "allow_rules lib now rules r ip l = ((ok, ident, q), evs, l')"
    and "\<And>rule. rule \<in> set rules \<Longrightarrow> rule_in_scope rule r \<Longrightarrow> buildKey rule r ip = k \<Longrightarrow>
      rl_Rate rule = rate \<and> rl_Burst rule = burst"
  shows "\<exists>oks. lm_inv l' \<and> key_calls lib rate burst now k l l' oks
    \<and> (ok \<longrightarrow> (\<exists>rule \<in> set rules. rule_in_scope rule r \<and> buildKey rule r ip = k) \<longrightarrow> 1 \<le> granted oks)"
  using assms
proof (induction rules arbitrary: l ok ident q evs l')
  case Nil
  then show ?case by (intro exI [of _ "[]"]) (simp add: key_calls_def)
next
  case (Cons rule rules)
  show ?case
  proof (cases "rule_in_scope rule r")
    case True
    let ?key = "buildKey rule r ip"
    obtain addr l1 where g: "getLimiter lib now ?key rule l = (addr, l1)" by fastforce
    obtain ok1 l2 where c: "call_Allow lib now addr l1 = (ok1, l2)" by fastforce
    have "lm_inv l2 \<and> key_calls lib rate burst now k l l2 (if ?key = k then [ok1] else [])"
      by (rule rule_calls [OF Cons.prems(1) g c]) (use Cons.prems(3) True in simp)
    then have one: "lm_inv l2" "key_calls lib rate burst now k l l2 (if ?key = k then [ok1] else [])" by blast+
    show ?thesis
    proof (cases ok1)
      case False
      then have "\<not> ok" "l' = l2" using Cons.prems(2) True g c by auto
      then show ?thesis using one by blast
    next
      case ok1: True
      obtain res evs' where rest: "allow_rules lib now rules r ip l2 = ((ok, ident, q), evs', l')"
        using Cons.prems(2) True g c ok1 by (auto split: prod.splits)
      from Cons.IH [OF one(1) this] Cons.prems(3) obtain oks where
        oks: "lm_inv l'" "key_calls lib rate burst now k l2 l' oks"
        "ok \<longrightarrow> (\<exists>rule \<in> set rules. rule_in_scope rule r \<and> buildKey rule r ip = k) \<longrightarrow> 1 \<le> granted oks" by auto
      show ?thesis
      proof (cases "?key = k")
        case True
        then have "key_calls lib rate burst now k l l' (ok1 # oks)" using key_calls_Cons one(2) oks(2) by simp
        then show ?thesis using oks(1) ok1 granted_nonneg [of oks] by (intro exI [of _ "ok1 # oks"]) simp
      next
        case False
        then have "key_calls lib rate burst now k l l' oks" using one(2) oks(2) by (auto simp: key_calls_def)
        then show ?thesis using oks False by auto
      qed
    qed
  next
    case False
    then show ?thesis using Cons by auto
  qed
qed

section \<open>Histories\<close>

datatype limiter_op = LimitRequest instant request | CleanupTick instant

fun op_time :: "limiter_op \<Rightarrow> instant" where
  "op_time (LimitRequest now r) = now"
| "op_time (CleanupTick now) = now"

text \<open>A request that a rule with the given key limits.\<close>

definition limited_by :: "'l limiter \<Rightarrow> string \<Rightarrow> request \<Rightarrow> bool" where
  "limited_by l k r \<longleftrightarrow>
     (let ip = extractClientIP (r_RemoteAddr r)
      in \<not> isExempt (lm_exemptions l) ip (u_Path (r_URL r))
         \<and> list_ex (\<lambda>rule. rule_in_scope rule r \<and> buildKey rule r ip = k) (lm_rules l))"

text \<open>How many such requests a history admits.\<close>

fun admitted :: "'l rate_lib \<Rightarrow> string \<Rightarrow> limiter_op list \<Rightarrow> 'l limiter \<Rightarrow> int" where
  "admitted lib k [] l = 0"
| "admitted lib k (LimitRequest now r # ops) l =
     (case Allow lib now r l of
        ((ok, _), _, l') \<Rightarrow> (if ok \<and> limited_by l k r then 1 else 0) + admitted lib k ops l')"
| "admitted lib k (CleanupTick now # ops) l = admitted lib k ops (cleanup_tick now l)"

section \<open>The account of one key\<close>

text \<open>The life of a key falls into epochs, each with a bucket of its own: \<open>e\<close> of them are over and
  lasted \<open>S\<close> together, with an idle interval after each; the current one has seen the calls \<open>ts\<close>.\<close>

definition closed_epochs :: "int \<Rightarrow> int \<Rightarrow> int \<Rightarrow> int \<Rightarrow> int \<Rightarrow> int \<Rightarrow> int \<Rightarrow> bool" where
  "closed_epochs rate burst interval n e S since \<longleftrightarrow>
     0 \<le> e \<and> 0 \<le> S \<and> n * Second \<le> e * burst * Second + rate * S \<and> S + e * interval \<le> since"

definition account ::
  "'l rate_lib \<Rightarrow> int \<Rightarrow> int \<Rightarrow> int \<Rightarrow> string \<Rightarrow> instant \<Rightarrow> instant \<Rightarrow> 'l limiter \<Rightarrow> int \<Rightarrow> bool" where
  "account lib rate burst interval k t0 now l n \<longleftrightarrow>
     (case seen_of l k of
        None \<Rightarrow> \<exists>e S. closed_epochs rate burst interval n e S (now - t0)
      | Some seen \<Rightarrow>
          \<exists>e S ts m oks. closed_epochs rate burst interval m e S (hd ts - t0)
            \<and> ts \<noteq> [] \<and> sorted ts \<and> last ts = seen \<and> seen \<le> now
            \<and> bucket_calls lib ts (NewRateLimiter lib rate burst) = (oks, bucket_or_new lib rate burst l k)
            \<and> n \<le> m + granted oks)"

lemma account_later:
  assumes "account lib rate burst interval k t0 now l n" "now \<le> now'"
  shows "account lib rate burst interval k t0 now' l n"
  using assms by (fastforce simp: account_def closed_epochs_def split: option.splits)

lemma account_less:
  assumes "account lib rate burst interval k t0 now l n" "m \<le> n"
  shows "account lib rate burst interval k t0 now l m"
proof -
  have "m * Second \<le> n * Second" using assms(2) Second_pos by simp
  then have closed: "closed_epochs rate burst interval n e S d \<Longrightarrow> closed_epochs rate burst interval m e S d" for e S d
    by (simp add: closed_epochs_def)
  show ?thesis
  proof (cases "seen_of l k")
    case None
    then show ?thesis using assms(1) closed by (simp add: account_def) blast
  next
    case (Some seen)
    then obtain e S ts m' oks where
      acc: "closed_epochs rate burst interval m' e S (hd ts - t0)" "ts \<noteq> []" "sorted ts" "last ts = seen" "seen \<le> now"
        "bucket_calls lib ts (NewRateLimiter lib rate burst) = (oks, bucket_or_new lib rate burst l k)" "n \<le> m' + granted oks"
      using assms(1) by (auto simp: account_def)
    have "m \<le> m' + granted oks" using acc(7) assms(2) by linarith
    then show ?thesis using acc(1-6) Some unfolding account_def by (simp only: option.case) blast
  qed
qed

lemma account_request:
  assumes "account lib rate burst interval k t0 now l n" "key_calls lib rate burst now k l l' oks"
  shows "account lib rate burst interval k t0 now l' (n + granted oks)"
proof (cases "oks = []")
  case True
  then have "seen_of l' k = seen_of l k" "bucket_or_new lib rate burst l' k = bucket_or_new lib rate burst l k"
    using assms(2) by (auto simp: key_calls_def)
  then show ?thesis using assms(1) True by (auto simp: account_def split: option.splits)
next
  case False
  let ?us = "replicate (length oks) now"
  have us: "?us \<noteq> []" "sorted ?us" "last ?us = now" "hd ?us = now" using False by auto
  have calls: "bucket_calls lib ?us (bucket_or_new lib rate burst l k) = (oks, bucket_or_new lib rate burst l' k)"
    and seen': "seen_of l' k = Some now" using assms(2) False by (simp_all add: key_calls_def)
  show ?thesis
  proof (cases "seen_of l k")
    case None
    then have "bucket_or_new lib rate burst l k = NewRateLimiter lib rate burst"
      by (simp add: bucket_or_new_def seen_iff_bucket)
    moreover obtain e S where "closed_epochs rate burst interval n e S (now - t0)"
      using assms(1) None by (auto simp: account_def)
    ultimately show ?thesis using calls us seen' unfolding account_def
      by (simp only: option.case) (intro exI [of _ e] exI [of _ S] exI [of _ ?us] exI [of _ n] exI [of _ oks], simp)
  next
    case (Some seen)
    then obtain e S ts m oks0 where
      acc: "closed_epochs rate burst interval m e S (hd ts - t0)" "ts \<noteq> []" "sorted ts" "last ts = seen" "seen \<le> now"
        "bucket_calls lib ts (NewRateLimiter lib rate burst) = (oks0, bucket_or_new lib rate burst l k)" "n \<le> m + granted oks0"
      using assms(1) by (auto simp: account_def)
    have "t \<le> now" if "t \<in> set ts" for t
    proof -
      have "ts = butlast ts @ [last ts]" using acc(2) by simp
      then have "sorted (butlast ts @ [last ts])" using acc(3) by metis
      moreover have "t \<in> set (butlast ts) \<or> t = last ts" using that acc(2) by (metis Un_iff append_butlast_last_id empty_iff empty_set set_append set_ConsD)
      ultimately show ?thesis using acc(4,5) by (auto simp: sorted_append)
    qed
    then have "sorted (ts @ ?us)" using acc(3) by (auto simp: sorted_append)
    moreover have "bucket_calls lib (ts @ ?us) (NewRateLimiter lib rate burst) = (oks0 @ oks, bucket_or_new lib rate burst l' k)"
      using acc(6) calls by (simp add: bucket_calls_append)
    ultimately show ?thesis using acc us seen' unfolding account_def
      by (simp only: option.case)
        (intro exI [of _ e] exI [of _ S] exI [of _ "ts @ ?us"] exI [of _ m] exI [of _ "oks0 @ oks"], simp)
  qed
qed

text \<open>The bound of one epoch.\<close>

lemma epoch_granted:
  assumes "token_bucket lib" "0 \<le> rate" "0 \<le> burst" "sorted ts" "ts \<noteq> []"
    and "bucket_calls lib ts (NewRateLimiter lib rate burst) = (oks, b)"
  shows "granted oks * Second \<le> burst * Second + rate * (last ts - hd ts)"
  using assms unfolding token_bucket_def by (metis fst_conv)

lemma close_epoch:
  assumes "closed_epochs rate burst interval m e S (hd ts - t0)" "n \<le> m + granted oks"
    and "granted oks * Second \<le> burst * Second + rate * (last ts - hd ts)" "hd ts \<le> last ts" "0 \<le> rate"
  shows "closed_epochs rate burst interval n (e + 1) (S + (last ts - hd ts)) (last ts + interval - t0)"
proof -
  have "n * Second \<le> (m + granted oks) * Second" using assms(2) Second_pos by simp
  then have "n * Second \<le> (e + 1) * burst * Second + rate * (S + (last ts - hd ts))"
    using assms(1,3) by (simp add: closed_epochs_def algebra_simps)
  then show ?thesis using assms(1,4) by (simp add: closed_epochs_def algebra_simps)
qed

lemma sorted_hd_last: "sorted ts \<Longrightarrow> ts \<noteq> [] \<Longrightarrow> hd ts \<le> last ts"
  by (cases ts) auto

lemma account_cleanup:
  assumes "account lib rate burst interval k t0 now l n" "lm_inv l" "lm_cleanupInterval l = interval"
    and "token_bucket lib" "0 \<le> rate" "0 \<le> burst"
  shows "account lib rate burst interval k t0 now (cleanup_tick now l) n"
proof -
  have dist: "distinct_keys (lm_limiters l)" using assms(2) by (simp add: lm_inv_def)
  have store: "lm_store (cleanup_tick now l) = lm_store l" by (simp add: cleanup_tick_def Let_def)
  show ?thesis
  proof (cases "\<exists>seen. seen_of l k = Some seen \<and> seen < now - interval")
    case True
    then obtain seen where seen: "seen_of l k = Some seen" "seen < now - interval" by blast
    then have gone: "seen_of (cleanup_tick now l) k = None"
      using assms(3) by (auto simp: seen_of_def cleanup_lookup [OF dist])
    obtain e S ts m oks where
      acc: "closed_epochs rate burst interval m e S (hd ts - t0)" "ts \<noteq> []" "sorted ts" "last ts = seen"
        "bucket_calls lib ts (NewRateLimiter lib rate burst) = (oks, bucket_or_new lib rate burst l k)" "n \<le> m + granted oks"
      using assms(1) seen(1) by (auto simp: account_def)
    have "closed_epochs rate burst interval n (e + 1) (S + (last ts - hd ts)) (last ts + interval - t0)"
      by (intro close_epoch [OF acc(1,6)] epoch_granted [OF assms(4-6) acc(3,2,5)] sorted_hd_last acc(2,3) assms(5))
    then have "closed_epochs rate burst interval n (e + 1) (S + (last ts - hd ts)) (now - t0)"
      using seen(2) acc(4) by (simp add: closed_epochs_def)
    then show ?thesis using gone by (auto simp: account_def)
  next
    case False
    then have "map_of (lm_limiters (cleanup_tick now l)) k = map_of (lm_limiters l) k"
      using assms(3) by (auto simp: seen_of_def cleanup_lookup [OF dist] split: option.splits)
    then have "seen_of (cleanup_tick now l) k = seen_of l k"
      "bucket_or_new lib rate burst (cleanup_tick now l) k = bucket_or_new lib rate burst l k"
      by (simp_all add: seen_of_def bucket_or_new_def bucket_of_def store)
    then show ?thesis using assms(1) by (auto simp: account_def split: option.splits)
  qed
qed

text \<open>What an account allows.\<close>

lemma account_bound:
  assumes "account lib rate burst interval k t0 now l n" "token_bucket lib" "0 \<le> rate" "0 \<le> burst" "0 < interval" "t0 \<le> now"
  shows "n * Second \<le> (1 + (now - t0) div interval) * burst * Second + rate * (now - t0)"
proof -
  let ?T = "now - t0"
  have total: "n * Second \<le> (1 + ?T div interval) * burst * Second + rate * ?T"
    if n: "n * Second \<le> e * burst * Second + rate * S" and e: "(e - 1) * interval \<le> ?T" and S: "S \<le> ?T" for e S
  proof -
    have "e - 1 \<le> ?T div interval" using zdiv_mono1 [OF e assms(5)] assms(5) by simp
    then have "e * (burst * Second) \<le> (1 + ?T div interval) * (burst * Second)"
      using assms(4) Second_pos by (intro mult_right_mono) auto
    moreover have "rate * S \<le> rate * ?T" using S assms(3) by (rule mult_left_mono)
    ultimately show ?thesis using n by (simp add: mult.assoc)
  qed
  show ?thesis
  proof (cases "seen_of l k")
    case None
    then obtain e S where c: "closed_epochs rate burst interval n e S ?T" using assms(1) by (auto simp: account_def)
    then have pos: "0 \<le> e * interval" using assms(5) by (simp add: closed_epochs_def)
    have "(e - 1) * interval \<le> ?T" "S \<le> ?T"
      using c assms(5) pos unfolding closed_epochs_def left_diff_distrib by linarith+
    then show ?thesis using c by (intro total [of e S]) (simp_all add: closed_epochs_def)
  next
    case (Some seen)
    then obtain e S ts m oks where
      acc: "closed_epochs rate burst interval m e S (hd ts - t0)" "ts \<noteq> []" "sorted ts" "last ts = seen" "seen \<le> now"
        "bucket_calls lib ts (NewRateLimiter lib rate burst) = (oks, bucket_or_new lib rate burst l k)" "n \<le> m + granted oks"
      using assms(1) by (auto simp: account_def)
    have c: "closed_epochs rate burst interval n (e + 1) (S + (last ts - hd ts)) (last ts + interval - t0)"
      by (intro close_epoch [OF acc(1,7)] epoch_granted [OF assms(2-4) acc(3,2,6)] sorted_hd_last acc(2,3) assms(3))
    have "0 \<le> e * interval" using acc(1) assms(5) by (simp add: closed_epochs_def)
    then have "e * interval \<le> ?T" "S + (last ts - hd ts) \<le> ?T"
      using acc(1,4,5) assms(5) sorted_hd_last [OF acc(3,2)] unfolding closed_epochs_def by linarith+
    then show ?thesis using c by (intro total [of "e + 1" "S + (last ts - hd ts)"]) (simp_all add: closed_epochs_def)
  qed
qed

section \<open>What a history admits\<close>

lemma Allow_calls:
  assumes "lm_inv l" "Allow lib now r l = ((ok, ident, q), evs, l')"
    and "\<And>rule. rule \<in> set (lm_rules l) \<Longrightarrow> rule_in_scope rule r \<Longrightarrow>
      buildKey rule r (extractClientIP (r_RemoteAddr r)) = k \<Longrightarrow> rl_Rate rule = rate \<and> rl_Burst rule = burst"
  shows "\<exists>oks. lm_inv l' \<and> key_calls lib rate burst now k l l' oks \<and> (ok \<longrightarrow> limited_by l k r \<longrightarrow> 1 \<le> granted oks)"
proof (cases "isExempt (lm_exemptions l) (extractClientIP (r_RemoteAddr r)) (u_Path (r_URL r))")
  case True
  then show ?thesis using assms(1,2)
    by (intro exI [of _ "[]"]) (auto simp: Allow_def Let_def key_calls_def limited_by_def)
next
  case False
  then have "allow_rules lib now (lm_rules l) r (extractClientIP (r_RemoteAddr r)) l = ((ok, ident, q), evs, l')"
    using assms(2) by (simp add: Allow_def Let_def)
  from allow_rules_calls [OF assms(1) this assms(3)] show ?thesis
    by (auto simp: limited_by_def Let_def list_ex_iff)
qed

text \<open>The settings never change.\<close>

lemma allow_rules_settings:
  "allow_rules lib now rules r ip l = (res, evs, l') \<Longrightarrow>
    lm_rules l' = lm_rules l \<and> lm_exemptions l' = lm_exemptions l \<and> lm_cleanupInterval l' = lm_cleanupInterval l"
proof (induction rules arbitrary: l res evs)
  case (Cons rule rules)
  then show ?case
    by (auto simp: getLimiter_def call_Allow_def Let_def split: if_splits prod.splits option.splits)
qed simp

lemma Allow_settings:
  "Allow lib now r l = (res, evs, l') \<Longrightarrow>
    lm_rules l' = lm_rules l \<and> lm_exemptions l' = lm_exemptions l \<and> lm_cleanupInterval l' = lm_cleanupInterval l"
  by (auto simp: Allow_def Let_def dest: allow_rules_settings split: if_splits)

lemma account_run:
  assumes "token_bucket lib" "0 \<le> rate" "0 \<le> burst"
    and "lm_inv l" "lm_rules l = rules" "lm_cleanupInterval l = interval"
    and "account lib rate burst interval k t0 t l n" "sorted (t # map op_time ops)"
    and "\<And>now r rule. LimitRequest now r \<in> set ops \<Longrightarrow> rule \<in> set rules \<Longrightarrow> rule_in_scope rule r \<Longrightarrow>
      buildKey rule r (extractClientIP (r_RemoteAddr r)) = k \<Longrightarrow> rl_Rate rule = rate \<and> rl_Burst rule = burst"
  shows "\<exists>l'. account lib rate burst interval k t0 (last (t # map op_time ops)) l' (n + admitted lib k ops l)"
  using assms(4-)
proof (induction ops arbitrary: t l n)
  case Nil
  then show ?case by auto
next
  case (Cons op ops)
  have later: "account lib rate burst interval k t0 (op_time op) l n" "sorted (op_time op # map op_time ops)"
    using account_later [OF Cons.prems(4)] Cons.prems(5) by simp_all
  have same_rule: "rl_Rate rule = rate \<and> rl_Burst rule = burst"
    if "LimitRequest now r \<in> set ops" "rule \<in> set rules" "rule_in_scope rule r"
      "buildKey rule r (extractClientIP (r_RemoteAddr r)) = k" for now r rule
    using Cons.prems(6) [of now r rule] that by simp
  show ?case
  proof (cases op)
    case (LimitRequest now r)
    obtain ok ident q evs l' where a: "Allow lib now r l = ((ok, ident, q), evs, l')" by (metis prod_cases3)
    obtain oks where oks: "lm_inv l'" "key_calls lib rate burst now k l l' oks" "ok \<longrightarrow> limited_by l k r \<longrightarrow> 1 \<le> granted oks"
      using Allow_calls [OF Cons.prems(1) a, of k rate burst] Cons.prems(2,6) LimitRequest by auto
    let ?one = "if ok \<and> limited_by l k r then 1 else 0 :: int"
    have "account lib rate burst interval k t0 now l' (n + ?one)"
      using account_less [OF account_request [OF _ oks(2)], of interval t0 n "n + ?one"] later(1) oks(3) granted_nonneg [of oks] LimitRequest
      by auto
    from Cons.IH [OF oks(1) _ _ this _ same_rule] Allow_settings [OF a] Cons.prems(2,3) later(2)
    show ?thesis by (simp add: LimitRequest a add.assoc)
  next
    case (CleanupTick now)
    have "account lib rate burst interval k t0 now (cleanup_tick now l) n"
      using account_cleanup [OF _ Cons.prems(1,3) assms(1-3)] later(1) CleanupTick by simp
    from Cons.IH [OF lm_inv_cleanup [OF Cons.prems(1)] _ _ this _ same_rule] Cons.prems(2,3) later(2)
    show ?thesis by (simp add: CleanupTick cleanup_tick_def Let_def)
  qed
qed

section \<open>Properties\<close>

text \<open>C12: with buckets as documented, a history of requests and cleanup ticks that lasts a
  time T admits under one key at most its burst, a further burst for every five minutes, and T
  times the rate; the rules that share the key must agree on the two numbers.\<close>

theorem admissions_bounded:
  assumes "token_bucket lib" "0 \<le> rate" "0 \<le> burst" "ops \<noteq> []" "sorted (map op_time ops)"
    and "\<forall>now r. \<forall>rule \<in> set (rl_Rules cfg). LimitRequest now r \<in> set ops \<longrightarrow> rule_in_scope rule r \<longrightarrow>
      buildKey rule r (extractClientIP (r_RemoteAddr r)) = k \<longrightarrow> rl_Rate rule = rate \<and> rl_Burst rule = burst"
  shows "admitted lib k ops (NewLimiter (Some cfg) metrics) * Second \<le>
    (1 + (op_time (last ops) - op_time (hd ops)) div (5 * Minute)) * burst * Second
      + rate * (op_time (last ops) - op_time (hd ops))"
proof -
  let ?l = "NewLimiter (Some cfg) metrics" and ?t = "op_time (hd ops)"
  have "account lib rate burst (5 * Minute) k ?t ?t ?l 0"
    by (auto simp: account_def closed_epochs_def seen_of_def NewLimiter_def intro!: exI [of _ 0])
  moreover have "sorted (?t # map op_time ops)" using assms(4,5) by (cases ops) auto
  ultimately obtain l' where
    "account lib rate burst (5 * Minute) k ?t (last (?t # map op_time ops)) l' (0 + admitted lib k ops ?l)"
    using account_run [OF assms(1-3) lm_inv_new, of "Some cfg" metrics "rl_Rules cfg" "5 * Minute" k ?t ?t 0 ops] assms(6)
    by (auto simp: NewLimiter_def)
  moreover have "last (?t # map op_time ops) = op_time (last ops)" using assms(4) by (simp add: last_map)
  moreover have "?t \<le> op_time (last ops)"
    using sorted_hd_last [OF assms(5)] assms(4) by (simp add: hd_map last_map)
  moreover have "0 < 5 * Minute" by (simp add: Minute_def Second_def Millisecond_def)
  ultimately show ?thesis using account_bound [OF _ assms(1-3)] by simp
qed

text \<open>A client that asks three times in a second under a rule with rate 1 and burst 1 is let
  through at most twice.\<close>

theorem admissions_bounded_witness:
  "admitted exact_lib ''rl:login:ip:10.0.0.7''
     [LimitRequest 0 (sample_request ''/login'' ''''), LimitRequest 0 (sample_request ''/login'' ''''),
      LimitRequest Second (sample_request ''/login'' '''')] (NewLimiter (Some sample_limit) False) \<le> 2"
proof -
  let ?ops = "[LimitRequest 0 (sample_request ''/login'' ''''), LimitRequest 0 (sample_request ''/login'' ''''),
      LimitRequest Second (sample_request ''/login'' '''')]"
  have "\<forall>now r. \<forall>rule \<in> set (rl_Rules sample_limit). LimitRequest now r \<in> set ?ops \<longrightarrow> rule_in_scope rule r \<longrightarrow>
      buildKey rule r (extractClientIP (r_RemoteAddr r)) = ''rl:login:ip:10.0.0.7'' \<longrightarrow> rl_Rate rule = 1 \<and> rl_Burst rule = 1"
    by (simp add: sample_limit_def)
  moreover have "sorted (map op_time ?ops)" using Second_pos by simp
  ultimately have "admitted exact_lib ''rl:login:ip:10.0.0.7'' ?ops (NewLimiter (Some sample_limit) False) * Second \<le>
      (1 + (op_time (last ?ops) - op_time (hd ?ops)) div (5 * Minute)) * 1 * Second
        + 1 * (op_time (last ?ops) - op_time (hd ?ops))"
    by (intro admissions_bounded [OF token_bucket_exact]) simp_all
  then show ?thesis by (simp add: Minute_def Second_def Millisecond_def)
qed

text \<open>The further bursts are real: under a rule of rate 0 a bucket never refills, but a client that
  waits until the cleanup has forgotten its bucket is admitted again.\<close>

definition once_limit :: rate_limit_config where
  "once_limit = sample_limit\<lparr>rl_Rules := map (\<lambda>rule. rule\<lparr>rl_Rate := 0\<rparr>) (rl_Rules sample_limit)\<rparr>"

theorem cleanup_renews_burst:
  "let r = sample_request ''/login'' ''''; k = ''rl:login:ip:10.0.0.7''; t = 5 * Minute + 1
   in admitted exact_lib k [LimitRequest 0 r, LimitRequest t r] (NewLimiter (Some once_limit) False) = 1
    \<and> admitted exact_lib k [LimitRequest 0 r, CleanupTick t, LimitRequest t r] (NewLimiter (Some once_limit) False) = 2"
proof -
  have ip: "extractClientIP (r_RemoteAddr (sample_request ''/login'' '''')) = ''10.0.0.7''"
    unfolding sample_request_def by code_simp
  have in_scope: "rule_in_scope \<lparr>rl_ID = ''login'', rl_Key = ''ip'', rl_PathPrefix = ''/login'', rl_Rate = 0, rl_Burst = 1, rl_Enabled = True\<rparr>
      (sample_request ''/login'' '''')"
    by (simp add: rule_in_scope_def HasPrefix_def)
  show ?thesis
    by (simp add: once_limit_def sample_limit_def NewLimiter_def Allow_def isExempt_def ip in_scope buildKey_def getLimiter_def
        call_Allow_def exact_lib_def limited_by_def cleanup_tick_def Let_def Minute_def Second_def Millisecond_def
        split: option.split)
qed

end
