(* ===== verification/Forwarding.thy ===== *)
theory Forwarding
  imports ProxyProps
begin

text \<open>
  What the origin learns about the client: the forwarded headers of \<open>security/headers.go\<close> after
  they went through one of the two ways to the origin of \<open>proxy/handler.go\<close>, the fetch of the cached
  path and the reverse proxy of the other one, which drops the headers the client lists in
  \<open>Connection\<close> and appends the client address itself.
\<close>

text \<open>The headers a client asks the next hop to drop.\<close>

definition connection_lists :: "request \<Rightarrow> string \<Rightarrow> bool" where
  "connection_lists r k \<longleftrightarrow> k \<in> CanonicalHeaderKey ` set (connection_options (r_Header r))"

lemma map_of_header_Del:
  "map_of (fold header_Del ks h) k = (if k \<in> CanonicalHeaderKey ` set ks then None else map_of h k)"
proof (induction ks arbitrary: h)
  case (Cons j ks)
  have "map_of (header_Del j h) k = (if k = CanonicalHeaderKey j then None else map_of h k)"
    by (simp add: header_Del_def map_of_delete)
  then show ?case using Cons [of "header_Del j h"] by auto
qed simp

lemma hop_keys: "CanonicalHeaderKey ` set hopHeaders = set hopHeaders"
proof -
  have "map CanonicalHeaderKey hopHeaders = hopHeaders" by code_simp
  then show ?thesis by (metis list.set_map)
qed

lemma map_of_removeHopByHop:
  "map_of (removeHopByHopHeaders h) k =
     (if k \<in> set hopHeaders \<or> k \<in> CanonicalHeaderKey ` set (connection_options h) then None else map_of h k)"
  by (auto simp: removeHopByHopHeaders_def map_of_header_Del hop_keys)

lemma map_of_header_Set: "map_of (header_Set j v h) k = (if k = CanonicalHeaderKey j then Some [v] else map_of h k)"
  by (simp add: header_Set_def)

lemma map_of_out_headers: "distinct_keys h \<Longrightarrow> map_of (out_headers h) k = map_of h k"
proof -
  have "distinct_keys h \<Longrightarrow> map_of (fold (\<lambda>(k, vs) acc. AList.update k vs acc) h acc) k =
      (case map_of h k of None \<Rightarrow> map_of acc k | Some vs \<Rightarrow> Some vs)" for acc
  proof (induction h arbitrary: acc)
    case (Cons x h)
    then have "map_of h (fst x) = None" by (simp add: map_of_eq_None_iff)
    then show ?case using Cons by (cases "map_of h k") (auto split: prod.split)
  qed simp
  then show "distinct_keys h \<Longrightarrow> ?thesis" by (simp add: out_headers_def split: option.split)
qed

lemma proxy_keys:
  "CanonicalHeaderKey ''Te'' = ''Te''" "CanonicalHeaderKey ''Upgrade'' = ''Upgrade''"
  "CanonicalHeaderKey ''Connection'' = ''Connection''" "CanonicalHeaderKey ''User-Agent'' = ''User-Agent''"
  by code_simp+

text \<open>Which forwarded headers the reverse proxy lets through.\<close>

lemma proxied_forwarded:
  fixes h :: header
  assumes "SplitHostPort addr = Some (ip, port)"
  defines "g \<equiv> removeHopByHopHeaders h"
  shows "map_of (proxied_headers addr h) ''X-Forwarded-For'' =
      Some [case map_of g ''X-Forwarded-For'' of None \<Rightarrow> ip
            | Some prior \<Rightarrow> if prior = [] then ip else Join prior '', '' @ '', '' @ ip]"
    "map_of (proxied_headers addr h) ''X-Forwarded-Proto'' = map_of g ''X-Forwarded-Proto''"
proof -
  define g1 where "g1 = (if HeaderValuesContainsToken (header_Values h ''Te'') ''trailers'' then header_Set ''Te'' ''trailers'' g else g)"
  define g2 where "g2 = (if upgradeType h \<noteq> '''' then header_Set ''Upgrade'' (upgradeType h) (header_Set ''Connection'' ''Upgrade'' g1) else g1)"
  have same: "map_of g2 ''X-Forwarded-For'' = map_of g ''X-Forwarded-For''"
    "map_of g2 ''X-Forwarded-Proto'' = map_of g ''X-Forwarded-Proto''"
    by (simp_all add: g1_def g2_def map_of_header_Set proxy_keys)
  define v where "v = (case map_of g ''X-Forwarded-For'' of None \<Rightarrow> ip
    | Some prior \<Rightarrow> if prior = [] then ip else Join prior '', '' @ '', '' @ ip)"
  define g3 where "g3 = header_Set ''X-Forwarded-For'' v g2"
  have "(case map_of g2 ''X-Forwarded-For'' of None \<Rightarrow> header_Set ''X-Forwarded-For'' ip g2
      | Some prior \<Rightarrow> header_Set ''X-Forwarded-For'' (if prior = [] then ip else Join prior '', '' @ '', '' @ ip) g2) = g3"
    unfolding g3_def v_def same(1) by (cases "map_of g ''X-Forwarded-For''") simp_all
  then have "proxied_headers addr h = (if map_of g3 ''User-Agent'' = None then header_Set ''User-Agent'' '''' g3 else g3)"
    unfolding proxied_headers_def Let_def assms(1) g_def [symmetric] g1_def [symmetric] g2_def [symmetric]
    by (simp only: option.case prod.case)
  then have "map_of (proxied_headers addr h) k = map_of g3 k" if "k \<noteq> ''User-Agent''" for k
    using that by (simp add: map_of_header_Set proxy_keys)
  then show "map_of (proxied_headers addr h) ''X-Forwarded-For'' = Some [v]"
    "map_of (proxied_headers addr h) ''X-Forwarded-Proto'' = map_of g ''X-Forwarded-Proto''"
    by (simp_all add: g3_def map_of_header_Set xff_keys same)
qed

text \<open>C30: the address the origin sees in X-Forwarded-For. Over the cached path it is that of the
  connection, behind what the client sent when X-Forwarded-For is trusted and instead of it
  otherwise. The reverse proxy appends the address of the connection once more, and drops all the
  rest when the client lists the header in Connection: a client that is trusted can erase the proxies
  before it that way. The scheme is the one of the connection over the cached path; over the
  reverse proxy a client can have X-Forwarded-Proto dropped by listing it.\<close>

theorem origin_sees_connection:
  fixes trust :: bool
  assumes "SplitHostPort (r_RemoteAddr r) = Some (ip, port)" "distinct_keys (r_Header r)"
  defines "r' \<equiv> SetForwardedHeaders trust r" and "proto \<equiv> if r_TLS r then ''https'' else ''http''"
    and "seen \<equiv> if trust \<and> header_Get (r_Header r) ''X-Forwarded-For'' \<noteq> ''''
      then header_Get (r_Header r) ''X-Forwarded-For'' @ '', '' @ ip else ip"
  shows "(case origin_request h r' of
            None \<Rightarrow> True
          | Some out \<Rightarrow> map_of (o_Header out) ''X-Forwarded-For'' = Some [seen]
              \<and> map_of (o_Header out) ''X-Forwarded-Proto'' = Some [proto])
    \<and> (case proxied_request target r' of
            None \<Rightarrow> True
          | Some out \<Rightarrow>
              map_of (o_Header out) ''X-Forwarded-For'' =
                Some [if connection_lists r ''X-Forwarded-For'' then ip else seen @ '', '' @ ip]
              \<and> map_of (o_Header out) ''X-Forwarded-Proto'' =
                (if connection_lists r ''X-Forwarded-Proto'' then None else Some [proto]))"
proof -
  have ip: "header_extractIP (r_RemoteAddr r) = ip" using assms(1) by (simp add: header_extractIP_def)
  have headers: "map_of (r_Header r') ''X-Forwarded-For'' = Some [seen]" "map_of (r_Header r') ''X-Forwarded-Proto'' = Some [proto]"
    "map_of (r_Header r') ''Connection'' = map_of (r_Header r) ''Connection''"
    by (simp_all add: r'_def proto_def seen_def SetForwardedHeaders_def Let_def map_of_header_Set xff_keys ip)
  have options: "connection_options (r_Header r') = connection_options (r_Header r)"
    using headers(3) by (simp add: connection_options_def header_Values_def)
  have "r_RemoteAddr r' = r_RemoteAddr r" by (simp add: r'_def frame)
  have dist: "distinct_keys (r_Header r')"
    using assms(2) by (simp add: r'_def SetForwardedHeaders_def Let_def)
  note proxied = proxied_forwarded [OF assms(1), of "r_Header r'"]
  show ?thesis
    using headers proxied options \<open>r_RemoteAddr r' = _\<close>
    by (auto simp: origin_request_def map_of_out_headers [OF dist] proxied_request_def Let_def map_of_removeHopByHop
        connection_lists_def hopHeaders_def split: option.split)
qed

text \<open>A client that hides the scheme.\<close>

definition hiding_request :: request where
  "hiding_request = (sample_request ''/'' '''')\<lparr>r_Header := [(''Connection'', [''x-forwarded-proto''])]\<rparr>"

lemma hiding_request_facts:
  "SplitHostPort (r_RemoteAddr hiding_request) = Some (''10.0.0.7'', ''4711'')"
  "distinct_keys (r_Header hiding_request)"
  "connection_lists hiding_request ''X-Forwarded-Proto''" "\<not> connection_lists hiding_request ''X-Forwarded-For''"
  "proxied_request target (SetForwardedHeaders False hiding_request) \<noteq> None"
proof -
  show "SplitHostPort (r_RemoteAddr hiding_request) = Some (''10.0.0.7'', ''4711'')"
    unfolding hiding_request_def sample_request_def by code_simp
  show "distinct_keys (r_Header hiding_request)" by (simp add: hiding_request_def)
  have "Split (CHR '','') ''x-forwarded-proto'' = [''x-forwarded-proto'']"
    "trim_set {CHR '' '', CHR 0x09, CHR 0x0A, CHR 0x0D} ''x-forwarded-proto'' = ''x-forwarded-proto''"
    by (simp_all add: trim_set_def)
  then have "connection_options (r_Header hiding_request) = [''x-forwarded-proto'']"
    by (simp add: hiding_request_def connection_options_def header_Values_def)
  moreover have "CanonicalHeaderKey ''x-forwarded-proto'' = ''X-Forwarded-Proto''" by code_simp
  ultimately show "connection_lists hiding_request ''X-Forwarded-Proto''" "\<not> connection_lists hiding_request ''X-Forwarded-For''"
    by (simp_all add: connection_lists_def)
  have "tokenEqual s t \<Longrightarrow> length s = length t" for s t
    by (auto simp: tokenEqual_def ToLower_def dest: map_eq_imp_length_eq)
  from this [of "''x-forwarded-proto''" "''Upgrade''"]
  have "\<not> HeaderValuesContainsToken [''x-forwarded-proto''] ''Upgrade''"
    by (auto simp: HeaderValuesContainsToken_def trim_set_def)
  then show "proxied_request target (SetForwardedHeaders False hiding_request) \<noteq> None"
    by (simp add: proxied_request_def upgradeType_def header_Values_def hiding_request_def SetForwardedHeaders_def Let_def
        map_of_header_Set xff_keys is_print_def)
qed

theorem origin_sees_connection_witness:
  "map_option (\<lambda>out. (map_of (o_Header out) ''X-Forwarded-For'', map_of (o_Header out) ''X-Forwarded-Proto''))
     (proxied_request (ph_targetURL sample_handler) (SetForwardedHeaders False hiding_request))
   = Some (Some [''10.0.0.7, 10.0.0.7''], None)"
  using origin_sees_connection [OF hiding_request_facts(1,2), of False sample_handler "ph_targetURL sample_handler"]
    hiding_request_facts(3,4) hiding_request_facts(5) [of "ph_targetURL sample_handler"]
  by auto

text \<open>The fetch of the cached path hands on every header of the client, those of the hop
  (Proxy-Authorization, Transfer-Encoding) included, which the reverse proxy drops.\<close>

theorem cached_path_keeps_hop_headers:
  assumes "distinct_keys (r_Header r)" "origin_request h r = Some out" "proxied_request target r = Some out'"
    and "k \<in> set hopHeaders - {''Connection'', ''Te'', ''Upgrade''}"
  shows "map_of (o_Header out) k = map_of (r_Header r) k \<and> map_of (o_Header out') k = None"
proof -
  have k: "k \<notin> {''X-Forwarded-For'', ''User-Agent'', ''Te'', ''Upgrade'', ''Connection''}"
    using assms(4) by (auto simp: hopHeaders_def)
  then have keep: "map_of (header_Set j v g) k = map_of g k"
    if "j \<in> {''X-Forwarded-For'', ''User-Agent'', ''Te'', ''Upgrade'', ''Connection''}" for j v g
    using that by (auto simp: map_of_header_Set proxy_keys xff_keys)
  let ?forwarded = "\<lambda>g. case SplitHostPort (r_RemoteAddr r) of None \<Rightarrow> g
    | Some (ip, port) \<Rightarrow> (case map_of g ''X-Forwarded-For'' of None \<Rightarrow> header_Set ''X-Forwarded-For'' ip g
      | Some prior \<Rightarrow> header_Set ''X-Forwarded-For'' (if prior = [] then ip else Join prior '', '' @ '', '' @ ip) g)"
  have "map_of (?forwarded g) k = map_of g k" for g by (simp add: keep split: option.split prod.split)
  moreover have "map_of (if b then header_Set j v g else g) k = map_of g k"
    "map_of (if b then header_Set j v (header_Set j' v' g) else g) k = map_of g k"
    if "j \<in> {''User-Agent'', ''Te'', ''Upgrade''}" "j' = ''Connection''" for b j v j' v' g
    using that keep by auto
  ultimately have "map_of (proxied_headers (r_RemoteAddr r) (r_Header r)) k = map_of (removeHopByHopHeaders (r_Header r)) k"
    unfolding proxied_headers_def Let_def by simp
  then have "map_of (proxied_headers (r_RemoteAddr r) (r_Header r)) k = None"
    using assms(4) by (simp add: map_of_removeHopByHop)
  then show ?thesis using assms(2,3) map_of_out_headers [OF assms(1)]
    by (auto simp: origin_request_def proxied_request_def Let_def split: if_splits)
qed

end
