(* ===== verification/LogLines.thy ===== *)
theory LogLines
  imports App
begin

text \<open>
  What the program writes to its standard output: one JSON object per line, for the access log
  (\<open>middleware/logging.go\<close>), a recovered panic (\<open>middleware/recovery.go\<close>), a firewall decision
  (\<open>waf/engine.go\<close>) and the start-up messages (\<open>app/app.go\<close>). The lines are rendered from the events
  of the other theories; what is read off the clock or the runtime (time stamp, duration, panic
  value, stack) and the texts of errors are arguments. The four loggers print a line with one write,
  so lines do not mix. The theorem is that no request can forge or split a line, whatever bytes its
  path, query, method or agent hold.
\<close>

section \<open>The entries\<close>

record log_texts =
  lt_timestamp :: string
  lt_duration_ms :: string
  lt_panic :: string
  lt_stack :: string

text \<open>\<open>json.Marshal\<close> of a Go map writes the keys in ascending order; the literals below are in
  that order.\<close>

definition access_entry ::
  "log_texts \<Rightarrow> string \<Rightarrow> string \<Rightarrow> string \<Rightarrow> string \<Rightarrow> int \<Rightarrow> string \<Rightarrow> string \<Rightarrow> string \<Rightarrow> json" where
  "access_entry x reqID meth path query status client agent cacheStatus =
     JObj [(''cache_status'', JStr cacheStatus),
           (''client_ip'', JStr client),
           (''duration_ms'', JStr (lt_duration_ms x)),
           (''level'', JStr ''info''),
           (''method'', JStr meth),
           (''msg'', JStr ''access''),
           (''path'', JStr path),
           (''query'', JStr query),
           (''request_id'', JStr reqID),
           (''status'', JInt status),
           (''timestamp'', JStr (lt_timestamp x)),
           (''user_agent'', JStr agent)]"

definition panic_entry :: "log_texts \<Rightarrow> string \<Rightarrow> json" where
  "panic_entry x reqID =
     JObj [(''level'', JStr ''error''),
           (''msg'', JStr ''panic recovered''),
           (''panic'', JStr (lt_panic x)),
           (''request_id'', JStr reqID),
           (''stack'', JStr (lt_stack x)),
           (''timestamp'', JStr (lt_timestamp x))]"

definition decision_entry :: "log_texts \<Rightarrow> request \<Rightarrow> decision \<Rightarrow> json" where
  "decision_entry x r d =
     JObj [(''action'', JStr (d_Action d)),
           (''client_ip'', JStr (r_RemoteAddr r)),
           (''detail'', JStr (d_Detail d)),
           (''level'', JStr ''warn''),
           (''method'', JStr (r_Method r)),
           (''msg'', JStr ''waf_decision''),
           (''path'', JStr (u_Path (r_URL r))),
           (''query'', JStr (u_RawQuery (r_URL r))),
           (''rule_id'', JStr (d_RuleID d)),
           (''timestamp'', JStr (lt_timestamp x)),
           (''user_agent'', JStr (UserAgent r))]"

text \<open>\<open>logJSON\<close>: the given fields may overwrite the common ones.\<close>

fun field_json :: "(load_error \<Rightarrow> string) \<Rightarrow> log_field \<Rightarrow> json" where
  "field_json err_text (LStr s) = JStr s"
| "field_json err_text (LInt i) = JInt i"
| "field_json err_text (LBool b) = JBool b"
| "field_json err_text (LErr err) = JStr (err_text err)"
| "field_json err_text (LErrText s) = JStr s"

definition app_entry :: "(load_error \<Rightarrow> string) \<Rightarrow> log_texts \<Rightarrow> log_line \<Rightarrow> json" where
  "app_entry err_text x l =
     (let entry = [(''timestamp'', JStr (lt_timestamp x)), (''level'', JStr (ll_level l)), (''msg'', JStr (ll_msg l))];
          entry = fold (\<lambda>(k, v). AList.update k (field_json err_text v)) (ll_fields l) entry
      in JObj (sort_key fst entry))"

section \<open>The output\<close>

datatype log_source = FromApp log_line | FromRequest event

text \<open>Metric updates leave no line.\<close>

fun log_entry :: "(load_error \<Rightarrow> string) \<Rightarrow> log_texts \<times> log_source \<Rightarrow> json option" where
  "log_entry err_text (x, FromApp l) = Some (app_entry err_text x l)"
| "log_entry err_text (x, FromRequest (AccessEvent reqID meth path query status client agent cacheStatus)) =
     Some (access_entry x reqID meth path query status client agent cacheStatus)"
| "log_entry err_text (x, FromRequest (PanicEvent reqID)) = Some (panic_entry x reqID)"
| "log_entry err_text (x, FromRequest (WafEvent (WafLog r d))) = Some (decision_entry x r d)"
| "log_entry err_text (x, FromRequest _) = None"

abbreviation newline :: char where "newline \<equiv> CHR 0x0A"

text \<open>\<open>logger.Println(string(data))\<close> with the flags 0 and no prefix.\<close>

definition log_line_text :: "json \<Rightarrow> string" where
  "log_line_text entry = json_text entry @ [newline]"

definition log_output :: "(load_error \<Rightarrow> string) \<Rightarrow> (log_texts \<times> log_source) list \<Rightarrow> string" where
  "log_output err_text evs = concat (map log_line_text (List.map_filter (log_entry err_text) evs))"

section \<open>No control bytes\<close>

lemma visible_json_char: "list_all (\<lambda>d. 32 \<le> ord d) (json_char c)"
proof -
  have "list_all (\<lambda>n. 32 \<le> ord (lowerhex n)) [0..<16]" by code_simp
  then have hex: "n < 16 \<Longrightarrow> 32 \<le> ord (lowerhex n)" for n by (simp add: list_all_iff)
  have "ord c div 16 < 16" "ord c mod 16 < 16" using ord_less_256 [of c] by linarith+
  then show ?thesis using hex
    by (cases rule: json_char_cases [of c]) (auto simp: simple_escape_def)
qed

lemma visible_json_chars: "list_all (\<lambda>d. 32 \<le> ord d) (json_chars s)"
proof (induction s rule: json_chars.induct)
  case (2 c s)
  have runes: "list_all (\<lambda>d. 32 \<le> ord d) (json_rune r)" if "list_all (\<lambda>d. 128 \<le> ord d) r" for r
    using that by (auto simp: json_rune_def list_all_iff intro: order_trans [of 32 128])
  consider (ascii) "ord c < 128" | (bad) "128 \<le> ord c" "rune_size (c # s) = 0"
    | (rune) "128 \<le> ord c" "rune_size (c # s) \<noteq> 0" by linarith
  then show ?case
  proof cases
    case ascii
    then show ?thesis using 2(1) visible_json_char [of c] by (simp add: json_chars.simps)
  next
    case bad
    then show ?thesis using 2(2) by (simp add: json_chars.simps)
  next
    case rune
    then show ?thesis using 2(3) runes [OF rune_high [OF rune(2,1)]] by (simp add: json_chars.simps Let_def)
  qed
qed (simp add: json_chars.simps)

lemma visible_show_digits: "list_all (\<lambda>d. 32 \<le> ord d) (show_digits 10 n)"
proof -
  have digit: "is_digit c \<Longrightarrow> 32 \<le> ord c" for c by (auto simp: is_digit_def less_eq_char_def)
  obtain c ds where "show_digits 10 n = c # ds" "is_digit c" "list_all is_digit ds" using show_digits_shape by metis
  then show ?thesis using digit by (auto simp: list_all_iff)
qed

lemma visible_json_text: "list_all (\<lambda>d. 32 \<le> ord d) (json_text v)"
proof (induction v rule: json_text.induct)
  case (2 i)
  then show ?case by (simp add: show_int_def visible_show_digits)
next
  case (4 fs)
  have "list_all (\<lambda>d. 32 \<le> ord d) (json_string k @ '':'' @ json_text v)" if "(k, v) \<in> set fs" for k v
    using 4 [OF that] visible_json_chars [of k] by (auto simp: json_string_def)
  then have "\<forall>w \<in> set (map (\<lambda>(k, v). json_string k @ '':'' @ json_text v) fs). list_all (\<lambda>d. 32 \<le> ord d) w"
    by auto
  moreover have "\<forall>w \<in> set ws. list_all (\<lambda>d. 32 \<le> ord d) w \<Longrightarrow> list_all (\<lambda>d. 32 \<le> ord d) (Join ws '','')" for ws
    using set_Join [of ws "'',''"] by (fastforce simp: list_all_iff)
  ultimately show ?case by simp
qed (auto simp: json_string_def visible_json_chars)

lemma no_newline: "newline \<notin> set (json_text v)"
proof -
  have "32 \<le> ord c" if "c \<in> set (json_text v)" for c using visible_json_text that by (auto simp: list_all_iff)
  then show ?thesis by force
qed

section \<open>One line per event, and it reads back\<close>

lemma app_entry_depth: "json_depth (app_entry err_text x l) = 1"
proof -
  have flat: "\<forall>p \<in> set kvs. json_depth (snd p) = 0 \<Longrightarrow>
      \<forall>p \<in> set (fold (\<lambda>(k, v). AList.update k (field_json err_text v)) fs kvs). json_depth (snd p) = 0" for fs and kvs :: "(string \<times> json) list"
  proof (induction fs arbitrary: kvs)
    case (Cons f fs)
    have upd: "\<forall>p \<in> set kvs. json_depth (snd p) = 0 \<Longrightarrow> json_depth w = 0 \<Longrightarrow>
        \<forall>p \<in> set (AList.update i w kvs). json_depth (snd p) = 0" for i w and kvs :: "(string \<times> json) list"
      by (induction kvs) auto
    obtain k u where f: "f = (k, u)" by fastforce
    have "json_depth (field_json err_text u) = 0" by (cases u) auto
    from Cons.IH [OF upd [OF Cons.prems this, of k]] show ?case by (simp add: f)
  qed simp
  have zero: "\<forall>p \<in> set kvs. json_depth (snd p) = 0 \<Longrightarrow> foldr max (map (\<lambda>(k, v). json_depth v) kvs) 0 = 0" for kvs
    by (induction kvs) auto
  let ?common = "[(''timestamp'', JStr (lt_timestamp x)), (''level'', JStr (ll_level l)), (''msg'', JStr (ll_msg l))]"
  have "\<forall>p \<in> set ?common. json_depth (snd p) = 0" by simp
  from flat [OF this, of "ll_fields l"] show ?thesis by (simp add: app_entry_def zero)
qed

lemma log_entry_depth: "log_entry err_text e = Some v \<Longrightarrow> json_depth v = 1"
  by (cases "(err_text, e)" rule: log_entry.cases)
    (auto simp: access_entry_def panic_entry_def decision_entry_def app_entry_depth)

lemma Split_lines: "(\<And>p. p \<in> set ps \<Longrightarrow> d \<notin> set p) \<Longrightarrow> Split d (concat (map (\<lambda>p. p @ [d]) ps)) = ps @ [[]]"
  by (induction ps) (auto simp: Split_append_sep)

text \<open>C33: Cut at the newlines, the output is one line per entry in order and a final empty one; and a
  line is read, by the decoder of \<open>encoding/json\<close>, as exactly the fields of its entry, bytes that are
  not UTF-8 replaced. So no client can forge a line or hide a field.\<close>

theorem log_output_reads_back:
  "map read_json (Split newline (log_output err_text evs)) =
     map (\<lambda>entry. Some (embed entry, '''')) (List.map_filter (log_entry err_text) evs) @ [None]"
proof -
  let ?entries = "List.map_filter (log_entry err_text) evs"
  have "log_output err_text evs = concat (map (\<lambda>p. p @ [newline]) (map json_text ?entries))"
    by (simp add: log_output_def log_line_text_def [abs_def] comp_def)
  then have lines: "Split newline (log_output err_text evs) = map json_text ?entries @ [[]]"
    using Split_lines [of "map json_text ?entries" newline] no_newline by auto
  have "read_json (json_text v) = Some (embed v, '''')" if v: "v \<in> set ?entries" for v
  proof -
    obtain e where "log_entry err_text e = Some v" using v by (auto simp: List.map_filter_def)
    then have "json_depth v = 1" by (rule log_entry_depth)
    then show ?thesis using read_json_text [of v "[]"] by (simp add: maxNestingDepth_def)
  qed
  then show ?thesis by (simp add: lines read_json_def read_value.simps)
qed

end
