(* ===== verification/Spec2Isabelle.thy ===== *)
theory Spec2Isabelle
  imports Normalize CacheProps Config CachePolicy Waf RateLimit Security Middleware Admin ProxyHandler Pipeline ProxyProps Server System Program Concurrent Interleave Pool Flight App RateBound Forwarding LogLines
begin

text \<open>
  The OpenFlare edge proxy (\<open>edge-proxy-poc/proxy\<close>): a caching reverse proxy with a web
  application firewall, a rate limiter and an admin API, written in Go. Paths below are
  under \<open>proxy/internal/\<close>, but for \<open>proxy/cmd/edgeproxy/main.go\<close>.

  How the parts interact. \<open>app/app.go\<close> loads the settings (\<open>config/\<close>), builds the parts and
  serves two ports until a signal or a server error. The public server (\<open>server/\<close>) runs every
  request through the middleware (\<open>middleware/\<close>: request id, access log, panic recovery) and
  a mux into the proxy handler (\<open>proxy/handler.go\<close>), which normalises path and query
  (\<open>normalize/\<close>), lets the firewall decide (\<open>waf/\<close>), asks the rate limiter (\<open>ratelimit/\<close>), sets
  the forwarded headers (\<open>security/\<close>) and answers from the cache (\<open>cache/cache.go\<close>, as
  \<open>cache/policy.go\<close> allows) or from the origin, storing what may be stored. The admin server
  (\<open>admin/\<close>) works on the same cache.

  Theories, from the bottom up.
  \<^item> \<open>Prelude\<close>: 64-bit integers with wrap-around, durations, association lists, hint collections.
  \<^item> \<open>GoStrings\<close>, \<open>GoUrl\<close>, \<open>GoUtf8\<close>, \<open>GoNet\<close>, \<open>GoJson\<close>, \<open>JsonDecode\<close>, \<open>Http\<close>, \<open>UrlResolve\<close>,
    \<open>UrlParse\<close>, \<open>ReverseProxy\<close>, \<open>ServeMux\<close>: what the code uses of Go's standard library: strings,
    percent-encoding, query parsing and \<open>path.Clean\<close>, UTF-8, addresses and networks, JSON,
    headers, requests and response writers, reference resolution, parsing and printing of URLs
    (what is printed parses again: \<open>url_Parse_String\<close>), the
    reverse proxy of \<open>net/http/httputil\<close>, the mux. Strings are lists of characters below
    256, one per byte; letter case and white space are ASCII, where Go knows those of Unicode.
  \<^item> \<open>Normalize\<close>: \<open>normalize/normalize.go\<close>.
  \<^item> \<open>CacheStore\<close>: \<open>cache/cache.go\<close>, list elements by address. \<open>CacheLru\<close>: the abstract
    LRU list and the refinement of every operation. \<open>CacheBackend\<close>: the \<open>Backend\<close> interface as a
    record, its laws as a locale interpreted on the memory backend, bounds and counters over
    sequences of calls. \<open>CacheProps\<close>: the properties.
  \<^item> \<open>Config\<close>: \<open>config/config.go\<close>. \<open>CachePolicy\<close>: \<open>cache/policy.go\<close>. \<open>Waf\<close>: \<open>waf/engine.go\<close>.
    \<open>RateLimit\<close>: \<open>ratelimit/limiter.go\<close>; \<open>RateBound\<close>: how many requests it admits, by an account
    of the epochs of a key, with buckets that do what their documentation says. \<open>Security\<close>: \<open>security/headers.go\<close>. \<open>Middleware\<close>:
    \<open>middleware/\<close>. \<open>Admin\<close>: \<open>admin/handler.go\<close>. \<open>Metrics\<close>: \<open>observability/metrics.go\<close>.
    \<open>Upstream\<close>: \<open>upstream/transport.go\<close>.
  \<^item> \<open>ProxyHandler\<close>: \<open>proxy/handler.go\<close>. \<open>Pipeline\<close>: the contract of a handler as a locale
    (which states it keeps, when it answers) and its instances. \<open>ProxyProps\<close>: the properties.
    \<open>Forwarding\<close>: the headers the origin sees on either path.
  \<^item> \<open>Program\<close>, \<open>Concurrent\<close>, \<open>Interleave\<close>, \<open>Pool\<close>: the handlers as programs of critical
    sections, their equivalence with the handlers, the contract of cache and limiter under
    interleaving, and the pool of goroutines as a step relation with its safety properties.
    \<open>Flight\<close>: the pool under the rules of the single-flight group, where a second call for a key
    waits for the first one; its runs are runs of \<open>Pool\<close>, and every request comes to its end.
  \<^item> \<open>Server\<close>: \<open>server/server.go\<close>, both handler chains. \<open>System\<close>: requests to the two servers
    as a step relation, its reachable states. \<open>App\<close>: \<open>app/app.go\<close> and \<open>main.go\<close>: start-up,
    fallbacks, shutdown, and what a started program answers. \<open>LogLines\<close>: the text of the log,
    rendered from the events of the other theories, and that it reads back.

  State. A response writer is a value that handlers return changed; the status it sent and
  its body are fields. The program's state is the record \<open>proxy_state\<close>: cache, limiter and the
  log lines and metric updates emitted so far. A handler returns, panics or hangs (\<open>outcome\<close>).
  Mutexes make each operation of the cache atomic. \<open>System\<close> interleaves whole requests,
  \<open>Pool\<close> and \<open>Flight\<close> their critical sections. Of \<open>golang.org/x/sync/singleflight\<close> only what is
  documented is used: a call returns the result of its own function or of another run of its key,
  and in \<open>Flight\<close>, that only one call per key is under way and hands its result to those that wait.
  \<open>Pool\<close> allows more runs than the group does, which is right for what no run may do; what every
  run must do is shown of \<open>Flight\<close>. A critical section holds one mutex and takes no second one, so a
  goroutine waits for a mutex no longer than for one action, which is shown to return.

  What lies outside the repository and the standard library is an argument: the YAML decoder,
  the token bucket of \<open>golang.org/x/time/rate\<close>, the call under way in a single-flight group, the
  UUID generator, the Prometheus handler and its check of labels, the origin. So are the
  regular expression engine, the transport, the clock, signals, sockets and the file system.

  Loops. Every loop of the code but one is structural recursion; the JSON reader takes fuel, of
  which twice the length of the input is enough (\<open>read_value_fuel\<close>). The eviction loop of \<open>Set\<close> may run
  forever, so it is \<open>while_option\<close>; \<open>SetEntry_returns_iff\<close> says exactly when it returns.

  Not modelled: the text of time stamps, durations, stacks and errors in log lines, which are
  arguments of \<open>LogLines\<close>; data races on what the code shares without a lock; protocol upgrades,
  trailers and interim (1xx) responses of the reverse proxy; fragments of URLs, which no
  transport sends, and the empty query and host that \<open>ForceQuery\<close> and \<open>OmitHost\<close> remember. The
  counters and the size of the cache are unbounded integers in place of \<open>int64\<close>.
\<close>

end
